(* ===== verification/MG_Prelude.thy ===== *)
theory MG_Prelude
  imports Main "HOL-Library.Word" "HOL-Library.Sublist" "HOL-Library.Monad_Syntax"
begin

text \<open>
  Shared vocabulary of the development: actor identifiers and error codes as the C++ sources
  see them, the decimal rendering of \<^verbatim>\<open>std::to_string\<close>, the collections of
  rewrite rules the component theories extend, and the generic facts on lists, options and
  words that their proofs share.

  Throughout the development a result of type \<open>'a option\<close> whose \<open>None\<close> is described as
  \<^emph>\<open>undefined behaviour\<close> stands for a step of the program on which the C++ standard gives
  no guarantee (reading outside an array, dereferencing a null pointer, \<^verbatim>\<open>front()\<close>
  of an empty queue); the theorems say when such a step cannot happen.
\<close>

named_theorems handler_defs "definitions of the handlers of one component, unfolded together"
named_theorems step_simps "characteristic equations of the operations, used instead of their definitions"

subsection \<open>Types shared by every component\<close>

text \<open>
  \<^verbatim>\<open>exchange::ActorId\<close> is a number handed out by the actor library; the program
  only stores and compares it.
\<close>

type_synonym actor_id = nat

text \<open>
  The values of \<^verbatim>\<open>asio::error_code\<close> the program distinguishes. A default
  constructed code is success and is written \<open>None\<close>.
\<close>

datatype asio_error = Eof | Connection_reset | Operation_aborted | Other_error nat

type_synonym error_code = "asio_error option"

abbreviation success :: error_code where
  "success \<equiv> None"

text \<open>The signed 64-bit representation of a \<^verbatim>\<open>std::chrono\<close> count.\<close>

type_synonym chrono_rep = "64 word"

subsection \<open>Outcomes of a handler\<close>

text \<open>
  A handler finishes, lets an exception escape (which leaves the event loop and ends the
  program, see the gateway's main function), or runs into undefined behaviour.
\<close>

datatype 'a outcome = Done 'a | Throws | Undefined

primrec and_then :: "'a outcome \<Rightarrow> ('a \<Rightarrow> 'b outcome) \<Rightarrow> 'b outcome" where
  "and_then (Done x) f = f x"
| "and_then Throws f = Throws"
| "and_then Undefined f = Undefined"

definition defined :: "'a option \<Rightarrow> 'a outcome" where
  "defined x = (case x of None \<Rightarrow> Undefined | Some y \<Rightarrow> Done y)"

lemma defined_simps [simp]: "defined None = Undefined" "defined (Some x) = Done x"
  by (simp_all add: defined_def)

lemma and_then_Done_iff: "and_then x f = Done y \<longleftrightarrow> (\<exists>z. x = Done z \<and> f z = Done y)"
  by (cases x) auto

lemma defined_Done_iff [simp]: "defined x = Done y \<longleftrightarrow> x = Some y"
  by (cases x) auto

text \<open>
  A component is a state and a step that handles one event, giving the new state and what it
  emitted; a run handles a list of events in order and collects what they emitted.
\<close>

fun run :: "('s \<Rightarrow> 'e \<Rightarrow> ('s \<times> 'o list) outcome) \<Rightarrow> 's \<Rightarrow> 'e list \<Rightarrow> ('s \<times> 'o list) outcome" where
  "run step s [] = Done (s, [])"
| "run step s (e # es) =
     and_then (step s e) (\<lambda>(s', os). and_then (run step s' es) (\<lambda>(s'', os'). Done (s'', os @ os')))"

lemma run_Cons_Done:
  "run step s (e # es) = Done (s'', out) \<longleftrightarrow>
    (\<exists>s' os os'. step s e = Done (s', os) \<and> run step s' es = Done (s'', os') \<and> out = os @ os')"
  by (auto simp: and_then_Done_iff)

lemma run_append:
  assumes "run step s es = Done (s1, os1)" and "run step s1 es' = Done (s2, os2)"
  shows "run step s (es @ es') = Done (s2, os1 @ os2)"
  using assms
proof (induction es arbitrary: s os1)
  case Nil
  then show ?case by simp
next
  case (Cons e es)
  then obtain s' o1 o2 where "step s e = Done (s', o1)" "run step s' es = Done (s1, o2)" "os1 = o1 @ o2"
    by (auto simp: and_then_Done_iff)
  with Cons.IH [of s' o2] Cons.prems(2) show ?case by simp
qed

lemma run_invariant:
  assumes "\<And>s e s' os. I s \<Longrightarrow> step s e = Done (s', os) \<Longrightarrow> I s'"
    and "I s" and "run step s es = Done (s', os)"
  shows "I s'"
  using assms(2,3)
proof (induction es arbitrary: s os)
  case Nil
  then show ?case by simp
next
  case (Cons e es)
  then show ?case using assms(1) by (metis run_Cons_Done)
qed

lemma run_outputs:
  assumes "\<And>s e s' os. I s \<Longrightarrow> step s e = Done (s', os) \<Longrightarrow> I s' \<and> list_all P os"
    and "I s" and "run step s es = Done (s', os)"
  shows "list_all P os"
  using assms(2,3)
proof (induction es arbitrary: s os)
  case Nil
  then show ?case by simp
next
  case (Cons e es)
  then show ?case using assms(1) by (fastforce simp: run_Cons_Done simp del: run.simps)
qed

subsection \<open>Decimal numerals\<close>

text \<open>\<^verbatim>\<open>std::to_string\<close> on an unsigned number: its decimal digits, without leading zeros.\<close>

definition digit_char :: "nat \<Rightarrow> char" where
  "digit_char d = char_of (48 + d)"

fun to_string :: "nat \<Rightarrow> string" where
  "to_string n = (if n < 10 then [digit_char n] else to_string (n div 10) @ [digit_char (n mod 10)])"

declare to_string.simps [simp del]

lemma digit_char_inj: "a < 10 \<Longrightarrow> b < 10 \<Longrightarrow> digit_char a = digit_char b \<longleftrightarrow> a = b"
proof -
  assume "a < 10" and "b < 10"
  then have "of_char (digit_char a) = 48 + a" and "of_char (digit_char b) = 48 + b"
    by (simp_all add: digit_char_def of_char_of)
  then show ?thesis by (metis add_left_cancel)
qed

lemma to_string_nonempty [simp]: "to_string n \<noteq> []"
  by (subst to_string.simps) simp

lemma to_string_inj: "to_string m = to_string n \<Longrightarrow> m = n"
proof (induction m arbitrary: n rule: to_string.induct)
  case (1 m)
  have unfold: "to_string k = (if k < 10 then [digit_char k]
      else to_string (k div 10) @ [digit_char (k mod 10)])" for k
    by (rule to_string.simps)
  consider "m < 10" "n < 10" | "\<not> m < 10" "\<not> n < 10" | "m < 10 \<longleftrightarrow> \<not> n < 10" by blast
  then show ?case
  proof cases
    case 1
    with "1.prems" show ?thesis by (simp add: unfold [of m] unfold [of n] digit_char_inj)
  next
    case 2
    with "1.prems" have "to_string (m div 10) = to_string (n div 10)"
      and "digit_char (m mod 10) = digit_char (n mod 10)"
      by (simp_all add: unfold [of m] unfold [of n])
    with "1.IH" 2 have "m div 10 = n div 10" and "m mod 10 = n mod 10"
      by (simp_all add: digit_char_inj)
    then show ?thesis by (metis div_mult_mod_eq)
  next
    case 3
    with "1.prems" show ?thesis
      by (cases "m < 10") (auto simp: unfold [of m] unfold [of n] Cons_eq_append_conv
          append_eq_Cons_conv)
  qed
qed

lemma to_string_eq_iff [simp]: "to_string m = to_string n \<longleftrightarrow> m = n"
  by (auto dest: to_string_inj)

subsection \<open>Lists and subsequences\<close>

lemma subseq_tl: "subseq (tl xs) xs"
  by (cases xs) (auto intro: list_emb_Cons)

lemma subseq_dropWhile: "subseq (dropWhile P xs) xs"
  by (metis suffix_dropWhile suffix_imp_subseq)

lemma subseq_set: "subseq xs ys \<Longrightarrow> set xs \<subseteq> set ys"
  by (auto simp: subseq_conv_nths dest: in_set_nthsD)

lemma drop_snoc: "n \<le> length xs \<Longrightarrow> drop n (xs @ [x]) = drop n xs @ [x]"
  by simp

subsection \<open>Words\<close>

lemma word_less_Suc:
  fixes u v :: "'a::len word"
  assumes "u < v"
  shows "unat (u + 1) = Suc (unat u)"
proof -
  from assms have "Suc (unat u) \<le> unat v" by (simp add: word_less_nat_alt)
  then have "Suc (unat u) < 2 ^ LENGTH('a)"
    by (rule le_less_trans) (rule unsigned_less)
  then show ?thesis by (simp add: unat_word_ariths)
qed

lemma word_not_max_less: "(u::'a::len word) \<noteq> - 1 \<longleftrightarrow> u < - 1"
  by (simp add: word_order.not_eq_extremum)

lemma unat_ucast_small:
  "unat w < 2 ^ LENGTH('b) \<Longrightarrow> unat (ucast (w :: 'a::len word) :: 'b::len word) = unat w"
  by (simp add: unsigned_ucast_eq take_bit_nat_eq_self)

text \<open>Narrowing a number that is not above the largest one of the narrower type is exact.\<close>

lemma ucast_below_max:
  assumes "\<not> (ucast (- 1 :: 'w::len word) :: 'v::len word) < x"
  shows "unat (ucast x :: 'w word) = unat x"
proof (rule unat_ucast_small)
  from assms have "unat x \<le> unat (ucast (- 1 :: 'w word) :: 'v word)"
    by (simp add: word_le_nat_alt linorder_not_less)
  also have "\<dots> \<le> unat (- 1 :: 'w word)"
    by (simp add: unsigned_ucast_eq take_bit_nat_less_eq_self)
  also have "\<dots> < 2 ^ LENGTH('w)" by (rule unsigned_less)
  finally show "unat x < 2 ^ LENGTH('w)" .
qed

end
