(* ===== verification/Limit_Queue.thy ===== *)
theory Limit_Queue
  imports MG_Prelude
begin

text \<open>
  The bounded message queue of the master actors
  (\<^verbatim>\<open>src/src/common/include/common/limit_queue.h\<close>): a class template over
  \<^verbatim>\<open>std::queue\<close> with a maximal size. \<^verbatim>\<open>front()\<close> and
  \<^verbatim>\<open>pop()\<close> of an empty \<^verbatim>\<open>std::queue\<close> are undefined behaviour
  and are \<open>None\<close> here.
\<close>

record 'a limit_queue =
  lq_items :: "'a list"
  lq_maxSize :: nat

definition size_t_max :: nat where
  "size_t_max = 2 ^ 64 - 1"

text \<open>The constructor asserts a positive bound; a failed assertion is \<open>None\<close>.\<close>

definition LimitQueue :: "nat \<Rightarrow> 'a limit_queue option" where
  "LimitQueue maxSize = (if maxSize > 0 then Some \<lparr>lq_items = [], lq_maxSize = maxSize\<rparr> else None)"

definition LimitQueue_default :: "'a limit_queue" where
  "LimitQueue_default = \<lparr>lq_items = [], lq_maxSize = size_t_max\<rparr>"

definition LimitQueue_Size :: "'a limit_queue \<Rightarrow> nat" where
  "LimitQueue_Size q = length (lq_items q)"

definition LimitQueue_Empty :: "'a limit_queue \<Rightarrow> bool" where
  "LimitQueue_Empty q \<longleftrightarrow> lq_items q = []"

definition LimitQueue_MaxSize :: "'a limit_queue \<Rightarrow> nat" where
  "LimitQueue_MaxSize q = lq_maxSize q"

definition LimitQueue_Front :: "'a limit_queue \<Rightarrow> 'a option" where
  "LimitQueue_Front q = (case lq_items q of [] \<Rightarrow> None | x # _ \<Rightarrow> Some x)"

definition LimitQueue_Pop :: "'a limit_queue \<Rightarrow> 'a limit_queue option" where
  "LimitQueue_Pop q = (case lq_items q of [] \<Rightarrow> None | _ # xs \<Rightarrow> Some (q\<lparr>lq_items := xs\<rparr>))"

definition LimitQueue_Push :: "'a \<Rightarrow> 'a limit_queue \<Rightarrow> 'a limit_queue" where
  "LimitQueue_Push val q =
     (let q' = (if length (lq_items q) > lq_maxSize q then q\<lparr>lq_items := tl (lq_items q)\<rparr> else q)
      in q'\<lparr>lq_items := lq_items q' @ [val]\<rparr>)"

lemmas LimitQueue_defs = LimitQueue_Size_def LimitQueue_Empty_def LimitQueue_MaxSize_def
  LimitQueue_Front_def LimitQueue_Pop_def LimitQueue_Push_def

subsection \<open>The contract of a bounded first-in first-out queue\<close>

text \<open>
  What the clients of the queue rely on, stated through the list \<open>contents\<close> of its elements
  in order of arrival and the number \<open>capacity\<close> of elements it holds at most: \<open>push\<close> appends,
  dropping the oldest element when the queue is full, \<open>front\<close> and \<open>pop\<close> read and remove the
  oldest element.
\<close>

locale bounded_fifo =
  fixes push :: "'a \<Rightarrow> 'q \<Rightarrow> 'q"
    and front :: "'q \<Rightarrow> 'a option"
    and pop :: "'q \<Rightarrow> 'q option"
    and is_empty :: "'q \<Rightarrow> bool"
    and contents :: "'q \<Rightarrow> 'a list"
    and capacity :: "'q \<Rightarrow> nat"
    and invar :: "'q \<Rightarrow> bool"
  assumes contents_push: "invar q \<Longrightarrow> contents (push x q) =
      (if length (contents q) < capacity q then contents q else tl (contents q)) @ [x]"
    and contents_pop: "map_option contents (pop q) =
      (case contents q of [] \<Rightarrow> None | _ # xs \<Rightarrow> Some xs)"
    and front_contents: "front q = (case contents q of [] \<Rightarrow> None | x # _ \<Rightarrow> Some x)"
    and is_empty_contents: "is_empty q \<longleftrightarrow> contents q = []"
    and capacity_push: "capacity (push x q) = capacity q"
    and capacity_pop: "pop q = Some q' \<Longrightarrow> capacity q' = capacity q"
    and invar_capacity: "invar q \<Longrightarrow> 0 < capacity q \<and> length (contents q) \<le> capacity q"
    and invar_push: "invar q \<Longrightarrow> invar (push x q)"
    and invar_pop: "invar q \<Longrightarrow> pop q = Some q' \<Longrightarrow> invar q'"
begin

lemma pop_Some_iff: "pop q = Some q' \<Longrightarrow> \<exists>x. contents q = x # contents q'"
  using contents_pop [of q] by (auto split: list.splits)

lemma nonempty_pop: "\<not> is_empty q \<Longrightarrow> \<exists>q' x. pop q = Some q' \<and> front q = Some x \<and>
    contents q = x # contents q'"
  using contents_pop [of q] front_contents [of q]
  by (auto simp: is_empty_contents split: list.splits)

lemma pop_shrinks: "pop q = Some q' \<Longrightarrow> length (contents q') < length (contents q)"
  by (auto dest: pop_Some_iff)

lemma push_subseq: "invar q \<Longrightarrow> subseq (contents (push x q)) (contents q @ [x])"
  by (auto simp: contents_push subseq_tl intro: list_emb_append_mono)

lemma push_elements:
  "invar q \<Longrightarrow> set (contents (push x q)) \<subseteq> insert x (set (contents q))"
  using subseq_set [OF push_subseq [of q x]] by auto

lemma push_with_room:
  "invar q \<Longrightarrow> length (contents q) < capacity q \<Longrightarrow> contents (push x q) = contents q @ [x]"
  by (simp add: contents_push)

lemma push_latest: "invar q \<Longrightarrow> last (contents (push x q)) = x"
  by (simp add: contents_push)

lemma push_suffix: "invar q \<Longrightarrow>
    contents (push x q) = drop (Suc (length (contents q)) - capacity q) (contents q @ [x])"
  using invar_capacity [of q]
  by (cases "length (contents q) < capacity q") (auto simp: contents_push drop_Suc)

lemma fold_push_invar: "invar q \<Longrightarrow> invar (fold push xs q)"
  by (induction xs arbitrary: q) (auto intro: invar_push)

lemma fold_push_contents:
  assumes "invar q"
  shows "contents (fold push xs q) =
    drop (length (contents q) + length xs - capacity q) (contents q @ xs)"
  using assms
proof (induction xs arbitrary: q)
  case Nil
  then show ?case using invar_capacity [of q] by simp
next
  case (Cons x xs)
  let ?l = "length (contents q)" and ?c = "capacity q"
  have cap: "0 < ?c" "?l \<le> ?c" using invar_capacity [OF Cons.prems] by auto
  have len: "length (contents (push x q)) = Suc ?l - (Suc ?l - ?c)"
    by (simp add: push_suffix [OF Cons.prems])
  have "contents (fold push (x # xs) q) =
      drop (length (contents (push x q)) + length xs - ?c) (contents (push x q) @ xs)"
    using Cons.IH [OF invar_push [OF Cons.prems]] by (simp add: capacity_push)
  also have "\<dots> = drop (?l + length (x # xs) - ?c) (contents q @ x # xs)"
  proof (cases "?l < ?c")
    case True
    then show ?thesis using Cons.prems by (simp add: contents_push)
  next
    case False
    with cap have "?l = ?c" by simp
    with cap obtain y ys where "contents q = y # ys" by (cases "contents q") auto
    with \<open>?l = ?c\<close> show ?thesis using Cons.prems by (simp add: contents_push)
  qed
  finally show ?case .
qed

end

subsection \<open>LimitQueue provides it\<close>

definition LimitQueue_invar :: "'a limit_queue \<Rightarrow> bool" where
  "LimitQueue_invar q \<longleftrightarrow> length (lq_items q) \<le> Suc (lq_maxSize q)"

interpretation lq: bounded_fifo LimitQueue_Push LimitQueue_Front LimitQueue_Pop LimitQueue_Empty
  lq_items "\<lambda>q. Suc (lq_maxSize q)" LimitQueue_invar
  by unfold_locales
    (auto simp: LimitQueue_defs LimitQueue_invar_def Let_def split: list.splits)

lemma LimitQueue_invar_new: "LimitQueue n = Some q \<Longrightarrow> LimitQueue_invar q"
  by (auto simp: LimitQueue_def LimitQueue_invar_def split: if_splits)

lemma LimitQueue_invar_default [simp]: "LimitQueue_invar LimitQueue_default"
  by (simp add: LimitQueue_default_def LimitQueue_invar_def)

lemma LimitQueue_default_empty [simp]: "lq_items LimitQueue_default = []"
  by (simp add: LimitQueue_default_def)

lemma LimitQueue_fields [simp]:
  "lq_maxSize (LimitQueue_Push x q) = lq_maxSize q"
  "LimitQueue_Pop q = Some q' \<Longrightarrow> lq_maxSize q' = lq_maxSize q"
  by (auto simp: LimitQueue_defs Let_def split: list.splits)

subsection \<open>Properties\<close>

text \<open>
  a queue built with bound \<open>n\<close> and then pushed the values \<open>xs\<close> holds, in order of
  arrival, exactly the last \<open>n + 1\<close> of them: the oldest values are the ones dropped, and one
  more value than the declared maximal size is kept.
\<close>

lemma LimitQueue_keeps_latest:
  assumes "LimitQueue n = Some q"
  shows "lq_items (fold LimitQueue_Push xs q) = drop (length xs - Suc n) xs"
  using lq.fold_push_contents [OF LimitQueue_invar_new [OF assms], of xs] assms
  by (auto simp: LimitQueue_def split: if_splits)

theorem LimitQueue_keeps_latest_witness:
  "lq_items (fold LimitQueue_Push [1, 2, 3, 4, 5] \<lparr>lq_items = [], lq_maxSize = 2\<rparr>) = [3, 4, 5 :: nat]"
  using LimitQueue_keeps_latest [of 2 "\<lparr>lq_items = [], lq_maxSize = 2\<rparr>" "[1, 2, 3, 4, 5 :: nat]"]
  by (simp add: LimitQueue_def)

end
