(* ===== verification/Messages.thy ===== *)
theory Messages
  imports Limit_Queue
begin

text \<open>
  The messages the actors exchange (\<^verbatim>\<open>src/src/message\<close>), the parts of the
  Modbus and actor libraries the transports call, and the effects of a handler.

  The frame library \<^verbatim>\<open>contrib/modbus\<close> is not part of the repository. Its
  operations are the fields of a record \<open>modbus_lib\<close> that every handler takes as an argument;
  buffers, \<^verbatim>\<open>modbus::UnitId\<close> and \<^verbatim>\<open>modbus::TransactionId\<close> are the
  type parameters \<open>'b\<close>, \<open>'u\<close> and \<open>'t\<close>; where the program counts or compares ids the last two are
  instantiated with words of an arbitrary width. What a theorem
  needs of the library is a named predicate in its hypotheses.
\<close>

subsection \<open>ModbusMessageInfo\<close>

record 't message_info =
  createTimeStamp :: chrono_rep
  timeoutReached :: bool
  sourceId :: actor_id
  transactionId :: "'t"

text \<open>
  The constructor reads the steady clock; the clock value is the argument \<open>now\<close>, in
  nanoseconds since the clock's epoch.
\<close>

definition ModbusMessageInfo :: "chrono_rep \<Rightarrow> actor_id \<Rightarrow> 't \<Rightarrow> 't message_info" where
  "ModbusMessageInfo now source tid =
     \<lparr>createTimeStamp = now, timeoutReached = False, sourceId = source, transactionId = tid\<rparr>"

text \<open>
  \<^verbatim>\<open>TimeoutReached\<close> is a const method with a mutable latch: it returns the
  latch and may set it. The addition of \<^verbatim>\<open>std::chrono\<close> counts is a signed
  64-bit addition (it wraps here; the theorems say when it cannot).
\<close>

definition TimeoutReached :: "chrono_rep \<Rightarrow> chrono_rep \<Rightarrow> 't message_info \<Rightarrow>
    bool \<times> 't message_info" where
  "TimeoutReached now timeout info =
     (if timeoutReached info then (True, info)
      else let info' = (if sint (createTimeStamp info + timeout) \<le> sint now
                        then info\<lparr>timeoutReached := True\<rparr> else info)
           in (timeoutReached info', info'))"

definition GetSourceId :: "'t message_info \<Rightarrow> actor_id" where
  "GetSourceId info = sourceId info"

definition GetTransactionId :: "'t message_info \<Rightarrow> 't" where
  "GetTransactionId info = transactionId info"

text \<open>The implicit conversion of \<^verbatim>\<open>std::chrono::milliseconds\<close> to nanoseconds.\<close>

definition milliseconds_to_nanoseconds :: "chrono_rep \<Rightarrow> chrono_rep" where
  "milliseconds_to_nanoseconds ms = ms * 1000000"

subsection \<open>Messages\<close>

text \<open>A \<^verbatim>\<open>ModbusBufferPtr\<close> may be null: the buffer is an option.\<close>

record ('b, 't) modbus_message =
  modbusMessageInfo :: "'t message_info"
  modbusBuffer :: "'b option"

definition ModbusMessage :: "'t message_info \<Rightarrow> 'b option \<Rightarrow> ('b, 't) modbus_message" where
  "ModbusMessage info buffer = \<lparr>modbusMessageInfo = info, modbusBuffer = buffer\<rparr>"

definition GetModbusMessageInfo :: "('b, 't) modbus_message \<Rightarrow> 't message_info" where
  "GetModbusMessageInfo m = modbusMessageInfo m"

definition GetModbusBuffer :: "('b, 't) modbus_message \<Rightarrow> 'b option" where
  "GetModbusBuffer m = modbusBuffer m"

text \<open>
  The dynamic type of an \<^verbatim>\<open>exchange::MessagePtr\<close>, as the receivers tell it apart
  by \<^verbatim>\<open>dynamic_pointer_cast\<close>: the two message classes of the program, or anything
  else.
\<close>

datatype ('b, 't) message =
    ModbusMsg "('b, 't) modbus_message"
  | ClientDisconnectMessage (GetClientId: actor_id)
  | OtherMessage

lemmas message_defs [step_simps] = GetSourceId_def GetTransactionId_def GetModbusMessageInfo_def
  GetModbusBuffer_def ModbusMessage_def

subsection \<open>The Modbus frame library\<close>

datatype frame_type = TCP | RTU | ASCII

text \<open>
  \<open>mb_new\<close> is the constructor of \<^verbatim>\<open>ModbusBuffer\<close>, \<open>mb_set_adu_size\<close> is
  \<^verbatim>\<open>SetAduSize\<close> (\<open>None\<close> when it returns false), \<open>mb_check\<close> and \<open>mb_update\<close> are
  \<^verbatim>\<open>Check() == NoError\<close> and \<^verbatim>\<open>Update()\<close> of the wrapper that
  \<^verbatim>\<open>MakeModbusBufferWrapper\<close> picks, and the \<open>tcp_\<close> fields those of
  \<^verbatim>\<open>ModbusBufferTcpWrapper\<close>.
\<close>

record ('b, 'u, 't) modbus_lib =
  mb_new :: "frame_type \<Rightarrow> 'b"
  mb_type :: "'b \<Rightarrow> frame_type"
  mb_unit_id :: "'b \<Rightarrow> 'u"
  mb_adu_size :: "'b \<Rightarrow> nat"
  mb_set_adu_size :: "nat \<Rightarrow> 'b \<Rightarrow> 'b option"
  mb_convert_to :: "frame_type \<Rightarrow> 'b \<Rightarrow> 'b"
  mb_check :: "'b \<Rightarrow> bool"
  mb_update :: "'b \<Rightarrow> 'b"
  tcp_check :: "'b \<Rightarrow> bool"
  tcp_update :: "'b \<Rightarrow> 'b"
  tcp_get_tid :: "'b \<Rightarrow> 't"
  tcp_set_tid :: "'t \<Rightarrow> 'b \<Rightarrow> 'b"

text \<open>
  Documented behaviour of the library that some theorems assume: a transaction id that was set
  is read back, the conversion gives a buffer of the requested type, recomputing the checksum
  and length fields or the transaction id keeps the type, and none of these changes the unit id.
\<close>

definition tid_readback :: "('b, 'u, 't) modbus_lib \<Rightarrow> bool" where
  "tid_readback L \<longleftrightarrow> (\<forall>t b. tcp_get_tid L (tcp_set_tid L t b) = t)"

definition convert_types :: "('b, 'u, 't) modbus_lib \<Rightarrow> bool" where
  "convert_types L \<longleftrightarrow> (\<forall>f b. mb_type L (mb_convert_to L f b) = f) \<and>
     (\<forall>b. mb_type L (mb_update L b) = mb_type L b) \<and>
     (\<forall>b. mb_type L (tcp_update L b) = mb_type L b) \<and>
     (\<forall>t b. mb_type L (tcp_set_tid L t b) = mb_type L b)"

definition unit_id_kept :: "('b, 'u, 't) modbus_lib \<Rightarrow> bool" where
  "unit_id_kept L \<longleftrightarrow> (\<forall>f b. mb_unit_id L (mb_convert_to L f b) = mb_unit_id L b) \<and>
     (\<forall>b. mb_unit_id L (mb_update L b) = mb_unit_id L b) \<and>
     (\<forall>b. mb_unit_id L (tcp_update L b) = mb_unit_id L b) \<and>
     (\<forall>t b. mb_unit_id L (tcp_set_tid L t b) = mb_unit_id L b)"

subsection \<open>Effects\<close>

text \<open>
  What a handler asks of the operating system and of the actor library, in the order it does:
  the asynchronous operations it starts (their completions are separate handler calls with an
  error code), the operations it cancels, the messages it sends to other actors, and the actors
  it registers (\<open>Exchange_add\<close> with the id the exchange returned) or removes. The result of
  \<^verbatim>\<open>exchange->Send\<close> is only logged by the program.
\<close>

datatype ('b, 't) effect =
    Async_receive frame_type
  | Async_send 'b
  | Async_connect
  | Async_accept
  | Async_wait chrono_rep
  | Timer_cancel
  | Io_cancel
  | Io_shutdown
  | Io_close
  | Exchange_send actor_id "('b, 't) message"
  | Exchange_add actor_id
  | Exchange_delete actor_id
  | Client_stop actor_id
  | Client_start actor_id

subsection \<open>Dropping expired messages\<close>

text \<open>
  The loop both master actors run before they take a message from the queue:
  \<^verbatim>\<open>while (!messageQueue_.Empty()) { if (!Front()->...TimeoutReached(timeout_)) break; Pop(); }\<close>.
  A message that is kept is at the front and has its latch clear, so the latch is not written
  back. \<open>None\<close> is undefined behaviour of \<^verbatim>\<open>Front\<close> or \<^verbatim>\<open>Pop\<close>.
\<close>

definition message_expired :: "chrono_rep \<Rightarrow> chrono_rep \<Rightarrow> ('b, 't) modbus_message \<Rightarrow> bool" where
  "message_expired now timeout m =
     fst (TimeoutReached now (milliseconds_to_nanoseconds timeout) (GetModbusMessageInfo m))"

function drop_expired :: "chrono_rep \<Rightarrow> chrono_rep \<Rightarrow> ('b, 't) modbus_message limit_queue \<Rightarrow>
    ('b, 't) modbus_message limit_queue option" where
  "drop_expired now timeout q =
     (if LimitQueue_Empty q then Some q
      else (case LimitQueue_Front q of None \<Rightarrow> None
        | Some m \<Rightarrow> if \<not> message_expired now timeout m then Some q
          else (case LimitQueue_Pop q of None \<Rightarrow> None
            | Some q' \<Rightarrow> drop_expired now timeout q')))"
  by pat_completeness auto
termination
  by (relation "measure (\<lambda>(now, timeout, q). length (lq_items q))")
    (auto dest: lq.pop_shrinks)

declare drop_expired.simps [simp del]

lemma drop_expired_Some:
  "drop_expired now timeout q =
    Some (q\<lparr>lq_items := dropWhile (message_expired now timeout) (lq_items q)\<rparr>)"
proof (induction now timeout q rule: drop_expired.induct)
  case (1 now timeout q)
  show ?case
  proof (cases "lq_items q")
    case Nil
    then show ?thesis by (simp add: drop_expired.simps LimitQueue_defs)
  next
    case (Cons m ms)
    then show ?thesis using "1.IH"
      by (subst drop_expired.simps) (auto simp: LimitQueue_defs)
  qed
qed

lemma TimeoutReached_latched [simp]:
  "timeoutReached info \<Longrightarrow> TimeoutReached now timeout info = (True, info)"
  by (simp add: TimeoutReached_def)

lemma TimeoutReached_fields:
  "TimeoutReached now timeout info = (r, info') \<Longrightarrow>
    createTimeStamp info' = createTimeStamp info \<and> sourceId info' = sourceId info \<and>
    transactionId info' = transactionId info \<and> timeoutReached info' = r"
  by (auto simp: TimeoutReached_def Let_def split: if_splits)

subsection \<open>Properties\<close>

text \<open>
  a message whose creation time plus timeout fits in 64 bits is reported expired exactly
  when it was already latched or the clock has reached creation time plus timeout; the answer
  is recorded in the latch, so a later call reports it expired whatever the clock and the
  timeout are.
\<close>

lemma TimeoutReached_correct:
  assumes "- (2 ^ 63) \<le> sint (createTimeStamp info) + sint timeout"
    and "sint (createTimeStamp info) + sint timeout < 2 ^ 63"
  shows "(fst (TimeoutReached now timeout info) \<longleftrightarrow>
      timeoutReached info \<or> sint (createTimeStamp info) + sint timeout \<le> sint now) \<and>
    (fst (TimeoutReached now timeout info) \<longrightarrow>
      fst (TimeoutReached now' timeout' (snd (TimeoutReached now timeout info))))"
proof -
  have "sint (createTimeStamp info + timeout) = sint (createTimeStamp info) + sint timeout"
    using assms by (simp add: signed_take_bit_int_eq_self sint_word_ariths)
  then show ?thesis by (simp add: TimeoutReached_def Let_def)
qed

theorem TimeoutReached_correct_witness:
  "fst (TimeoutReached 1500 500 (ModbusMessageInfo 1000 7 (3 :: 16 word))) \<and>
   \<not> fst (TimeoutReached 1499 500 (ModbusMessageInfo 1000 7 (3 :: 16 word)))"
  using TimeoutReached_correct [of "ModbusMessageInfo 1000 7 (3 :: 16 word)" 500 1500]
    TimeoutReached_correct [of "ModbusMessageInfo 1000 7 (3 :: 16 word)" 500 1499]
  by (simp add: ModbusMessageInfo_def)

text \<open>
  the clean-up loop of the masters always terminates without undefined behaviour; it keeps
  a suffix of the queue that starts with an unexpired message, everything it removed had
  expired, and the bound of the queue is unchanged.
\<close>

lemma drop_expired_correct:
  "\<exists>q' dropped. drop_expired now timeout q = Some q' \<and>
     lq_items q = dropped @ lq_items q' \<and> list_all (message_expired now timeout) dropped \<and>
     (lq_items q' = [] \<or> message_expired now timeout (hd (lq_items q')) = False) \<and>
     lq_maxSize q' = lq_maxSize q"
proof -
  let ?P = "message_expired now timeout"
  have "lq_items q = takeWhile ?P (lq_items q) @ dropWhile ?P (lq_items q)" by simp
  moreover have "list_all ?P (takeWhile ?P (lq_items q))"
    by (auto simp: list_all_iff dest: set_takeWhileD)
  moreover have "dropWhile ?P (lq_items q) = [] \<or> ?P (hd (dropWhile ?P (lq_items q))) = False"
    using hd_dropWhile [of ?P "lq_items q"] by auto
  ultimately show ?thesis
    by (intro exI [of _ "q\<lparr>lq_items := dropWhile ?P (lq_items q)\<rparr>"]
        exI [of _ "takeWhile ?P (lq_items q)"]) (simp add: drop_expired_Some)
qed

end
