(* ===== verification/Sample_Frames.thy ===== *)
theory Sample_Frames
  imports Messages
begin

text \<open>
  A concrete instance of the frame library, used only by the witnesses: a frame is its type,
  unit id, transaction id, size and whether its checksum and length fields are right. It
  satisfies the documented laws of the library that the theorems assume.
\<close>

record frame =
  fr_type :: frame_type
  fr_unit :: "8 word"
  fr_tid :: "16 word"
  fr_size :: nat
  fr_ok :: bool

definition sample_lib :: "(frame, 8 word, 16 word) modbus_lib" where
  "sample_lib = \<lparr>mb_new = (\<lambda>f. \<lparr>fr_type = f, fr_unit = 0, fr_tid = 0, fr_size = 260, fr_ok = False\<rparr>),
     mb_type = fr_type, mb_unit_id = fr_unit, mb_adu_size = fr_size,
     mb_set_adu_size = (\<lambda>n b. if n \<le> 260 then Some (b\<lparr>fr_size := n\<rparr>) else None),
     mb_convert_to = (\<lambda>f b. b\<lparr>fr_type := f\<rparr>), mb_check = fr_ok,
     mb_update = (\<lambda>b. b\<lparr>fr_ok := True\<rparr>), tcp_check = fr_ok,
     tcp_update = (\<lambda>b. b\<lparr>fr_ok := True\<rparr>), tcp_get_tid = fr_tid,
     tcp_set_tid = (\<lambda>t b. b\<lparr>fr_tid := t\<rparr>)\<rparr>"

definition sample_frame :: "frame_type \<Rightarrow> 8 word \<Rightarrow> 16 word \<Rightarrow> frame" where
  "sample_frame f u t = \<lparr>fr_type = f, fr_unit = u, fr_tid = t, fr_size = 9, fr_ok = True\<rparr>"

lemma sample_lib_simps [simp]:
  "mb_type sample_lib b = fr_type b"
  "mb_unit_id sample_lib b = fr_unit b"
  "mb_adu_size sample_lib b = fr_size b"
  "mb_set_adu_size sample_lib n b = (if n \<le> 260 then Some (b\<lparr>fr_size := n\<rparr>) else None)"
  "mb_convert_to sample_lib f b = b\<lparr>fr_type := f\<rparr>"
  "mb_check sample_lib b = fr_ok b"
  "mb_update sample_lib b = b\<lparr>fr_ok := True\<rparr>"
  "tcp_check sample_lib b = fr_ok b"
  "tcp_update sample_lib b = b\<lparr>fr_ok := True\<rparr>"
  "tcp_get_tid sample_lib b = fr_tid b"
  "tcp_set_tid sample_lib t b = b\<lparr>fr_tid := t\<rparr>"
  by (simp_all add: sample_lib_def)

lemma sample_frame_simps [simp]:
  "fr_type (sample_frame f u t) = f" "fr_unit (sample_frame f u t) = u"
  "fr_tid (sample_frame f u t) = t" "fr_size (sample_frame f u t) = 9"
  "fr_ok (sample_frame f u t)"
  by (simp_all add: sample_frame_def)

lemma sample_lib_lawful [simp]:
  "tid_readback sample_lib" "convert_types sample_lib" "unit_id_kept sample_lib"
  by (simp_all add: tid_readback_def convert_types_def unit_id_kept_def)

end
