(* ===== verification/Master_Pipeline.thy ===== *)
theory Master_Pipeline
  imports Messages
begin

text \<open>
  What the two master-side actors (\<^verbatim>\<open>ModbusRtuMaster\<close> and
  \<^verbatim>\<open>ModbusTcpClient\<close>) have in common: the message in process, the contract that
  requests leave in order and every reply belongs to the oldest unanswered request, and the
  asynchronous operations that are outstanding.
\<close>

subsection \<open>The message in process\<close>

text \<open>The private struct \<^verbatim>\<open>ModbusCurrentMessage\<close> of both classes.\<close>

record ('b, 't) current_message =
  cur_message :: "('b, 't) modbus_message"
  cur_id :: 't

text \<open>The infos of a message in process and of a queue, in the order they will be answered.\<close>

definition cur_info :: "('b, 't) current_message option \<Rightarrow> 't message_info list" where
  "cur_info cur = (case cur of None \<Rightarrow> [] | Some m \<Rightarrow> [modbusMessageInfo (cur_message m)])"

definition queue_infos :: "('b, 't) modbus_message limit_queue \<Rightarrow> 't message_info list" where
  "queue_infos q = map modbusMessageInfo (lq_items q)"

lemma cur_info_simps [simp]:
  "cur_info None = []" "cur_info (Some m) = [modbusMessageInfo (cur_message m)]"
  by (simp_all add: cur_info_def)

text \<open>What a list of effects replies: the addressee and the info of each message sent.\<close>

fun replies :: "('b, 't) effect list \<Rightarrow> (actor_id \<times> 't message_info) list" where
  "replies [] = []"
| "replies (Exchange_send a (ModbusMsg m) # os) = (a, modbusMessageInfo m) # replies os"
| "replies (_ # os) = replies os"

lemma replies_append [simp]: "replies (xs @ ys) = replies xs @ replies ys"
  by (induction xs rule: replies.induct) auto

text \<open>An info together with the actor a reply to it must go to.\<close>

definition addressed :: "'t message_info \<Rightarrow> actor_id \<times> 't message_info" where
  "addressed i = (sourceId i, i)"

text \<open>
  What an actor still has to answer: its message in process, then its queue. Pushing a request,
  taking the oldest unexpired one and giving up the one in process keep the order.
\<close>

definition pipeline_of :: "('b, 't) current_message option \<Rightarrow> ('b, 't) modbus_message limit_queue \<Rightarrow>
    (actor_id \<times> 't message_info) list" where
  "pipeline_of cur q = map addressed (cur_info cur @ queue_infos q)"

lemma pipeline_of_push:
  assumes "LimitQueue_invar q"
  shows "subseq (pipeline_of cur (LimitQueue_Push m q))
    (pipeline_of cur q @ [addressed (modbusMessageInfo m)])"
proof -
  have "subseq (queue_infos (LimitQueue_Push m q)) (queue_infos q @ [modbusMessageInfo m])"
    using subseq_map [OF lq.push_subseq [OF assms, of m], of modbusMessageInfo]
    by (simp add: queue_infos_def)
  then have "subseq (cur_info cur @ queue_infos (LimitQueue_Push m q))
      (cur_info cur @ queue_infos q @ [modbusMessageInfo m])"
    by (rule list_emb_append_mono [OF subseq_order.order_refl])
  from subseq_map [OF this, of addressed] show ?thesis by (simp add: pipeline_of_def)
qed

lemma pipeline_of_take:
  assumes "suffix (m # ms) (lq_items q)"
  shows "subseq (addressed (modbusMessageInfo m) # pipeline_of None (q\<lparr>lq_items := ms\<rparr>)) (pipeline_of None q)"
proof -
  from assms(1) have "subseq (m # ms) (lq_items q)" by (rule suffix_imp_subseq)
  from subseq_map [OF this, of "addressed \<circ> modbusMessageInfo"] show ?thesis
    by (simp add: pipeline_of_def queue_infos_def)
qed

lemma pipeline_of_drop: "subseq (pipeline_of None q) (pipeline_of cur q)"
  by (simp add: pipeline_of_def list_emb_append2)

lemma pipeline_of_simps [simp]:
  "lq_items q = [] \<Longrightarrow> pipeline_of None q = []"
  "pipeline_of (Some c) q = addressed (modbusMessageInfo (cur_message c)) # pipeline_of None q"
  by (simp_all add: pipeline_of_def queue_infos_def)

lemma invar_suffix:
  "LimitQueue_invar q \<Longrightarrow> suffix ms (lq_items q) \<Longrightarrow> LimitQueue_invar (q\<lparr>lq_items := ms\<rparr>)"
  by (auto simp: LimitQueue_invar_def suffix_def)

subsection \<open>The interface\<close>

text \<open>
  A component that answers requests: the requests a state still has to answer (\<open>pipeline\<close>), the
  requests an event brings (\<open>arrivals\<close>) and the answers an output list gives (\<open>answers\<close>). A step
  may drop requests, but what it answers and what remains is in the order of what was there
  followed by what arrived.
\<close>

locale message_pipeline =
  fixes step :: "'s \<Rightarrow> 'e \<Rightarrow> ('s \<times> 'o list) outcome"
    and pipeline :: "'s \<Rightarrow> 'k list"
    and arrivals :: "'e \<Rightarrow> 'k list"
    and answers :: "'o list \<Rightarrow> 'k list"
    and wf :: "'s \<Rightarrow> bool"
  assumes step_pipeline: "wf s \<Longrightarrow> step s e = Done (s', os) \<Longrightarrow>
      wf s' \<and> subseq (answers os @ pipeline s') (pipeline s @ arrivals e)"
    and answers_append: "answers (xs @ ys) = answers xs @ answers ys"
    and answers_Nil: "answers [] = []"
begin

lemma run_pipeline:
  assumes "wf s" and "run step s es = Done (s', os)"
  shows "wf s' \<and> subseq (answers os @ pipeline s') (pipeline s @ concat (map arrivals es))"
  using assms
proof (induction es arbitrary: s os)
  case Nil
  then show ?case by (simp add: answers_Nil)
next
  case (Cons e es)
  then obtain s1 os1 os2 where one: "step s e = Done (s1, os1)"
    and rest: "run step s1 es = Done (s', os2)" and os: "os = os1 @ os2"
    by (auto simp: run_Cons_Done simp del: run.simps)
  from step_pipeline [OF Cons.prems(1) one] have wf: "wf s1"
    and first: "subseq (answers os1 @ pipeline s1) (pipeline s @ arrivals e)" by auto
  from Cons.IH [OF wf rest] have wf': "wf s'"
    and second: "subseq (answers os2 @ pipeline s') (pipeline s1 @ concat (map arrivals es))" by auto
  have "subseq (answers os1 @ answers os2 @ pipeline s')
      (answers os1 @ pipeline s1 @ concat (map arrivals es))"
    by (rule list_emb_append_mono [OF subseq_order.order_refl second])
  also have "subseq \<dots> (pipeline s @ arrivals e @ concat (map arrivals es))"
    using list_emb_append_mono [OF first subseq_order.order_refl] by simp
  finally show ?case using wf' os by (simp add: answers_append)
qed

lemma answers_in_order:
  assumes "wf s" and "pipeline s = []" and "run step s es = Done (s', os)"
  shows "subseq (answers os) (concat (map arrivals es))"
proof -
  have "subseq (answers os) (answers os @ pipeline s')" by (simp add: prefix_imp_subseq)
  with run_pipeline [OF assms(1,3)] assms(2) show ?thesis
    by (metis append_Nil subseq_order.order_trans)
qed

lemma answers_no_more:
  assumes "wf s" and "pipeline s = []" and "run step s es = Done (s', os)"
  shows "length (answers os) \<le> length (concat (map arrivals es))"
  using answers_in_order [OF assms] by (rule list_emb_length)

end

subsection \<open>Outstanding asynchronous operations\<close>

text \<open>
  How many operations of each kind an actor has started that did not complete yet. The program
  does not keep these numbers; they belong to the event loop, which calls the handler of an
  operation once, at any later time and with any error code. (A cancelled operation completes
  too, with \<open>Operation_aborted\<close> or with the result it already had.)
\<close>

record pending_ops =
  p_sends :: nat
  p_receives :: nat
  p_connects :: nat
  p_waits :: nat

definition no_ops :: pending_ops where
  "no_ops = \<lparr>p_sends = 0, p_receives = 0, p_connects = 0, p_waits = 0\<rparr>"

fun start_op :: "('b, 't) effect \<Rightarrow> pending_ops \<Rightarrow> pending_ops" where
  "start_op (Async_send b) p = p\<lparr>p_sends := Suc (p_sends p)\<rparr>"
| "start_op (Async_receive f) p = p\<lparr>p_receives := Suc (p_receives p)\<rparr>"
| "start_op Async_connect p = p\<lparr>p_connects := Suc (p_connects p)\<rparr>"
| "start_op (Async_wait t) p = p\<lparr>p_waits := Suc (p_waits p)\<rparr>"
| "start_op _ p = p"

definition start_ops :: "('b, 't) effect list \<Rightarrow> pending_ops \<Rightarrow> pending_ops" where
  "start_ops os p = fold start_op os p"

lemma start_ops_simps [simp]:
  "start_ops [] p = p" "start_ops (e # os) p = start_ops os (start_op e p)"
  by (simp_all add: start_ops_def)

lemma start_ops_append [simp]: "start_ops (xs @ ys) p = start_ops ys (start_ops xs p)"
  by (simp add: start_ops_def)

text \<open>The frame operations (sends and receives) in flight, which use the message in process.\<close>

definition transfers :: "pending_ops \<Rightarrow> nat" where
  "transfers p = p_sends p + p_receives p"

lemma transfers_simps [simp]:
  "transfers no_ops = 0" "transfers (p\<lparr>p_connects := n\<rparr>) = transfers p"
  "transfers (p\<lparr>p_waits := n\<rparr>) = transfers p"
  by (simp_all add: transfers_def no_ops_def)

subsection \<open>An actor with its outstanding operations\<close>

text \<open>
  The actor together with the operations it has outstanding. An event that completes an
  operation can happen only while one is outstanding (\<open>completed\<close> takes it off, or refuses the
  event with \<open>None\<close>); the operations the handler starts are added.
\<close>

inductive io_step :: "('s \<Rightarrow> 'e \<Rightarrow> ('s \<times> ('b, 't) effect list) outcome) \<Rightarrow>
    ('e \<Rightarrow> pending_ops \<Rightarrow> pending_ops option) \<Rightarrow>
    's \<times> pending_ops \<Rightarrow> 'e \<Rightarrow> ('b, 't) effect list \<Rightarrow> 's \<times> pending_ops \<Rightarrow> bool"
  for step completed where
  io_step: "completed e p = Some p' \<Longrightarrow> step s e = Done (s', os) \<Longrightarrow>
    io_step step completed (s, p) e os (s', start_ops os p')"

inductive_simps io_step_iff: "io_step step completed (s, p) e os (s', p')"

inductive io_reach :: "('s \<Rightarrow> 'e \<Rightarrow> ('s \<times> ('b, 't) effect list) outcome) \<Rightarrow>
    ('e \<Rightarrow> pending_ops \<Rightarrow> pending_ops option) \<Rightarrow> ('s \<Rightarrow> bool) \<Rightarrow> 's \<times> pending_ops \<Rightarrow> bool"
  for step completed init where
  reach_new: "init s \<Longrightarrow> io_reach step completed init (s, no_ops)"
| reach_step: "io_reach step completed init x \<Longrightarrow> io_step step completed x e os y \<Longrightarrow>
    io_reach step completed init y"

inductive io_run :: "('s \<Rightarrow> 'e \<Rightarrow> ('s \<times> ('b, 't) effect list) outcome) \<Rightarrow>
    ('e \<Rightarrow> pending_ops \<Rightarrow> pending_ops option) \<Rightarrow>
    's \<times> pending_ops \<Rightarrow> ('b, 't) effect list \<Rightarrow> 's \<times> pending_ops \<Rightarrow> bool"
  for step completed where
  io_stop: "io_run step completed x [] x"
| io_go: "io_step step completed x e os y \<Longrightarrow> io_run step completed y outs z \<Longrightarrow>
    io_run step completed x (os @ outs) z"

lemma io_reach_invariant:
  assumes "io_reach step completed init x"
    and "\<And>s. init s \<Longrightarrow> I (s, no_ops)"
    and "\<And>s p e os s' p'. I (s, p) \<Longrightarrow> io_step step completed (s, p) e os (s', p') \<Longrightarrow> I (s', p')"
  shows "I x"
  using assms(1)
proof (induction rule: io_reach.induct)
  case (reach_new s)
  then show ?case by (rule assms(2))
next
  case (reach_step x e os y)
  then show ?case using assms(3) by (metis surj_pair)
qed

lemma io_run_absorbing:
  assumes "io_run step completed x outs y" and "I x"
    and "\<And>s p e os s' p'. I (s, p) \<Longrightarrow> io_step step completed (s, p) e os (s', p') \<Longrightarrow>
      I (s', p') \<and> list_all Q os"
  shows "I y \<and> list_all Q outs"
  using assms(1,2)
proof (induction rule: io_run.induct)
  case (io_stop x)
  then show ?case by simp
next
  case (io_go x e os y outs z)
  then have "I y \<and> list_all Q os" using assms(3) by (metis surj_pair)
  with io_go.IH show ?case by simp
qed

text \<open>
  At most one frame operation is in flight, and it belongs to the message in process; and the
  state of an actor whose message in process has no operation in flight that could finish it.
\<close>

definition one_transfer :: "('s \<Rightarrow> 'c option) \<Rightarrow> 's \<times> pending_ops \<Rightarrow> bool" where
  "one_transfer current x \<longleftrightarrow> transfers (snd x) \<le> 1 \<and>
     (transfers (snd x) = 1 \<longrightarrow> current (fst x) \<noteq> None)"

definition wedged :: "('s \<Rightarrow> 'c option) \<Rightarrow> 's \<times> pending_ops \<Rightarrow> bool" where
  "wedged current x \<longleftrightarrow> transfers (snd x) = 0 \<and> current (fst x) \<noteq> None"

text \<open>An effect by which an actor writes a frame or replies to another actor.\<close>

definition talks :: "('b, 't) effect \<Rightarrow> bool" where
  "talks e = (case e of Async_send b \<Rightarrow> True | Exchange_send a m \<Rightarrow> True | _ \<Rightarrow> False)"

end
