(* ===== verification/Rtu_Master.thy ===== *)
theory Rtu_Master
  imports Sample_Frames Master_Pipeline
begin

text \<open>
  The actor of a serial line on which the gateway is the Modbus master
  (\<^verbatim>\<open>src/src/transport/modbus_rtu_master.cpp\<close>). Requests wait in a queue; one
  at a time is written to the line, and the actor then waits for the answer or the timeout.
  Every handler runs under the actor's mutex, so handlers are atomic steps. A null buffer in a
  request is dereferenced by the code: undefined behaviour.
\<close>

record ('b, 't) rtu_master =
  rm_id :: actor_id
  rm_timeout :: chrono_rep
  rm_frameType :: frame_type
  rm_messageQueue :: "('b, 't) modbus_message limit_queue"
  rm_currentMessage :: "('b, 't) current_message option"
  rm_transactionIdGenerator :: 't

text \<open>The constructor asserts that the frame type is a serial one.\<close>

definition ModbusRtuMaster :: "actor_id \<Rightarrow> chrono_rep \<Rightarrow> frame_type \<Rightarrow>
    ('b, 't::len word) rtu_master outcome" where
  "ModbusRtuMaster defaultId timeout frameType =
     (if frameType = TCP then Undefined
      else Done \<lparr>rm_id = defaultId, rm_timeout = timeout, rm_frameType = frameType,
        rm_messageQueue = LimitQueue_default, rm_currentMessage = None,
        rm_transactionIdGenerator = 0\<rparr>)"

definition RtuMaster_Dtor :: "('b, 't) effect list" where
  "RtuMaster_Dtor = [Io_cancel, Io_close]"

definition RtuMaster_SetId :: "actor_id \<Rightarrow> ('b, 't) rtu_master \<Rightarrow> ('b, 't) rtu_master" where
  "RtuMaster_SetId i s = s\<lparr>rm_id := i\<rparr>"

definition RtuMaster_ResetId :: "actor_id \<Rightarrow> ('b, 't) rtu_master \<Rightarrow> ('b, 't) rtu_master" where
  "RtuMaster_ResetId defaultId s = s\<lparr>rm_id := defaultId\<rparr>"

definition RtuMaster_GetId :: "('b, 't) rtu_master \<Rightarrow> actor_id" where
  "RtuMaster_GetId s = rm_id s"

text \<open>
  The message in process shares its buffer with the request: converting the buffer to the
  line's frame type changes it in place.
\<close>

definition RtuMaster_StartMessageTaskUnsafe :: "('b, 'u, 't::len word) modbus_lib \<Rightarrow>
    ('b, 't word) rtu_master \<Rightarrow> (('b, 't word) rtu_master \<times> ('b, 't word) effect list) outcome" where
  "RtuMaster_StartMessageTaskUnsafe L s =
     (let transactionId = rm_transactionIdGenerator s + 1 in
      and_then (defined (LimitQueue_Front (rm_messageQueue s))) (\<lambda>message.
      and_then (defined (LimitQueue_Pop (rm_messageQueue s))) (\<lambda>queue.
      and_then (defined (GetModbusBuffer message)) (\<lambda>buffer.
      let buffer' = mb_update L (mb_convert_to L (rm_frameType s) buffer);
          current = \<lparr>cur_message = message\<lparr>modbusBuffer := Some buffer'\<rparr>, cur_id = transactionId\<rparr>
      in Done (s\<lparr>rm_transactionIdGenerator := transactionId, rm_messageQueue := queue,
                 rm_currentMessage := Some current\<rparr>, [Async_send buffer'])))))"

definition RtuMaster_QueueProcessUnsafe :: "('b, 'u, 't::len word) modbus_lib \<Rightarrow> chrono_rep \<Rightarrow>
    ('b, 't word) rtu_master \<Rightarrow> (('b, 't word) rtu_master \<times> ('b, 't word) effect list) outcome" where
  "RtuMaster_QueueProcessUnsafe L now s =
     (if LimitQueue_Empty (rm_messageQueue s) then Done (s, [])
      else if rm_currentMessage s \<noteq> None then Done (s, [])
      else and_then (defined (drop_expired now (rm_timeout s) (rm_messageQueue s))) (\<lambda>queue.
        let s' = s\<lparr>rm_messageQueue := queue\<rparr> in
        if LimitQueue_Empty queue then Done (s', [])
        else RtuMaster_StartMessageTaskUnsafe L s'))"

definition RtuMaster_MessageProcess :: "('b, 'u, 't::len word) modbus_lib \<Rightarrow> chrono_rep \<Rightarrow>
    ('b, 't word) modbus_message \<Rightarrow> ('b, 't word) rtu_master \<Rightarrow>
    (('b, 't word) rtu_master \<times> ('b, 't word) effect list) outcome" where
  "RtuMaster_MessageProcess L now message s =
     RtuMaster_QueueProcessUnsafe L now
       (s\<lparr>rm_messageQueue := LimitQueue_Push message (rm_messageQueue s)\<rparr>)"

definition RtuMaster_Receive :: "('b, 'u, 't::len word) modbus_lib \<Rightarrow> chrono_rep \<Rightarrow>
    ('b, 't word) message \<Rightarrow> ('b, 't word) rtu_master \<Rightarrow>
    (('b, 't word) rtu_master \<times> ('b, 't word) effect list) outcome" where
  "RtuMaster_Receive L now message s =
     (case message of ModbusMsg m \<Rightarrow> RtuMaster_MessageProcess L now m s | _ \<Rightarrow> Done (s, []))"

definition RtuMaster_StartWaitTask :: "('b, 't) rtu_master \<Rightarrow> ('b, 't) effect list" where
  "RtuMaster_StartWaitTask s = [Async_wait (rm_timeout s)]"

definition RtuMaster_StartReadTask :: "('b, 't) rtu_master \<Rightarrow> ('b, 't) effect list" where
  "RtuMaster_StartReadTask s = [Async_receive (rm_frameType s)]"

definition RtuMaster_on_write :: "error_code \<Rightarrow> ('b, 't) rtu_master \<Rightarrow>
    ('b, 't) rtu_master \<times> ('b, 't) effect list" where
  "RtuMaster_on_write ec s =
     (case ec of
        Some e \<Rightarrow> (s\<lparr>rm_currentMessage := None\<rparr>, [])
      | None \<Rightarrow> (s, RtuMaster_StartWaitTask s @ RtuMaster_StartReadTask s))"

text \<open>The timeout cancels whatever operation of the port is outstanding.\<close>

definition RtuMaster_on_wait :: "error_code \<Rightarrow> ('b, 't) rtu_master \<Rightarrow>
    ('b, 't) rtu_master \<times> ('b, 't) effect list" where
  "RtuMaster_on_wait ec s = (case ec of Some e \<Rightarrow> (s, []) | None \<Rightarrow> (s, [Io_cancel]))"

definition RtuMaster_MakeResponse :: "('b, 'u, 't) modbus_lib \<Rightarrow> 'b \<Rightarrow> nat \<Rightarrow> ('b, 't) rtu_master \<Rightarrow>
    ('b, 't) modbus_message option \<times> ('b, 't) rtu_master" where
  "RtuMaster_MakeResponse L buffer sz s =
     (case rm_currentMessage s of
        None \<Rightarrow> (None, s)
      | Some current \<Rightarrow>
          (case mb_set_adu_size L sz buffer of
             None \<Rightarrow> (None, s)
           | Some b \<Rightarrow>
               let s' = s\<lparr>rm_currentMessage := None\<rparr>;
                   currentInfo = GetModbusMessageInfo (cur_message current)
               in if \<not> mb_check L b then (None, s')
                  else (Some (ModbusMessage currentInfo (Some b)), s')))"

definition RtuMaster_on_read :: "('b, 'u, 't::len word) modbus_lib \<Rightarrow> bool \<Rightarrow> chrono_rep \<Rightarrow>
    error_code \<Rightarrow> 'b \<Rightarrow> nat \<Rightarrow> ('b, 't word) rtu_master \<Rightarrow>
    (('b, 't word) rtu_master \<times> ('b, 't word) effect list) outcome" where
  "RtuMaster_on_read L exch now ec buffer sz s =
     (if \<not> exch then Done (s, [])
      else case ec of
        Some e \<Rightarrow> Done (s\<lparr>rm_currentMessage := None\<rparr>, [Timer_cancel])
      | None \<Rightarrow>
          (case RtuMaster_MakeResponse L buffer sz s of
             (response, s') \<Rightarrow>
               let sent = (case response of None \<Rightarrow> []
                 | Some m \<Rightarrow> [Exchange_send (GetSourceId (GetModbusMessageInfo m)) (ModbusMsg m)])
               in and_then (RtuMaster_QueueProcessUnsafe L now s') (\<lambda>(s'', os).
                    Done (s'', Timer_cancel # sent @ os))))"

subsection \<open>The actor as a state machine\<close>

datatype ('b, 't) rtu_master_event =
    Master_message chrono_rep "('b, 't) message"
  | Master_written error_code
  | Master_waited error_code
  | Master_read bool chrono_rep error_code 'b nat
  | Master_set_id actor_id
  | Master_reset_id

fun RtuMaster_step :: "('b, 'u, 't::len word) modbus_lib \<Rightarrow> actor_id \<Rightarrow> ('b, 't word) rtu_master \<Rightarrow>
    ('b, 't word) rtu_master_event \<Rightarrow>
    (('b, 't word) rtu_master \<times> ('b, 't word) effect list) outcome" where
  "RtuMaster_step L defaultId s (Master_message now m) = RtuMaster_Receive L now m s"
| "RtuMaster_step L defaultId s (Master_written ec) = Done (RtuMaster_on_write ec s)"
| "RtuMaster_step L defaultId s (Master_waited ec) = Done (RtuMaster_on_wait ec s)"
| "RtuMaster_step L defaultId s (Master_read exch now ec buffer sz) =
     RtuMaster_on_read L exch now ec buffer sz s"
| "RtuMaster_step L defaultId s (Master_set_id i) = Done (RtuMaster_SetId i s, [])"
| "RtuMaster_step L defaultId s Master_reset_id = Done (RtuMaster_ResetId defaultId s, [])"

lemmas RtuMaster_small_defs [handler_defs] = RtuMaster_SetId_def RtuMaster_ResetId_def
  RtuMaster_MessageProcess_def RtuMaster_Receive_def RtuMaster_StartWaitTask_def
  RtuMaster_StartReadTask_def RtuMaster_on_write_def RtuMaster_on_wait_def

subsection \<open>Characteristic equations\<close>

text \<open>The frame a request becomes on the line, and the state after taking it from the queue.\<close>

definition rm_frame :: "('b, 'u, 't) modbus_lib \<Rightarrow> ('b, 't) rtu_master \<Rightarrow> 'b \<Rightarrow> 'b" where
  "rm_frame L s b = mb_update L (mb_convert_to L (rm_frameType s) b)"

definition rm_take :: "('b, 'u, 't::len word) modbus_lib \<Rightarrow> ('b, 't word) modbus_message \<Rightarrow> 'b \<Rightarrow>
    ('b, 't word) modbus_message list \<Rightarrow> ('b, 't word) rtu_master \<Rightarrow> ('b, 't word) rtu_master" where
  "rm_take L m b ms s = s\<lparr>rm_transactionIdGenerator := rm_transactionIdGenerator s + 1,
     rm_messageQueue := (rm_messageQueue s)\<lparr>lq_items := ms\<rparr>,
     rm_currentMessage := Some \<lparr>cur_message = m\<lparr>modbusBuffer := Some (rm_frame L s b)\<rparr>,
       cur_id = rm_transactionIdGenerator s + 1\<rparr>\<rparr>"

lemma RtuMaster_QueueProcess_eq:
  "RtuMaster_QueueProcessUnsafe L now s =
    (if rm_currentMessage s \<noteq> None then Done (s, [])
     else case dropWhile (message_expired now (rm_timeout s)) (lq_items (rm_messageQueue s)) of
       [] \<Rightarrow> Done (s\<lparr>rm_messageQueue := (rm_messageQueue s)\<lparr>lq_items := []\<rparr>\<rparr>, [])
     | m # ms \<Rightarrow> (case modbusBuffer m of None \<Rightarrow> Undefined
         | Some b \<Rightarrow> Done (rm_take L m b ms s, [Async_send (rm_frame L s b)])))"
  by (cases "lq_items (rm_messageQueue s)")
    (auto simp: RtuMaster_QueueProcessUnsafe_def RtuMaster_StartMessageTaskUnsafe_def
      LimitQueue_defs drop_expired_Some rm_take_def rm_frame_def step_simps Let_def defined_def
      split: list.splits option.splits)

lemma RtuMaster_QueueProcess_cases:
  assumes "RtuMaster_QueueProcessUnsafe L now s = Done (s', os)"
  obtains (busy) "rm_currentMessage s \<noteq> None" "s' = s" "os = []"
  | (idle) "rm_currentMessage s = None" "os = []"
      "s' = s\<lparr>rm_messageQueue := (rm_messageQueue s)\<lparr>lq_items := []\<rparr>\<rparr>"
      "list_all (message_expired now (rm_timeout s)) (lq_items (rm_messageQueue s))"
  | (start) m b ms where "rm_currentMessage s = None" "modbusBuffer m = Some b"
      "suffix (m # ms) (lq_items (rm_messageQueue s))" "\<not> message_expired now (rm_timeout s) m"
      "s' = rm_take L m b ms s" "os = [Async_send (rm_frame L s b)]"
proof (cases "rm_currentMessage s")
  case None
  let ?P = "message_expired now (rm_timeout s)" and ?q = "lq_items (rm_messageQueue s)"
  show ?thesis
  proof (cases "dropWhile ?P ?q")
    case Nil
    then have "list_all ?P ?q" by (simp add: dropWhile_eq_Nil_conv list_all_iff)
    moreover have "os = []" and "s' = s\<lparr>rm_messageQueue := (rm_messageQueue s)\<lparr>lq_items := []\<rparr>\<rparr>"
      using assms None unfolding RtuMaster_QueueProcess_eq Nil by simp_all
    ultimately show ?thesis using None by (intro idle)
  next
    case (Cons m ms)
    then have "suffix (m # ms) ?q" by (metis suffix_dropWhile)
    moreover have "\<not> ?P m" using hd_dropWhile [of ?P ?q] Cons by auto
    ultimately show ?thesis using Cons None assms
      by (cases "modbusBuffer m") (auto simp: RtuMaster_QueueProcess_eq intro: start)
  qed
next
  case (Some c)
  with assms show ?thesis by (intro busy) (simp_all add: RtuMaster_QueueProcess_eq)
qed

lemma RtuMaster_MakeResponse_cases:
  assumes "RtuMaster_MakeResponse L buffer sz s = (r, s')"
  obtains (refused) "r = None" "s' = s"
      "rm_currentMessage s = None \<or> mb_set_adu_size L sz buffer = None"
  | (bad) b where "r = None" "s' = s\<lparr>rm_currentMessage := None\<rparr>" "rm_currentMessage s \<noteq> None"
      "mb_set_adu_size L sz buffer = Some b" "\<not> mb_check L b"
  | (good) c b where "rm_currentMessage s = Some c" "s' = s\<lparr>rm_currentMessage := None\<rparr>"
      "mb_set_adu_size L sz buffer = Some b" "mb_check L b"
      "r = Some \<lparr>modbusMessageInfo = modbusMessageInfo (cur_message c), modbusBuffer = Some b\<rparr>"
  using assms
  by (auto simp: RtuMaster_MakeResponse_def step_simps Let_def split: option.splits if_splits)

subsection \<open>The contract of a master\<close>

definition rm_pipeline :: "('b, 't) rtu_master \<Rightarrow> (actor_id \<times> 't message_info) list" where
  "rm_pipeline s = pipeline_of (rm_currentMessage s) (rm_messageQueue s)"

fun rm_arrivals :: "('b, 't) rtu_master_event \<Rightarrow> (actor_id \<times> 't message_info) list" where
  "rm_arrivals (Master_message now (ModbusMsg m)) = [addressed (modbusMessageInfo m)]"
| "rm_arrivals _ = []"

lemma rm_arrivals_addressed: "(a, i) \<in> set (rm_arrivals e) \<Longrightarrow> a = sourceId i"
  by (cases e rule: rm_arrivals.cases) (auto simp: addressed_def)

definition rm_wf :: "('b, 't) rtu_master \<Rightarrow> bool" where
  "rm_wf s \<longleftrightarrow> LimitQueue_invar (rm_messageQueue s)"

lemma rm_take_pipeline:
  assumes "rm_currentMessage s = None" and "suffix (m # ms) (lq_items (rm_messageQueue s))"
  shows "subseq (rm_pipeline (rm_take L m b ms s)) (rm_pipeline s)"
  using pipeline_of_take [OF assms(2)] assms(1) by (simp add: rm_pipeline_def rm_take_def)

lemma rm_take_wf:
  "rm_wf s \<Longrightarrow> suffix (m # ms) (lq_items (rm_messageQueue s)) \<Longrightarrow> rm_wf (rm_take L m b ms s)"
  using invar_suffix [OF _ suffix_ConsD] by (fastforce simp: rm_wf_def rm_take_def)

lemma RtuMaster_QueueProcess_pipeline:
  assumes "RtuMaster_QueueProcessUnsafe L now s = Done (s', os)" and "rm_wf s"
  shows "rm_wf s' \<and> replies os = [] \<and> subseq (rm_pipeline s') (rm_pipeline s)"
  using assms(1)
proof (cases rule: RtuMaster_QueueProcess_cases)
  case idle
  then show ?thesis using assms(2)
    by (simp add: rm_wf_def LimitQueue_invar_def rm_pipeline_def)
next
  case start
  then show ?thesis using assms(2) by (simp add: rm_take_pipeline rm_take_wf)
qed (use assms(2) in simp)

lemma rm_push_pipeline:
  assumes "rm_wf s" and "s' = s\<lparr>rm_messageQueue := LimitQueue_Push m (rm_messageQueue s)\<rparr>"
  shows "rm_wf s' \<and> subseq (rm_pipeline s') (rm_pipeline s @ [addressed (modbusMessageInfo m)])"
  using assms
  by (simp add: rm_wf_def rm_pipeline_def pipeline_of_push lq.invar_push del: pipeline_of_simps)

lemma rm_drop_current_pipeline:
  "subseq (rm_pipeline (s\<lparr>rm_currentMessage := None\<rparr>)) (rm_pipeline s)"
  by (simp add: rm_pipeline_def pipeline_of_drop)

lemma RtuMaster_on_read_pipeline:
  assumes "RtuMaster_on_read L exch now ec buffer sz s = Done (s', os)" and "rm_wf s"
  shows "rm_wf s' \<and> subseq (replies os @ rm_pipeline s') (rm_pipeline s)"
proof (cases "exch \<and> ec = success")
  case False
  then show ?thesis using assms rm_drop_current_pipeline [of s]
    by (auto simp: RtuMaster_on_read_def rm_wf_def split: if_splits option.splits)
next
  case True
  obtain r s1 where mk: "RtuMaster_MakeResponse L buffer sz s = (r, s1)" by fastforce
  define sent where "sent = (case r of None \<Rightarrow> []
    | Some m \<Rightarrow> [Exchange_send (GetSourceId (GetModbusMessageInfo m)) (ModbusMsg m)])"
  from True assms(1) mk obtain os1 where
    q: "RtuMaster_QueueProcessUnsafe L now s1 = Done (s', os1)" and os: "os = Timer_cancel # sent @ os1"
    by (auto simp: RtuMaster_on_read_def and_then_Done_iff sent_def)
  from mk have "rm_wf s1 \<and> subseq (replies sent @ rm_pipeline s1) (rm_pipeline s)"
  proof (cases rule: RtuMaster_MakeResponse_cases)
    case refused
    then show ?thesis using assms(2) by (simp add: sent_def)
  next
    case bad
    then show ?thesis using assms(2) rm_drop_current_pipeline [of s]
      by (simp add: sent_def rm_wf_def)
  next
    case good
    then show ?thesis using assms(2)
      by (simp add: sent_def rm_wf_def rm_pipeline_def step_simps addressed_def)
  qed
  moreover from RtuMaster_QueueProcess_pipeline [OF q] calculation
  have "rm_wf s' \<and> replies os1 = [] \<and> subseq (rm_pipeline s') (rm_pipeline s1)" by blast
  ultimately show ?thesis using os
    by (auto intro: subseq_order.order_trans [OF list_emb_append_mono [OF subseq_order.order_refl]])
qed

interpretation rm: message_pipeline "RtuMaster_step L defaultId" rm_pipeline rm_arrivals replies rm_wf
  for L :: "('b, 'u, 't::len word) modbus_lib" and defaultId
proof
  fix s e s' os
  assume wf: "rm_wf s" and step: "RtuMaster_step L defaultId s e = Done (s', os)"
  show "rm_wf s' \<and> subseq (replies os @ rm_pipeline s') (rm_pipeline s @ rm_arrivals e)"
  proof (cases e)
    case (Master_message now m)
    then show ?thesis
    proof (cases m)
      case (ModbusMsg mm)
      with Master_message step have
        "RtuMaster_QueueProcessUnsafe L now
          (s\<lparr>rm_messageQueue := LimitQueue_Push mm (rm_messageQueue s)\<rparr>) = Done (s', os)"
        by (simp add: RtuMaster_small_defs)
      from RtuMaster_QueueProcess_pipeline [OF this] rm_push_pipeline [OF wf refl, of mm]
      show ?thesis using Master_message ModbusMsg
        by (auto intro: subseq_order.order_trans)
    qed (use Master_message step wf in \<open>simp_all add: RtuMaster_small_defs\<close>)
  next
    case (Master_read exch now ec buffer sz)
    with step RtuMaster_on_read_pipeline wf show ?thesis by fastforce
  next
    case (Master_written ec)
    then show ?thesis using step wf rm_drop_current_pipeline [of s]
      by (auto simp: RtuMaster_small_defs rm_wf_def split: option.splits)
  qed (use step wf in \<open>auto simp: RtuMaster_small_defs rm_wf_def rm_pipeline_def split: option.splits\<close>)
qed simp_all

lemma ModbusRtuMaster_new:
  "ModbusRtuMaster defaultId timeout f = Done s \<Longrightarrow>
    rm_wf s \<and> rm_pipeline s = [] \<and> rm_currentMessage s = None \<and> rm_frameType s = f \<and>
    lq_items (rm_messageQueue s) = []"
  by (auto simp: ModbusRtuMaster_def rm_wf_def rm_pipeline_def split: if_splits)

subsection \<open>The actor with its outstanding operations\<close>

text \<open>The operation an event completes is taken from the outstanding ones; it must be there.\<close>

fun rm_completed :: "('b, 't) rtu_master_event \<Rightarrow> pending_ops \<Rightarrow> pending_ops option" where
  "rm_completed (Master_written ec) p =
     (if p_sends p = 0 then None else Some (p\<lparr>p_sends := p_sends p - 1\<rparr>))"
| "rm_completed (Master_waited ec) p =
     (if p_waits p = 0 then None else Some (p\<lparr>p_waits := p_waits p - 1\<rparr>))"
| "rm_completed (Master_read exch now ec buffer sz) p =
     (if p_receives p = 0 then None else Some (p\<lparr>p_receives := p_receives p - 1\<rparr>))"
| "rm_completed _ p = Some p"

abbreviation rm_io_step :: "('b, 'u, 't::len word) modbus_lib \<Rightarrow> actor_id \<Rightarrow>
    ('b, 't word) rtu_master \<times> pending_ops \<Rightarrow> ('b, 't word) rtu_master_event \<Rightarrow>
    ('b, 't word) effect list \<Rightarrow> ('b, 't word) rtu_master \<times> pending_ops \<Rightarrow> bool" where
  "rm_io_step L defaultId \<equiv> io_step (RtuMaster_step L defaultId) rm_completed"

abbreviation rm_io_run :: "('b, 'u, 't::len word) modbus_lib \<Rightarrow> actor_id \<Rightarrow>
    ('b, 't word) rtu_master \<times> pending_ops \<Rightarrow> ('b, 't word) effect list \<Rightarrow>
    ('b, 't word) rtu_master \<times> pending_ops \<Rightarrow> bool" where
  "rm_io_run L defaultId \<equiv> io_run (RtuMaster_step L defaultId) rm_completed"

text \<open>The states the constructor gives, and what is reachable from them.\<close>

definition rm_new :: "actor_id \<Rightarrow> ('b, 't::len word) rtu_master \<Rightarrow> bool" where
  "rm_new defaultId s \<longleftrightarrow> ModbusRtuMaster defaultId (rm_timeout s) (rm_frameType s) = Done s"

abbreviation rm_reach :: "('b, 'u, 't::len word) modbus_lib \<Rightarrow> actor_id \<Rightarrow>
    ('b, 't word) rtu_master \<times> pending_ops \<Rightarrow> bool" where
  "rm_reach L defaultId \<equiv> io_reach (RtuMaster_step L defaultId) rm_completed (rm_new defaultId)"

abbreviation rm_one_transfer :: "('b, 't) rtu_master \<times> pending_ops \<Rightarrow> bool" where
  "rm_one_transfer \<equiv> one_transfer rm_currentMessage"

lemma RtuMaster_QueueProcess_transfer:
  assumes "RtuMaster_QueueProcessUnsafe L now s = Done (s', os)" and "rm_one_transfer (s, p)"
  shows "rm_one_transfer (s', start_ops os p)"
  using assms(1)
proof (cases rule: RtuMaster_QueueProcess_cases)
  case start
  with assms(2) show ?thesis
    by (auto simp: one_transfer_def transfers_def rm_take_def)
qed (use assms(2) in \<open>auto simp: one_transfer_def\<close>)

lemma RtuMaster_MakeResponse_transfer:
  assumes "RtuMaster_MakeResponse L buffer sz s = (r, s')" and "transfers p = 0"
  shows "rm_one_transfer (s', p)"
  using assms by (simp add: one_transfer_def)

lemma RtuMaster_step_transfer:
  assumes "rm_one_transfer (s, p)" and "rm_io_step L defaultId (s, p) e os (s', p')"
  shows "rm_one_transfer (s', p')"
proof -
  from assms(2) obtain q where 1: "rm_completed e p = Some q"
    "RtuMaster_step L defaultId s e = Done (s', os)" "p' = start_ops os q"
    by (auto simp: io_step_iff)
  show ?thesis
  proof (cases e)
    case (Master_message now m)
    with 1 assms(1) show ?thesis
      by (cases m)
        (auto simp: RtuMaster_small_defs one_transfer_def
          dest: RtuMaster_QueueProcess_transfer [where p = p])
  next
    case (Master_written ec)
    with 1 assms(1) show ?thesis
      by (auto simp: RtuMaster_small_defs one_transfer_def transfers_def
          split: if_splits option.splits)
  next
    case (Master_read exch now ec buffer sz)
    with 1 assms(1) have zero: "transfers q = 0"
      by (auto simp: one_transfer_def transfers_def split: if_splits)
    show ?thesis
    proof (cases "exch \<and> ec = success")
      case True
      obtain r s1 where mk: "RtuMaster_MakeResponse L buffer sz s = (r, s1)" by fastforce
      with 1 Master_read True obtain os1 where
        "RtuMaster_QueueProcessUnsafe L now s1 = Done (s', os1)" "p' = start_ops os1 q"
        by (cases r) (auto simp: RtuMaster_on_read_def and_then_Done_iff)
      with RtuMaster_QueueProcess_transfer RtuMaster_MakeResponse_transfer [OF mk zero]
      show ?thesis by metis
    next
      case False
      with 1 Master_read zero show ?thesis
        by (auto simp: RtuMaster_on_read_def one_transfer_def split: if_splits option.splits)
    qed
  qed (use 1 assms(1) in \<open>auto simp: RtuMaster_small_defs one_transfer_def
      split: if_splits option.splits\<close>)
qed

lemma rm_reach_transfer: "rm_reach L defaultId x \<Longrightarrow> rm_one_transfer x"
  by (erule io_reach_invariant, simp add: one_transfer_def) (rule RtuMaster_step_transfer)

subsection \<open>A message in process with nothing in flight\<close>

abbreviation rm_wedged :: "('b, 't) rtu_master \<times> pending_ops \<Rightarrow> bool" where
  "rm_wedged \<equiv> wedged rm_currentMessage"

lemma rm_wedged_step:
  assumes "rm_wedged (s, p)" and "rm_io_step L defaultId (s, p) e os (s', p')"
  shows "rm_wedged (s', p') \<and> list_all (\<lambda>e. \<not> talks e) os"
proof -
  from assms(2) obtain q where "rm_completed e p = Some q"
    "RtuMaster_step L defaultId s e = Done (s', os)" "p' = start_ops os q"
    by (auto simp: io_step_iff)
  with assms(1) show ?thesis
    by (cases e)
      (auto simp: RtuMaster_small_defs RtuMaster_QueueProcess_eq wedged_def transfers_def
        talks_def split: message.splits option.splits if_splits)
qed

lemma rm_wedged_run:
  "rm_io_run L defaultId x outs y \<Longrightarrow> rm_wedged x \<Longrightarrow>
    rm_wedged y \<and> list_all (\<lambda>e. \<not> talks e) outs"
  by (erule io_run_absorbing) (auto dest: rm_wedged_step)

subsection \<open>Null buffers and frame types\<close>

definition rm_buffers_ok :: "('b, 't) rtu_master \<Rightarrow> bool" where
  "rm_buffers_ok s \<longleftrightarrow> rm_wf s \<and> list_all (\<lambda>m. modbusBuffer m \<noteq> None) (lq_items (rm_messageQueue s))"

fun rm_event_ok :: "('b, 't) rtu_master_event \<Rightarrow> bool" where
  "rm_event_ok (Master_message now (ModbusMsg m)) = (modbusBuffer m \<noteq> None)"
| "rm_event_ok _ = True"

lemma RtuMaster_QueueProcess_defined:
  assumes "rm_buffers_ok s"
  shows "\<exists>s' os. RtuMaster_QueueProcessUnsafe L now s = Done (s', os) \<and> rm_buffers_ok s'"
proof (cases "dropWhile (message_expired now (rm_timeout s)) (lq_items (rm_messageQueue s))")
  case Nil
  then show ?thesis using assms
    unfolding RtuMaster_QueueProcess_eq Nil
    by (auto simp: rm_buffers_ok_def rm_wf_def LimitQueue_invar_def)
next
  case (Cons m ms)
  then have suf: "suffix (m # ms) (lq_items (rm_messageQueue s))" by (metis suffix_dropWhile)
  with assms obtain b where b: "modbusBuffer m = Some b"
    and ms: "list_all (\<lambda>m. modbusBuffer m \<noteq> None) ms"
    by (auto simp: rm_buffers_ok_def suffix_def)
  show ?thesis
  proof (cases "rm_currentMessage s")
    case None
    have "rm_buffers_ok (rm_take L m b ms s)"
      using rm_take_wf [OF _ suf, of L b] assms ms by (simp add: rm_buffers_ok_def rm_take_def)
    then show ?thesis using Cons b None by (simp add: RtuMaster_QueueProcess_eq)
  qed (use assms in \<open>simp add: RtuMaster_QueueProcess_eq\<close>)
qed

lemma RtuMaster_step_defined:
  assumes "rm_buffers_ok s" and "rm_event_ok e"
  shows "\<exists>s' os. RtuMaster_step L defaultId s e = Done (s', os) \<and> rm_buffers_ok s'"
proof (cases e)
  case (Master_message now m)
  show ?thesis
  proof (cases m)
    case (ModbusMsg mm)
    let ?s = "s\<lparr>rm_messageQueue := LimitQueue_Push mm (rm_messageQueue s)\<rparr>"
    have "rm_buffers_ok ?s"
      using assms ModbusMsg Master_message rm_push_pipeline [OF _ refl, of s mm]
        lq.push_elements [of "rm_messageQueue s" mm]
      by (auto simp: rm_buffers_ok_def rm_wf_def list_all_iff)
    from RtuMaster_QueueProcess_defined [OF this] show ?thesis
      using Master_message ModbusMsg by (simp add: RtuMaster_small_defs)
  qed (use Master_message assms in \<open>auto simp: RtuMaster_small_defs\<close>)
next
  case (Master_read exch now ec buffer sz)
  obtain r s1 where mk: "RtuMaster_MakeResponse L buffer sz s = (r, s1)" by fastforce
  then have "rm_buffers_ok s1" using assms(1)
    by (cases rule: RtuMaster_MakeResponse_cases) (auto simp: rm_buffers_ok_def rm_wf_def)
  from RtuMaster_QueueProcess_defined [OF this, of L now] mk assms(1) Master_read show ?thesis
    by (fastforce simp: RtuMaster_on_read_def rm_buffers_ok_def rm_wf_def split: option.splits)
qed (use assms in \<open>auto simp: RtuMaster_small_defs rm_buffers_ok_def rm_wf_def split: option.splits\<close>)

lemma RtuMaster_run_defined:
  "rm_buffers_ok s \<Longrightarrow> list_all rm_event_ok es \<Longrightarrow>
    \<exists>s' os. run (RtuMaster_step L defaultId) s es = Done (s', os)"
proof (induction es arbitrary: s)
  case (Cons e es)
  then obtain s1 os1 where "RtuMaster_step L defaultId s e = Done (s1, os1)" "rm_buffers_ok s1"
    using RtuMaster_step_defined [of s e L defaultId] by auto
  with Cons show ?case by fastforce
qed simp

lemma RtuMaster_step_frames:
  assumes "convert_types L" and "rm_frameType s = f"
    and "RtuMaster_step L defaultId s e = Done (s', os)"
  shows "rm_frameType s' = f \<and>
    list_all (\<lambda>e. case e of Async_send b \<Rightarrow> mb_type L b = f | Async_receive g \<Rightarrow> g = f | _ \<Rightarrow> True) os"
  using assms
  by (cases e)
    (auto simp: RtuMaster_small_defs RtuMaster_QueueProcess_eq RtuMaster_on_read_def
      RtuMaster_MakeResponse_def and_then_Done_iff Let_def convert_types_def rm_frame_def rm_take_def
      split: message.splits option.splits if_splits list.splits)

subsection \<open>A concrete master, for the witnesses\<close>

definition sample_master :: "(frame, 16 word) rtu_master" where
  "sample_master = \<lparr>rm_id = 0, rm_timeout = 1000, rm_frameType = RTU,
     rm_messageQueue = LimitQueue_default, rm_currentMessage = None, rm_transactionIdGenerator = 0\<rparr>"

definition sample_request :: "16 word \<Rightarrow> (frame, 16 word) modbus_message" where
  "sample_request t = ModbusMessage (ModbusMessageInfo 0 3 t) (Some (sample_frame TCP 1 t))"

lemma sample_master_new: "ModbusRtuMaster 0 1000 RTU = Done sample_master"
  by (simp add: ModbusRtuMaster_def sample_master_def)

lemma sample_request_simps [simp]:
  "modbusMessageInfo (sample_request t) = ModbusMessageInfo 0 3 t"
  "modbusBuffer (sample_request t) = Some (sample_frame TCP 1 t)"
  "\<not> message_expired 0 1000 (sample_request t)"
  by (simp_all add: sample_request_def step_simps message_expired_def TimeoutReached_def
      milliseconds_to_nanoseconds_def ModbusMessageInfo_def)

lemma sample_queue_simps [simp]:
  "lq_items (LimitQueue_Push m q) =
    (if length (lq_items q) > lq_maxSize q then tl (lq_items q) else lq_items q) @ [m]"
  "lq_maxSize (LimitQueue_default :: 'a limit_queue) = 2 ^ 64 - 1"
  by (auto simp: LimitQueue_defs Let_def LimitQueue_default_def size_t_max_def)

text \<open>The sample master after one request, after its write, and after a second request.\<close>

definition sample_busy :: "(frame, 16 word) rtu_master" where
  "sample_busy = rm_take sample_lib (sample_request 1) (sample_frame TCP 1 1) [] sample_master"

lemma rm_take_simps [simp]:
  "rm_currentMessage (rm_take L m b ms s) = Some \<lparr>cur_message = m\<lparr>modbusBuffer := Some (rm_frame L s b)\<rparr>,
     cur_id = rm_transactionIdGenerator s + 1\<rparr>"
  "lq_items (rm_messageQueue (rm_take L m b ms s)) = ms"
  "rm_timeout (rm_take L m b ms s) = rm_timeout s"
  "rm_frameType (rm_take L m b ms s) = rm_frameType s"
  by (simp_all add: rm_take_def)

lemma sample_first_request:
  "rm_io_step sample_lib 0 (sample_master, no_ops) (Master_message 0 (ModbusMsg (sample_request 1)))
     [Async_send (rm_frame sample_lib sample_master (sample_frame TCP 1 1))]
     (sample_busy, no_ops\<lparr>p_sends := 1\<rparr>)"
  by (simp add: io_step_iff RtuMaster_small_defs RtuMaster_QueueProcess_eq sample_busy_def
      sample_master_def rm_take_def rm_frame_def LimitQueue_Push_def LimitQueue_default_def
      size_t_max_def no_ops_def)

lemma sample_written:
  "rm_io_step sample_lib 0 (sample_busy, no_ops\<lparr>p_sends := 1\<rparr>) (Master_written None)
     [Async_wait 1000, Async_receive RTU] (sample_busy, no_ops\<lparr>p_receives := 1, p_waits := 1\<rparr>)"
  by (simp add: io_step_iff RtuMaster_small_defs sample_busy_def sample_master_def no_ops_def)

lemma sample_reach:
  "rm_reach sample_lib 0 (sample_busy, no_ops\<lparr>p_sends := 1\<rparr>)"
  "rm_reach sample_lib 0 (sample_busy, no_ops\<lparr>p_receives := 1, p_waits := 1\<rparr>)"
proof -
  have "rm_new 0 sample_master" using sample_master_new by (simp add: rm_new_def sample_master_def)
  then have "rm_reach sample_lib 0 (sample_master, no_ops)" by (rule reach_new)
  then show 1: "rm_reach sample_lib 0 (sample_busy, no_ops\<lparr>p_sends := 1\<rparr>)"
    by (rule reach_step [OF _ sample_first_request])
  show "rm_reach sample_lib 0 (sample_busy, no_ops\<lparr>p_receives := 1, p_waits := 1\<rparr>)"
    by (rule reach_step [OF 1 sample_written])
qed

subsection \<open>Properties\<close>

text \<open>
  C10: over every run of a new serial master the replies it sends are, in order and each at most
  once, infos of requests it received: each goes to the actor the request came from and carries
  the request's own transaction id; replies never overtake one another.
\<close>

theorem RtuMaster_replies_in_order:
  assumes "ModbusRtuMaster defaultId timeout f = Done s"
    and "run (RtuMaster_step L defaultId) s es = Done (s', os)"
  shows "subseq (replies os) (concat (map rm_arrivals es)) \<and>
    (\<forall>(a, i) \<in> set (replies os). a = sourceId i)"
proof -
  from ModbusRtuMaster_new [OF assms(1)] assms(2)
  have sub: "subseq (replies os) (concat (map rm_arrivals es))"
    by (intro rm.answers_in_order) auto
  have "\<forall>(a, i) \<in> set (concat (map rm_arrivals es)). a = sourceId i"
    using rm_arrivals_addressed by fastforce
  with subseq_set [OF sub] have "\<forall>(a, i) \<in> set (replies os). a = sourceId i" by blast
  with sub show ?thesis by blast
qed

theorem RtuMaster_replies_in_order_witness:
  "subseq (replies [Async_send (rm_frame sample_lib sample_master (sample_frame TCP 1 1)),
     Async_wait 1000, Async_receive RTU, Timer_cancel, Exchange_send 3 (ModbusMsg
       (ModbusMessage (ModbusMessageInfo 0 3 (1 :: 16 word)) (Some (sample_frame RTU 1 0))))])
    [(3, ModbusMessageInfo 0 3 1)]"
proof -
  have "run (RtuMaster_step sample_lib 0) sample_master
      [Master_message 0 (ModbusMsg (sample_request 1)), Master_written None,
       Master_read True 0 None (sample_frame RTU 1 0) 9] =
    Done (sample_busy\<lparr>rm_currentMessage := None\<rparr>,
     [Async_send (rm_frame sample_lib sample_master (sample_frame TCP 1 1)),
      Async_wait 1000, Async_receive RTU, Timer_cancel, Exchange_send 3 (ModbusMsg
       (ModbusMessage (ModbusMessageInfo 0 3 1) (Some (sample_frame RTU 1 0))))])"
    by (simp add: RtuMaster_small_defs RtuMaster_QueueProcess_eq sample_busy_def sample_master_def
        rm_take_def rm_frame_def LimitQueue_Push_def LimitQueue_default_def size_t_max_def
        RtuMaster_on_read_def RtuMaster_MakeResponse_def step_simps ModbusMessageInfo_def
        sample_frame_def)
  from RtuMaster_replies_in_order [OF sample_master_new this] show ?thesis
    by (simp add: addressed_def ModbusMessageInfo_def step_simps)
qed

text \<open>
  C24: in every reachable state of a serial master, with its operations completing at any time
  and with any result, at most one write or read is in flight, and while one is there is a
  message in process, so the buffer the operation uses is still owned.
\<close>

theorem RtuMaster_one_transfer:
  assumes "rm_reach L defaultId (s, p)"
  shows "p_sends p + p_receives p \<le> 1 \<and>
    (p_sends p + p_receives p = 1 \<longrightarrow> rm_currentMessage s \<noteq> None)"
  using rm_reach_transfer [OF assms] by (simp add: one_transfer_def transfers_def)

theorem RtuMaster_one_transfer_witness:
  "rm_currentMessage sample_busy \<noteq> None \<and> p_sends (no_ops\<lparr>p_sends := 1\<rparr>) = 1"
  using RtuMaster_one_transfer [OF sample_reach(1)] by (simp add: no_ops_def)

text \<open>
  C31: once a reply arrives whose size the frame library refuses, the serial master is dead: the
  message stays in process with nothing in flight, and whatever happens afterwards, however many
  requests arrive, it never writes another frame and never sends another reply.
\<close>

theorem RtuMaster_dead_after_bad_size:
  assumes "rm_reach L defaultId (s, p)"
    and "rm_io_step L defaultId (s, p) (Master_read True now success buffer sz) os1 x"
    and "mb_set_adu_size L sz buffer = None"
    and "rm_io_run L defaultId x os y"
  shows "rm_wedged y \<and> list_all (\<lambda>e. \<not> talks e) (os1 @ os)"
proof -
  obtain s' p' where x: "x = (s', p')" by fastforce
  from assms(1,2) have one: "rm_one_transfer (s, p)" by (intro rm_reach_transfer)
  from assms(2) x one have "transfers (p\<lparr>p_receives := p_receives p - 1\<rparr>) = 0"
    and "rm_currentMessage s \<noteq> None"
    by (auto simp: io_step_iff one_transfer_def transfers_def split: if_splits)
  with assms(2,3) x have "rm_wedged (s', p') \<and> list_all (\<lambda>e. \<not> talks e) os1"
    by (auto simp: io_step_iff RtuMaster_on_read_def RtuMaster_MakeResponse_def and_then_Done_iff
        RtuMaster_QueueProcess_eq wedged_def talks_def split: if_splits option.splits)
  with rm_wedged_run [OF assms(4)] x show ?thesis by simp
qed

theorem RtuMaster_dead_after_bad_size_witness:
  "rm_wedged (sample_busy, no_ops\<lparr>p_waits := 1\<rparr>)"
proof -
  have "rm_io_step sample_lib 0 (sample_busy, no_ops\<lparr>p_receives := 1, p_waits := 1\<rparr>)
      (Master_read True 0 None (sample_frame RTU 1 0) 300) [Timer_cancel]
      (sample_busy, no_ops\<lparr>p_waits := 1\<rparr>)"
    by (simp add: io_step_iff RtuMaster_on_read_def RtuMaster_MakeResponse_def
        RtuMaster_QueueProcess_eq sample_busy_def no_ops_def)
  from RtuMaster_dead_after_bad_size [OF sample_reach(2) this _ io_stop] show ?thesis
    by simp
qed

text \<open>
  a serial master never runs into undefined behaviour, in particular it never reads an
  empty queue and never dereferences a null buffer, as long as the requests it is sent carry a
  buffer; every such run is defined whatever the results of its operations are.
\<close>

lemma RtuMaster_never_undefined:
  assumes "ModbusRtuMaster defaultId timeout f = Done s" and "list_all rm_event_ok es"
  shows "\<exists>s' os. run (RtuMaster_step L defaultId) s es = Done (s', os)"
  using ModbusRtuMaster_new [OF assms(1)] assms(2)
  by (intro RtuMaster_run_defined) (auto simp: rm_buffers_ok_def)

theorem RtuMaster_never_undefined_witness:
  "\<exists>s' os. run (RtuMaster_step sample_lib 0) sample_master
     [Master_message 0 (ModbusMsg (sample_request 1)), Master_message 0 (ModbusMsg (sample_request 2)),
      Master_written None, Master_read True 0 None (sample_frame RTU 1 0) 9] = Done (s', os)"
  by (rule RtuMaster_never_undefined [OF sample_master_new]) simp

text \<open>
  when a reply of an acceptable size arrives, the message in process is finished, its
  sender gets the reply if the frame check passes, expired requests are dropped, and the oldest
  request that is left is written to the line in the same step.
\<close>

lemma RtuMaster_read_progress:
  assumes "rm_currentMessage s = Some c" and "mb_set_adu_size L sz buffer = Some b"
    and "dropWhile (message_expired now (rm_timeout s)) (lq_items (rm_messageQueue s)) = m # ms"
    and "modbusBuffer m = Some rb"
  shows "RtuMaster_on_read L True now success buffer sz s =
    Done (rm_take L m rb ms (s\<lparr>rm_currentMessage := None\<rparr>),
      Timer_cancel #
      (if mb_check L b then [Exchange_send (sourceId (modbusMessageInfo (cur_message c)))
          (ModbusMsg \<lparr>modbusMessageInfo = modbusMessageInfo (cur_message c), modbusBuffer = Some b\<rparr>)]
       else []) @ [Async_send (rm_frame L s rb)])"
  using assms
  by (simp add: RtuMaster_on_read_def RtuMaster_MakeResponse_def RtuMaster_QueueProcess_eq
      step_simps rm_frame_def)

theorem RtuMaster_read_progress_witness:
  "\<exists>s' r. RtuMaster_on_read sample_lib True 0 None (sample_frame RTU 1 0) 9
      (sample_busy\<lparr>rm_messageQueue := LimitQueue_Push (sample_request 2) LimitQueue_default\<rparr>) =
    Done (s', [Timer_cancel, Exchange_send 3 r, Async_send (rm_frame sample_lib sample_busy (sample_frame TCP 1 2))])"
proof -
  let ?s = "sample_busy\<lparr>rm_messageQueue := LimitQueue_Push (sample_request 2) LimitQueue_default\<rparr>"
  have "rm_currentMessage ?s = Some \<lparr>cur_message = (sample_request 1)\<lparr>modbusBuffer :=
      Some (rm_frame sample_lib sample_master (sample_frame TCP 1 1))\<rparr>, cur_id = 1\<rparr>"
    and "dropWhile (message_expired 0 (rm_timeout ?s)) (lq_items (rm_messageQueue ?s)) = sample_request 2 # []"
    by (simp_all add: sample_busy_def sample_master_def)
  from RtuMaster_read_progress [OF this(1) _ this(2), of sample_lib 9 "sample_frame RTU 1 0"
      "sample_frame RTU 1 0\<lparr>fr_size := 9\<rparr>" "sample_frame TCP 1 2"]
  show ?thesis by (simp add: rm_frame_def ModbusMessageInfo_def)
qed

text \<open>
  C33: when the read fails, which includes every timeout, the master gives up the message in
  process but does not look at its queue: the requests waiting there stay, and with nothing in
  flight any more they are looked at again only when another request arrives.
\<close>

theorem RtuMaster_stalls_after_error:
  assumes "rm_reach L defaultId (s, p)"
    and "rm_io_step L defaultId (s, p) (Master_read True now (Some e) buffer sz) os (s', p')"
  shows "os = [Timer_cancel] \<and> rm_messageQueue s' = rm_messageQueue s \<and>
    rm_currentMessage s' = None \<and> transfers p' = 0"
  using rm_reach_transfer [OF assms(1)] assms(2)
  by (auto simp: io_step_iff RtuMaster_on_read_def one_transfer_def transfers_def
      split: if_splits)

theorem RtuMaster_stalls_after_error_witness:
  "rm_currentMessage (sample_busy\<lparr>rm_currentMessage := None\<rparr>) = None \<and> transfers (no_ops\<lparr>p_waits := 1\<rparr>) = 0"
proof -
  have "rm_io_step sample_lib 0 (sample_busy, no_ops\<lparr>p_receives := 1, p_waits := 1\<rparr>)
      (Master_read True 0 (Some Operation_aborted) (sample_frame RTU 1 0) 0) [Timer_cancel]
      (sample_busy\<lparr>rm_currentMessage := None\<rparr>, no_ops\<lparr>p_waits := 1\<rparr>)"
    by (simp add: io_step_iff RtuMaster_on_read_def no_ops_def)
  from RtuMaster_stalls_after_error [OF sample_reach(2) this] show ?thesis by simp
qed

text \<open>
  every frame a serial master writes is of the line's frame type, and every read it starts
  expects that type, over every run of a new master.
\<close>

lemma RtuMaster_frame_types:
  assumes "convert_types L" and "ModbusRtuMaster defaultId timeout f = Done s"
    and "run (RtuMaster_step L defaultId) s es = Done (s', os)"
  shows "list_all (\<lambda>e. case e of Async_send b \<Rightarrow> mb_type L b = f | Async_receive g \<Rightarrow> g = f | _ \<Rightarrow> True) os"
  by (rule run_outputs [where I = "\<lambda>s. rm_frameType s = f", OF _ _ assms(3)])
    (use RtuMaster_step_frames [OF assms(1)] ModbusRtuMaster_new [OF assms(2)] in \<open>blast+\<close>)

theorem RtuMaster_frame_types_witness:
  "fr_type (rm_frame sample_lib sample_master (sample_frame TCP 1 1)) = RTU"
proof -
  have "run (RtuMaster_step sample_lib 0) sample_master [Master_message 0 (ModbusMsg (sample_request 1))] =
    Done (sample_busy, [Async_send (rm_frame sample_lib sample_master (sample_frame TCP 1 1))])"
    using sample_first_request by (simp add: io_step_iff)
  from RtuMaster_frame_types [OF sample_lib_lawful(2) sample_master_new this] show ?thesis by simp
qed

text \<open>
  C35: a timeout can hit the wrong request. There is a reachable state in which a request is
  being written, so that its own timer has not even been started, and the completion of the
  previous request's timer, which had expired just before that request was answered, cancels the
  port and with it the new request.
\<close>

theorem RtuMaster_stale_timeout_cancels:
  "\<exists>s p c. rm_reach sample_lib 0 (s, p) \<and> p_sends p = 1 \<and> rm_currentMessage s = Some c \<and>
     transactionId (modbusMessageInfo (cur_message c)) = 2 \<and>
     (\<exists>y. rm_io_step sample_lib 0 (s, p) (Master_waited None) [Io_cancel] y)"
proof -
  let ?queued = "sample_busy\<lparr>rm_messageQueue := \<lparr>lq_items = [sample_request 2], lq_maxSize = 2 ^ 64 - 1\<rparr>\<rparr>"
  let ?p = "no_ops\<lparr>p_receives := 1, p_waits := 1\<rparr>"
  let ?s = "rm_take sample_lib (sample_request 2) (sample_frame TCP 1 2) [] (?queued\<lparr>rm_currentMessage := None\<rparr>)"
  have "rm_io_step sample_lib 0 (sample_busy, ?p) (Master_message 0 (ModbusMsg (sample_request 2))) []
      (?queued, ?p)"
    by (simp add: io_step_iff RtuMaster_small_defs RtuMaster_QueueProcess_eq sample_busy_def
        sample_master_def rm_take_def LimitQueue_Push_def LimitQueue_default_def size_t_max_def)
  from reach_step [OF sample_reach(2) this]
  have r: "rm_reach sample_lib 0 (?queued, ?p)" .
  obtain os where "rm_io_step sample_lib 0 (?queued, ?p)
      (Master_read True 0 None (sample_frame RTU 1 0) 9) os (?s, no_ops\<lparr>p_sends := 1, p_waits := 1\<rparr>)"
    by (simp add: io_step_iff RtuMaster_on_read_def RtuMaster_MakeResponse_def
        RtuMaster_QueueProcess_eq sample_busy_def sample_master_def no_ops_def step_simps)
  from reach_step [OF r this] have "rm_reach sample_lib 0 (?s, no_ops\<lparr>p_sends := 1, p_waits := 1\<rparr>)" .
  moreover have "rm_io_step sample_lib 0 (?s, no_ops\<lparr>p_sends := 1, p_waits := 1\<rparr>) (Master_waited None)
      [Io_cancel] (?s, no_ops\<lparr>p_sends := 1\<rparr>)"
    by (simp add: io_step_iff RtuMaster_small_defs no_ops_def)
  ultimately show ?thesis by (fastforce simp: ModbusMessageInfo_def no_ops_def)
qed

end
