(* ===== verification/Tcp_Client.thy ===== *)
theory Tcp_Client
  imports Sample_Frames Master_Pipeline
begin

text \<open>
  The actor that forwards requests to a Modbus TCP server
  (\<^verbatim>\<open>src/src/transport/modbus_tcp_client.cpp\<close>). Requests wait in a queue; the
  first one starts a connect, and on the connection one request at a time is sent and its answer
  or the timeout awaited. Every handler runs under the actor's mutex, so handlers are atomic
  steps. The code never closes the logical state machine: its four states are the enum
  \<^verbatim>\<open>State\<close>, and no branch assigns \<^verbatim>\<open>State::WaitConnect\<close>.

  Two results of the socket are inputs of the handlers: whether it is open (read by
  \<^verbatim>\<open>CloseSocket\<close>) and whether it knows its remote endpoint (the connect handler
  calls the throwing overload of \<^verbatim>\<open>remote_endpoint\<close> for its log line).
\<close>

datatype client_state = Idle | WaitConnect | Connected | MessageProcess

record ('b, 't) tcp_client =
  tc_id :: actor_id
  tc_timeout :: chrono_rep
  tc_messageQueue :: "('b, 't) modbus_message limit_queue"
  tc_currentMessage :: "('b, 't) current_message option"
  tc_transactionIdGenerator :: 't
  tc_state :: client_state

definition ModbusTcpClient :: "actor_id \<Rightarrow> chrono_rep \<Rightarrow> ('b, 't::len word) tcp_client" where
  "ModbusTcpClient defaultId timeout =
     \<lparr>tc_id = defaultId, tc_timeout = timeout, tc_messageQueue = LimitQueue_default,
      tc_currentMessage = None, tc_transactionIdGenerator = 0, tc_state = Idle\<rparr>"

text \<open>Errors of \<^verbatim>\<open>shutdown\<close> and \<^verbatim>\<open>close\<close> are only logged.\<close>

definition TcpClient_CloseSocket :: "bool \<Rightarrow> ('b, 't) effect list" where
  "TcpClient_CloseSocket is_open = (if is_open then [Io_shutdown, Io_close] else [])"

definition TcpClient_Dtor :: "bool \<Rightarrow> ('b, 't) effect list" where
  "TcpClient_Dtor is_open = TcpClient_CloseSocket is_open"

definition TcpClient_SetId :: "actor_id \<Rightarrow> ('b, 't) tcp_client \<Rightarrow> ('b, 't) tcp_client" where
  "TcpClient_SetId i s = s\<lparr>tc_id := i\<rparr>"

definition TcpClient_ResetId :: "actor_id \<Rightarrow> ('b, 't) tcp_client \<Rightarrow> ('b, 't) tcp_client" where
  "TcpClient_ResetId defaultId s = s\<lparr>tc_id := defaultId\<rparr>"

definition TcpClient_GetId :: "('b, 't) tcp_client \<Rightarrow> actor_id" where
  "TcpClient_GetId s = tc_id s"

definition TcpClient_StateToStr :: "client_state \<Rightarrow> string" where
  "TcpClient_StateToStr st = (case st of Idle \<Rightarrow> ''Idle'' | WaitConnect \<Rightarrow> ''WaitConnect''
     | Connected \<Rightarrow> ''Connected'' | MessageProcess \<Rightarrow> ''MessageProcess'')"

definition TcpClient_StartConnectTaskUnsafe :: "('b, 't) effect list" where
  "TcpClient_StartConnectTaskUnsafe = [Async_connect]"

definition TcpClient_StartMessageTaskUnsafe :: "('b, 'u, 't::len word) modbus_lib \<Rightarrow> chrono_rep \<Rightarrow>
    ('b, 't word) tcp_client \<Rightarrow> (('b, 't word) tcp_client \<times> ('b, 't word) effect list) outcome" where
  "TcpClient_StartMessageTaskUnsafe L now s =
     (if tc_currentMessage s \<noteq> None then Done (s, [])
      else and_then (defined (drop_expired now (tc_timeout s) (tc_messageQueue s))) (\<lambda>queue.
        let s1 = s\<lparr>tc_messageQueue := queue\<rparr> in
        if LimitQueue_Empty queue then Done (s1, [])
        else
          let s2 = s1\<lparr>tc_state := MessageProcess\<rparr>;
              transactionId = tc_transactionIdGenerator s2 + 1
          in and_then (defined (LimitQueue_Front queue)) (\<lambda>message.
             and_then (defined (LimitQueue_Pop queue)) (\<lambda>queue'.
             and_then (defined (GetModbusBuffer message)) (\<lambda>buffer.
             let buffer' = tcp_set_tid L transactionId (tcp_update L (mb_convert_to L TCP buffer));
                 current = \<lparr>cur_message = message\<lparr>modbusBuffer := Some buffer'\<rparr>, cur_id = transactionId\<rparr>
             in Done (s2\<lparr>tc_transactionIdGenerator := transactionId, tc_messageQueue := queue',
                         tc_currentMessage := Some current\<rparr>, [Async_send buffer']))))))"

definition TcpClient_QueueProcessUnsafe :: "('b, 'u, 't::len word) modbus_lib \<Rightarrow> chrono_rep \<Rightarrow>
    ('b, 't word) tcp_client \<Rightarrow> (('b, 't word) tcp_client \<times> ('b, 't word) effect list) outcome" where
  "TcpClient_QueueProcessUnsafe L now s =
     (if LimitQueue_Empty (tc_messageQueue s) then Done (s, [])
      else case tc_state s of
        Idle \<Rightarrow> Done (s, TcpClient_StartConnectTaskUnsafe)
      | WaitConnect \<Rightarrow> Done (s, [])
      | Connected \<Rightarrow> TcpClient_StartMessageTaskUnsafe L now s
      | MessageProcess \<Rightarrow> Done (s, []))"

definition TcpClient_MessageProcess :: "('b, 'u, 't::len word) modbus_lib \<Rightarrow> chrono_rep \<Rightarrow>
    ('b, 't word) modbus_message \<Rightarrow> ('b, 't word) tcp_client \<Rightarrow>
    (('b, 't word) tcp_client \<times> ('b, 't word) effect list) outcome" where
  "TcpClient_MessageProcess L now message s =
     TcpClient_QueueProcessUnsafe L now
       (s\<lparr>tc_messageQueue := LimitQueue_Push message (tc_messageQueue s)\<rparr>)"

definition TcpClient_Receive :: "('b, 'u, 't::len word) modbus_lib \<Rightarrow> chrono_rep \<Rightarrow>
    ('b, 't word) message \<Rightarrow> ('b, 't word) tcp_client \<Rightarrow>
    (('b, 't word) tcp_client \<times> ('b, 't word) effect list) outcome" where
  "TcpClient_Receive L now message s =
     (case message of ModbusMsg m \<Rightarrow> TcpClient_MessageProcess L now m s | _ \<Rightarrow> Done (s, []))"

text \<open>The connect handler, with whether the remote endpoint can be read.\<close>

definition TcpClient_on_connect :: "('b, 'u, 't::len word) modbus_lib \<Rightarrow> chrono_rep \<Rightarrow> error_code \<Rightarrow>
    bool \<Rightarrow> ('b, 't word) tcp_client \<Rightarrow>
    (('b, 't word) tcp_client \<times> ('b, 't word) effect list) outcome" where
  "TcpClient_on_connect L now ec endpoint_known s =
     (case ec of
        Some e \<Rightarrow> Done (s\<lparr>tc_state := Idle\<rparr>, [])
      | None \<Rightarrow>
          let s' = s\<lparr>tc_state := Connected\<rparr> in
          if \<not> endpoint_known then Throws else TcpClient_QueueProcessUnsafe L now s')"

definition TcpClient_StartWaitTask :: "('b, 't) tcp_client \<Rightarrow> ('b, 't) effect list" where
  "TcpClient_StartWaitTask s = [Async_wait (tc_timeout s)]"

definition TcpClient_StartReceiveTask :: "('b, 't) effect list" where
  "TcpClient_StartReceiveTask = [Async_receive TCP]"

text \<open>
  What the send and the receive handler do on an error: the message in process is given up, and
  unless the operation was aborted the connection is closed.
\<close>

definition TcpClient_fail :: "asio_error \<Rightarrow> bool \<Rightarrow> ('b, 't) tcp_client \<Rightarrow>
    ('b, 't) tcp_client \<times> ('b, 't) effect list" where
  "TcpClient_fail e is_open s =
     (let s' = s\<lparr>tc_currentMessage := None, tc_state := Connected\<rparr> in
      if e \<noteq> Operation_aborted then (s'\<lparr>tc_state := Idle\<rparr>, TcpClient_CloseSocket is_open)
      else (s', []))"

definition TcpClient_on_send :: "error_code \<Rightarrow> bool \<Rightarrow> ('b, 't) tcp_client \<Rightarrow>
    ('b, 't) tcp_client \<times> ('b, 't) effect list" where
  "TcpClient_on_send ec is_open s =
     (case ec of
        Some e \<Rightarrow> TcpClient_fail e is_open s
      | None \<Rightarrow> (s, TcpClient_StartWaitTask s @ TcpClient_StartReceiveTask))"

text \<open>The timeout cancels whatever operation of the socket is outstanding.\<close>

definition TcpClient_on_wait :: "error_code \<Rightarrow> ('b, 't) tcp_client \<Rightarrow>
    ('b, 't) tcp_client \<times> ('b, 't) effect list" where
  "TcpClient_on_wait ec s = (case ec of Some e \<Rightarrow> (s, []) | None \<Rightarrow> (s, [Io_cancel]))"

definition TcpClient_MakeResponse :: "('b, 'u, 't) modbus_lib \<Rightarrow> 'b \<Rightarrow> nat \<Rightarrow> ('b, 't) tcp_client \<Rightarrow>
    ('b, 't) modbus_message option \<times> ('b, 't) tcp_client" where
  "TcpClient_MakeResponse L buffer sz s =
     (case tc_currentMessage s of
        None \<Rightarrow> (None, s)
      | Some current \<Rightarrow>
          (case mb_set_adu_size L sz buffer of
             None \<Rightarrow> (None, s)
           | Some b \<Rightarrow>
               let s' = s\<lparr>tc_currentMessage := None\<rparr>;
                   currentInfo = GetModbusMessageInfo (cur_message current)
               in if \<not> tcp_check L b then (None, s')
                  else if tcp_get_tid L b \<noteq> cur_id current then (None, s')
                  else (Some (ModbusMessage currentInfo (Some b)), s')))"

definition TcpClient_on_receive :: "('b, 'u, 't::len word) modbus_lib \<Rightarrow> bool \<Rightarrow> chrono_rep \<Rightarrow>
    error_code \<Rightarrow> bool \<Rightarrow> 'b \<Rightarrow> nat \<Rightarrow> ('b, 't word) tcp_client \<Rightarrow>
    (('b, 't word) tcp_client \<times> ('b, 't word) effect list) outcome" where
  "TcpClient_on_receive L exch now ec is_open buffer sz s =
     (if \<not> exch then Done (s, [])
      else case ec of
        Some e \<Rightarrow> (case TcpClient_fail e is_open s of (s', os) \<Rightarrow> Done (s', Timer_cancel # os))
      | None \<Rightarrow>
          (case TcpClient_MakeResponse L buffer sz s of
             (response, s') \<Rightarrow>
               let sent = (case response of None \<Rightarrow> []
                 | Some m \<Rightarrow> [Exchange_send (GetSourceId (GetModbusMessageInfo m)) (ModbusMsg m)])
               in and_then (TcpClient_QueueProcessUnsafe L now (s'\<lparr>tc_state := Connected\<rparr>))
                    (\<lambda>(s'', os). Done (s'', Timer_cancel # sent @ os))))"

subsection \<open>The actor as a state machine\<close>

datatype ('b, 't) tcp_client_event =
    Client_message chrono_rep "('b, 't) message"
  | Client_connected chrono_rep error_code bool
  | Client_sent error_code bool
  | Client_waited error_code
  | Client_received bool chrono_rep error_code bool 'b nat
  | Client_set_id actor_id
  | Client_reset_id

fun TcpClient_step :: "('b, 'u, 't::len word) modbus_lib \<Rightarrow> actor_id \<Rightarrow> ('b, 't word) tcp_client \<Rightarrow>
    ('b, 't word) tcp_client_event \<Rightarrow>
    (('b, 't word) tcp_client \<times> ('b, 't word) effect list) outcome" where
  "TcpClient_step L defaultId s (Client_message now m) = TcpClient_Receive L now m s"
| "TcpClient_step L defaultId s (Client_connected now ec known) = TcpClient_on_connect L now ec known s"
| "TcpClient_step L defaultId s (Client_sent ec is_open) = Done (TcpClient_on_send ec is_open s)"
| "TcpClient_step L defaultId s (Client_waited ec) = Done (TcpClient_on_wait ec s)"
| "TcpClient_step L defaultId s (Client_received exch now ec is_open buffer sz) =
     TcpClient_on_receive L exch now ec is_open buffer sz s"
| "TcpClient_step L defaultId s (Client_set_id i) = Done (TcpClient_SetId i s, [])"
| "TcpClient_step L defaultId s Client_reset_id = Done (TcpClient_ResetId defaultId s, [])"

lemmas TcpClient_small_defs [handler_defs] = TcpClient_SetId_def TcpClient_ResetId_def
  TcpClient_MessageProcess_def TcpClient_Receive_def TcpClient_StartWaitTask_def
  TcpClient_StartReceiveTask_def TcpClient_on_send_def TcpClient_on_wait_def
  TcpClient_on_connect_def TcpClient_StartConnectTaskUnsafe_def TcpClient_CloseSocket_def

subsection \<open>Characteristic equations\<close>

text \<open>The frame a request becomes on the wire, and the state after taking it from the queue.\<close>

definition tc_frame :: "('b, 'u, 't::len word) modbus_lib \<Rightarrow> ('b, 't word) tcp_client \<Rightarrow> 'b \<Rightarrow> 'b" where
  "tc_frame L s b = tcp_set_tid L (tc_transactionIdGenerator s + 1) (tcp_update L (mb_convert_to L TCP b))"

definition tc_take :: "('b, 'u, 't::len word) modbus_lib \<Rightarrow> ('b, 't word) modbus_message \<Rightarrow> 'b \<Rightarrow>
    ('b, 't word) modbus_message list \<Rightarrow> ('b, 't word) tcp_client \<Rightarrow> ('b, 't word) tcp_client" where
  "tc_take L m b ms s = s\<lparr>tc_state := MessageProcess,
     tc_transactionIdGenerator := tc_transactionIdGenerator s + 1,
     tc_messageQueue := (tc_messageQueue s)\<lparr>lq_items := ms\<rparr>,
     tc_currentMessage := Some \<lparr>cur_message = m\<lparr>modbusBuffer := Some (tc_frame L s b)\<rparr>,
       cur_id = tc_transactionIdGenerator s + 1\<rparr>\<rparr>"

lemma TcpClient_QueueProcess_eq:
  "TcpClient_QueueProcessUnsafe L now s =
    (if lq_items (tc_messageQueue s) = [] then Done (s, [])
     else if tc_state s = Idle then Done (s, [Async_connect])
     else if tc_state s \<noteq> Connected \<or> tc_currentMessage s \<noteq> None then Done (s, [])
     else case dropWhile (message_expired now (tc_timeout s)) (lq_items (tc_messageQueue s)) of
       [] \<Rightarrow> Done (s\<lparr>tc_messageQueue := (tc_messageQueue s)\<lparr>lq_items := []\<rparr>\<rparr>, [])
     | m # ms \<Rightarrow> (case modbusBuffer m of None \<Rightarrow> Undefined
         | Some b \<Rightarrow> Done (tc_take L m b ms s, [Async_send (tc_frame L s b)])))"
  by (cases "lq_items (tc_messageQueue s)"; cases "tc_state s")
    (auto simp: TcpClient_QueueProcessUnsafe_def TcpClient_StartMessageTaskUnsafe_def
      TcpClient_StartConnectTaskUnsafe_def LimitQueue_defs drop_expired_Some tc_take_def tc_frame_def
      step_simps Let_def defined_def split: list.splits option.splits)

lemma TcpClient_QueueProcess_cases:
  assumes "TcpClient_QueueProcessUnsafe L now s = Done (s', os)"
  obtains (kept) "s' = s" "os = []"
  | (connect) "tc_state s = Idle" "s' = s" "os = [Async_connect]"
  | (expired) "tc_state s = Connected" "tc_currentMessage s = None" "os = []"
      "s' = s\<lparr>tc_messageQueue := (tc_messageQueue s)\<lparr>lq_items := []\<rparr>\<rparr>"
      "list_all (message_expired now (tc_timeout s)) (lq_items (tc_messageQueue s))"
  | (start) m b ms where "tc_state s = Connected" "tc_currentMessage s = None"
      "modbusBuffer m = Some b" "suffix (m # ms) (lq_items (tc_messageQueue s))"
      "\<not> message_expired now (tc_timeout s) m" "s' = tc_take L m b ms s"
      "os = [Async_send (tc_frame L s b)]"
proof (cases "lq_items (tc_messageQueue s) \<noteq> [] \<and> tc_state s = Connected \<and> tc_currentMessage s = None")
  case False
  with assms show ?thesis
    by (auto simp: TcpClient_QueueProcess_eq split: if_splits intro: kept connect)
next
  case True
  let ?P = "message_expired now (tc_timeout s)" and ?q = "lq_items (tc_messageQueue s)"
  show ?thesis
  proof (cases "dropWhile ?P ?q")
    case Nil
    then have "list_all ?P ?q" by (simp add: dropWhile_eq_Nil_conv list_all_iff)
    moreover have "os = []" and "s' = s\<lparr>tc_messageQueue := (tc_messageQueue s)\<lparr>lq_items := []\<rparr>\<rparr>"
      using assms True unfolding TcpClient_QueueProcess_eq Nil by simp_all
    ultimately show ?thesis using True by (intro expired) auto
  next
    case (Cons m ms)
    then have "suffix (m # ms) ?q" by (metis suffix_dropWhile)
    moreover have "\<not> ?P m" using hd_dropWhile [of ?P ?q] Cons by auto
    ultimately show ?thesis using Cons True assms
      by (cases "modbusBuffer m") (auto simp: TcpClient_QueueProcess_eq intro: start)
  qed
qed

lemma TcpClient_MakeResponse_cases:
  assumes "TcpClient_MakeResponse L buffer sz s = (r, s')"
  obtains (refused) "r = None" "s' = s"
      "tc_currentMessage s = None \<or> mb_set_adu_size L sz buffer = None"
  | (bad) b where "r = None" "s' = s\<lparr>tc_currentMessage := None\<rparr>" "tc_currentMessage s \<noteq> None"
      "mb_set_adu_size L sz buffer = Some b"
  | (good) c b where "tc_currentMessage s = Some c" "s' = s\<lparr>tc_currentMessage := None\<rparr>"
      "mb_set_adu_size L sz buffer = Some b" "tcp_check L b" "tcp_get_tid L b = cur_id c"
      "r = Some \<lparr>modbusMessageInfo = modbusMessageInfo (cur_message c), modbusBuffer = Some b\<rparr>"
  using assms
  by (auto simp: TcpClient_MakeResponse_def step_simps Let_def split: option.splits if_splits)

text \<open>The receive handler in three cases: nothing happens, the request fails, a reply is processed.\<close>

lemma TcpClient_on_receive_cases:
  assumes "TcpClient_on_receive L exch now ec is_open buffer sz s = Done (s', os)"
  obtains (no_exchange) "\<not> exch" "s' = s" "os = []"
  | (failed) e os1 where "exch" "ec = Some e" "TcpClient_fail e is_open s = (s', os1)"
      "os = Timer_cancel # os1"
  | (reply) r s1 os1 where "exch" "ec = None" "TcpClient_MakeResponse L buffer sz s = (r, s1)"
      "TcpClient_QueueProcessUnsafe L now (s1\<lparr>tc_state := Connected\<rparr>) = Done (s', os1)"
      "os = Timer_cancel # (case r of None \<Rightarrow> []
         | Some m \<Rightarrow> [Exchange_send (sourceId (modbusMessageInfo m)) (ModbusMsg m)]) @ os1"
proof (cases "exch \<and> ec = success")
  case False
  with assms show ?thesis
    by (cases "TcpClient_fail (the ec) is_open s")
      (auto simp: TcpClient_on_receive_def intro: no_exchange failed split: if_splits option.splits)
next
  case True
  obtain r s1 where "TcpClient_MakeResponse L buffer sz s = (r, s1)" by fastforce
  with True assms show ?thesis
    by (auto simp: TcpClient_on_receive_def and_then_Done_iff step_simps cong: option.case_cong
        intro: reply)
qed

lemma TcpClient_fail_simps [simp]:
  "tc_currentMessage (fst (TcpClient_fail e is_open s)) = None"
  "tc_messageQueue (fst (TcpClient_fail e is_open s)) = tc_messageQueue s"
  "tc_state (fst (TcpClient_fail e is_open s)) = (if e = Operation_aborted then Connected else Idle)"
  "replies (snd (TcpClient_fail e is_open s)) = []"
  "start_ops (snd (TcpClient_fail e is_open s)) p = p"
  "list_all (\<lambda>e. \<not> talks e) (snd (TcpClient_fail e is_open s))"
  by (auto simp: TcpClient_fail_def TcpClient_CloseSocket_def Let_def talks_def)

lemma TcpClient_fail_None:
  "TcpClient_fail e is_open s = (s', os) \<Longrightarrow> tc_currentMessage s' = None \<and>
    tc_messageQueue s' = tc_messageQueue s \<and> tc_state s' \<in> {Connected, Idle} \<and>
    tc_timeout s' = tc_timeout s \<and> replies os = [] \<and> start_ops os p = p \<and>
    set os \<subseteq> {Io_shutdown, Io_close}"
  by (auto simp: TcpClient_fail_def TcpClient_CloseSocket_def Let_def split: if_splits)

subsection \<open>The contract of a master\<close>

definition tc_pipeline :: "('b, 't) tcp_client \<Rightarrow> (actor_id \<times> 't message_info) list" where
  "tc_pipeline s = pipeline_of (tc_currentMessage s) (tc_messageQueue s)"

fun tc_arrivals :: "('b, 't) tcp_client_event \<Rightarrow> (actor_id \<times> 't message_info) list" where
  "tc_arrivals (Client_message now (ModbusMsg m)) = [addressed (modbusMessageInfo m)]"
| "tc_arrivals _ = []"

lemma tc_arrivals_addressed: "(a, i) \<in> set (tc_arrivals e) \<Longrightarrow> a = sourceId i"
  by (cases e rule: tc_arrivals.cases) (auto simp: addressed_def)

definition tc_wf :: "('b, 't) tcp_client \<Rightarrow> bool" where
  "tc_wf s \<longleftrightarrow> LimitQueue_invar (tc_messageQueue s)"

lemma tc_wf_updates [simp]:
  "tc_wf (s\<lparr>tc_state := st\<rparr>) = tc_wf s" "tc_wf (s\<lparr>tc_currentMessage := c\<rparr>) = tc_wf s"
  "tc_pipeline (s\<lparr>tc_state := st\<rparr>) = tc_pipeline s"
  by (simp_all add: tc_wf_def tc_pipeline_def)

lemma tc_take_pipeline:
  assumes "tc_currentMessage s = None" and "suffix (m # ms) (lq_items (tc_messageQueue s))"
  shows "subseq (tc_pipeline (tc_take L m b ms s)) (tc_pipeline s)"
  using pipeline_of_take [OF assms(2)] assms(1) by (simp add: tc_pipeline_def tc_take_def)

lemma tc_take_wf:
  "tc_wf s \<Longrightarrow> suffix (m # ms) (lq_items (tc_messageQueue s)) \<Longrightarrow> tc_wf (tc_take L m b ms s)"
  using invar_suffix [OF _ suffix_ConsD] by (fastforce simp: tc_wf_def tc_take_def)

lemma TcpClient_QueueProcess_pipeline:
  assumes "TcpClient_QueueProcessUnsafe L now s = Done (s', os)" and "tc_wf s"
  shows "tc_wf s' \<and> replies os = [] \<and> subseq (tc_pipeline s') (tc_pipeline s)"
  using assms(1)
proof (cases rule: TcpClient_QueueProcess_cases)
  case expired
  then show ?thesis using assms(2)
    by (simp add: tc_wf_def LimitQueue_invar_def tc_pipeline_def)
next
  case start
  then show ?thesis using assms(2) by (simp add: tc_take_pipeline tc_take_wf)
qed (use assms(2) in simp_all)

lemma tc_push_pipeline:
  assumes "tc_wf s" and "s' = s\<lparr>tc_messageQueue := LimitQueue_Push m (tc_messageQueue s)\<rparr>"
  shows "tc_wf s' \<and> subseq (tc_pipeline s') (tc_pipeline s @ [addressed (modbusMessageInfo m)])"
  using assms
  by (simp add: tc_wf_def tc_pipeline_def pipeline_of_push lq.invar_push del: pipeline_of_simps)

lemma tc_drop_current_pipeline:
  "subseq (tc_pipeline (s\<lparr>tc_currentMessage := None\<rparr>)) (tc_pipeline s)"
  by (simp add: tc_pipeline_def pipeline_of_drop)

lemma TcpClient_fail_pipeline:
  "TcpClient_fail e is_open s = (s', os) \<Longrightarrow> tc_wf s \<Longrightarrow>
    tc_wf s' \<and> replies os = [] \<and> subseq (tc_pipeline s') (tc_pipeline s)"
  using TcpClient_fail_None [of e is_open s s' os]
  by (auto simp: tc_wf_def tc_pipeline_def pipeline_of_drop)

lemma TcpClient_on_receive_pipeline:
  assumes "TcpClient_on_receive L exch now ec is_open buffer sz s = Done (s', os)" and "tc_wf s"
  shows "tc_wf s' \<and> subseq (replies os @ tc_pipeline s') (tc_pipeline s)"
  using assms(1)
proof (cases rule: TcpClient_on_receive_cases)
  case (reply r s1 os1)
  define sent where "sent = (case r of None \<Rightarrow> []
    | Some m \<Rightarrow> [Exchange_send (sourceId (modbusMessageInfo m)) (ModbusMsg m)])"
  from reply(3) have "tc_wf s1 \<and> subseq (replies sent @ tc_pipeline s1) (tc_pipeline s)"
  proof (cases rule: TcpClient_MakeResponse_cases)
    case refused
    then show ?thesis using assms(2) by (simp add: sent_def)
  next
    case bad
    then show ?thesis using assms(2) tc_drop_current_pipeline [of s] by (simp add: sent_def)
  next
    case good
    then show ?thesis using assms(2)
      by (simp add: sent_def tc_pipeline_def step_simps addressed_def)
  qed
  moreover from TcpClient_QueueProcess_pipeline [OF reply(4)] calculation
  have "tc_wf s' \<and> replies os1 = [] \<and> subseq (tc_pipeline s') (tc_pipeline s1)" by simp
  ultimately show ?thesis using reply(5)
    by (auto simp: sent_def [symmetric]
        intro: subseq_order.order_trans [OF list_emb_append_mono [OF subseq_order.order_refl]])
qed (use assms(2) TcpClient_fail_pipeline in \<open>fastforce+\<close>)

interpretation tc: message_pipeline "TcpClient_step L defaultId" tc_pipeline tc_arrivals replies tc_wf
  for L :: "('b, 'u, 't::len word) modbus_lib" and defaultId
proof
  fix s e s' os
  assume wf: "tc_wf s" and step: "TcpClient_step L defaultId s e = Done (s', os)"
  show "tc_wf s' \<and> subseq (replies os @ tc_pipeline s') (tc_pipeline s @ tc_arrivals e)"
  proof (cases e)
    case (Client_message now m)
    then show ?thesis
    proof (cases m)
      case (ModbusMsg mm)
      with Client_message step have
        "TcpClient_QueueProcessUnsafe L now
          (s\<lparr>tc_messageQueue := LimitQueue_Push mm (tc_messageQueue s)\<rparr>) = Done (s', os)"
        by (simp add: TcpClient_small_defs)
      from TcpClient_QueueProcess_pipeline [OF this] tc_push_pipeline [OF wf refl, of mm]
      show ?thesis using Client_message ModbusMsg
        by (auto intro: subseq_order.order_trans)
    qed (use Client_message step wf in \<open>simp_all add: TcpClient_small_defs\<close>)
  next
    case (Client_received exch now ec is_open buffer sz)
    with step TcpClient_on_receive_pipeline wf show ?thesis by fastforce
  next
    case (Client_connected now ec known)
    show ?thesis
    proof (cases "ec = success \<and> known")
      case True
      with step Client_connected have
        "TcpClient_QueueProcessUnsafe L now (s\<lparr>tc_state := Connected\<rparr>) = Done (s', os)"
        by (simp add: TcpClient_small_defs)
      from TcpClient_QueueProcess_pipeline [OF this] wf show ?thesis
        using Client_connected by simp
    qed (use step Client_connected wf in \<open>auto simp: TcpClient_small_defs split: option.splits if_splits\<close>)
  next
    case (Client_sent ec is_open)
    then show ?thesis using step wf TcpClient_fail_pipeline [of _ is_open s s' os]
      by (auto simp: TcpClient_small_defs split: option.splits)
  qed (use step wf in \<open>auto simp: TcpClient_small_defs tc_wf_def tc_pipeline_def split: option.splits\<close>)
qed simp_all

lemma ModbusTcpClient_new:
  "tc_wf (ModbusTcpClient d t)" "tc_pipeline (ModbusTcpClient d t) = []"
  "tc_currentMessage (ModbusTcpClient d t) = None" "lq_items (tc_messageQueue (ModbusTcpClient d t)) = []"
  "tc_state (ModbusTcpClient d t) = Idle"
  by (simp_all add: ModbusTcpClient_def tc_wf_def tc_pipeline_def)

subsection \<open>The client with its outstanding operations\<close>

fun tc_completed :: "('b, 't) tcp_client_event \<Rightarrow> pending_ops \<Rightarrow> pending_ops option" where
  "tc_completed (Client_connected now ec known) p =
     (if p_connects p = 0 then None else Some (p\<lparr>p_connects := p_connects p - 1\<rparr>))"
| "tc_completed (Client_sent ec is_open) p =
     (if p_sends p = 0 then None else Some (p\<lparr>p_sends := p_sends p - 1\<rparr>))"
| "tc_completed (Client_waited ec) p =
     (if p_waits p = 0 then None else Some (p\<lparr>p_waits := p_waits p - 1\<rparr>))"
| "tc_completed (Client_received exch now ec is_open buffer sz) p =
     (if p_receives p = 0 then None else Some (p\<lparr>p_receives := p_receives p - 1\<rparr>))"
| "tc_completed _ p = Some p"

abbreviation tc_io_step :: "('b, 'u, 't::len word) modbus_lib \<Rightarrow> actor_id \<Rightarrow>
    ('b, 't word) tcp_client \<times> pending_ops \<Rightarrow> ('b, 't word) tcp_client_event \<Rightarrow>
    ('b, 't word) effect list \<Rightarrow> ('b, 't word) tcp_client \<times> pending_ops \<Rightarrow> bool" where
  "tc_io_step L defaultId \<equiv> io_step (TcpClient_step L defaultId) tc_completed"

abbreviation tc_io_run :: "('b, 'u, 't::len word) modbus_lib \<Rightarrow> actor_id \<Rightarrow>
    ('b, 't word) tcp_client \<times> pending_ops \<Rightarrow> ('b, 't word) effect list \<Rightarrow>
    ('b, 't word) tcp_client \<times> pending_ops \<Rightarrow> bool" where
  "tc_io_run L defaultId \<equiv> io_run (TcpClient_step L defaultId) tc_completed"

definition tc_new :: "actor_id \<Rightarrow> ('b, 't::len word) tcp_client \<Rightarrow> bool" where
  "tc_new defaultId s \<longleftrightarrow> ModbusTcpClient defaultId (tc_timeout s) = s"

abbreviation tc_reach :: "('b, 'u, 't::len word) modbus_lib \<Rightarrow> actor_id \<Rightarrow>
    ('b, 't word) tcp_client \<times> pending_ops \<Rightarrow> bool" where
  "tc_reach L defaultId \<equiv> io_reach (TcpClient_step L defaultId) tc_completed (tc_new defaultId)"

abbreviation tc_one_transfer :: "('b, 't) tcp_client \<times> pending_ops \<Rightarrow> bool" where
  "tc_one_transfer \<equiv> one_transfer tc_currentMessage"

abbreviation tc_wedged :: "('b, 't) tcp_client \<times> pending_ops \<Rightarrow> bool" where
  "tc_wedged \<equiv> wedged tc_currentMessage"

lemma tc_new_idle:
  assumes "tc_new defaultId s"
  shows "tc_currentMessage s = None" "tc_state s = Idle"
proof -
  from assms have "s = ModbusTcpClient defaultId (tc_timeout s)" by (simp add: tc_new_def)
  then show "tc_currentMessage s = None" "tc_state s = Idle" by (metis ModbusTcpClient_new)+
qed

lemma TcpClient_QueueProcess_transfer:
  assumes "TcpClient_QueueProcessUnsafe L now s = Done (s', os)" and "tc_one_transfer (s, p)"
  shows "tc_one_transfer (s', start_ops os p)"
  using assms(1)
proof (cases rule: TcpClient_QueueProcess_cases)
  case start
  with assms(2) show ?thesis
    by (auto simp: one_transfer_def transfers_def tc_take_def)
qed (use assms(2) in \<open>auto simp: one_transfer_def\<close>)

lemma TcpClient_step_transfer:
  assumes "tc_one_transfer (s, p)" and "tc_io_step L defaultId (s, p) e os (s', p')"
  shows "tc_one_transfer (s', p')"
proof -
  from assms(2) obtain q where 1: "tc_completed e p = Some q"
    "TcpClient_step L defaultId s e = Done (s', os)" "p' = start_ops os q"
    by (auto simp: io_step_iff)
  show ?thesis
  proof (cases e)
    case (Client_message now m)
    with 1 assms(1) show ?thesis
      by (cases m)
        (auto simp: TcpClient_small_defs one_transfer_def
          dest: TcpClient_QueueProcess_transfer [where p = p])
  next
    case (Client_connected now ec known)
    with 1 assms(1) have q: "tc_one_transfer (s\<lparr>tc_state := st\<rparr>, q)" for st
      by (auto simp: one_transfer_def split: if_splits)
    show ?thesis
    proof (cases ec)
      case None
      with 1 Client_connected have "TcpClient_QueueProcessUnsafe L now (s\<lparr>tc_state := Connected\<rparr>) = Done (s', os)"
        by (auto simp: TcpClient_small_defs split: if_splits)
      from TcpClient_QueueProcess_transfer [OF this q] 1(3) show ?thesis by simp
    qed (use 1 Client_connected q in \<open>auto simp: TcpClient_small_defs\<close>)
  next
    case (Client_sent ec is_open)
    with 1 assms(1) have "transfers q = 0"
      by (auto simp: one_transfer_def transfers_def split: if_splits)
    with 1 Client_sent assms(1) TcpClient_fail_None [of _ is_open s s' os q] show ?thesis
      by (auto simp: TcpClient_small_defs one_transfer_def transfers_def split: option.splits if_splits)
  next
    case (Client_received exch now ec is_open buffer sz)
    with 1 assms(1) have zero: "transfers q = 0"
      by (auto simp: one_transfer_def transfers_def split: if_splits)
    from 1 Client_received have "TcpClient_on_receive L exch now ec is_open buffer sz s = Done (s', os)"
      by simp
    then show ?thesis
    proof (cases rule: TcpClient_on_receive_cases)
      case (failed e os1)
      with TcpClient_fail_None [OF failed(3), of q] 1(3) zero show ?thesis
        by (simp add: one_transfer_def)
    next
      case (reply r s1 os1)
      have "tc_one_transfer (s1\<lparr>tc_state := Connected\<rparr>, q)" using zero by (simp add: one_transfer_def)
      from TcpClient_QueueProcess_transfer [OF reply(4) this] 1(3) reply(5) show ?thesis
        by (cases r) simp_all
    qed (use 1 zero in \<open>simp add: one_transfer_def\<close>)
  qed (use 1 assms(1) in \<open>auto simp: TcpClient_small_defs one_transfer_def
      split: if_splits option.splits\<close>)
qed

lemma tc_reach_transfer: "tc_reach L defaultId x \<Longrightarrow> tc_one_transfer x"
  by (erule io_reach_invariant, simp add: one_transfer_def) (rule TcpClient_step_transfer)

lemma TcpClient_QueueProcess_state:
  "TcpClient_QueueProcessUnsafe L now s = Done (s', os) \<Longrightarrow> tc_state s \<in> {Idle, Connected} \<Longrightarrow>
    tc_state s' = tc_state s \<or> tc_state s' = MessageProcess \<and> tc_currentMessage s' \<noteq> None"
  by (erule TcpClient_QueueProcess_cases) (auto simp: tc_take_def)

text \<open>Which states the machine can be in: the enum value for a pending connect is never used.\<close>

definition tc_state_ok :: "('b, 't) tcp_client \<Rightarrow> bool" where
  "tc_state_ok s \<longleftrightarrow> tc_state s \<noteq> WaitConnect \<and>
     (tc_state s = MessageProcess \<longrightarrow> tc_currentMessage s \<noteq> None)"

lemma TcpClient_QueueProcess_state_ok:
  "TcpClient_QueueProcessUnsafe L now s = Done (s', os) \<Longrightarrow> tc_state_ok s \<Longrightarrow> tc_state_ok s'"
  by (erule TcpClient_QueueProcess_cases) (auto simp: tc_state_ok_def tc_take_def)

lemma TcpClient_step_state_ok:
  assumes "tc_state_ok s" and "TcpClient_step L defaultId s e = Done (s', os)"
  shows "tc_state_ok s'"
proof (cases e)
  case (Client_message now m)
  have "tc_state_ok (s\<lparr>tc_messageQueue := q\<rparr>)" for q using assms(1) by (simp add: tc_state_ok_def)
  with Client_message assms show ?thesis
    by (cases m) (auto simp: TcpClient_small_defs intro: TcpClient_QueueProcess_state_ok)
next
  case (Client_connected now ec known)
  with assms show ?thesis
    by (auto simp: TcpClient_small_defs tc_state_ok_def split: option.splits if_splits
        dest: TcpClient_QueueProcess_state)
next
  case (Client_received exch now ec is_open buffer sz)
  with assms(2) have "TcpClient_on_receive L exch now ec is_open buffer sz s = Done (s', os)" by simp
  then show ?thesis
  proof (cases rule: TcpClient_on_receive_cases)
    case (failed e os1)
    with TcpClient_fail_None [OF failed(3)] show ?thesis by (auto simp: tc_state_ok_def)
  next
    case (reply r s1 os1)
    with TcpClient_QueueProcess_state [OF reply(4)] show ?thesis by (auto simp: tc_state_ok_def)
  qed (use assms(1) in simp)
next
  case (Client_sent ec is_open)
  with assms TcpClient_fail_None [of _ is_open s s' os] show ?thesis
    by (auto simp: TcpClient_small_defs tc_state_ok_def split: option.splits)
qed (use assms in \<open>auto simp: TcpClient_small_defs tc_state_ok_def split: option.splits\<close>)

lemma tc_reach_state_ok: "tc_reach L defaultId x \<Longrightarrow> tc_state_ok (fst x)"
proof (erule io_reach_invariant)
  show "tc_new defaultId s \<Longrightarrow> tc_state_ok (fst (s, no_ops))" for s
    by (simp add: tc_state_ok_def tc_new_idle)
qed (auto simp: io_step_iff intro: TcpClient_step_state_ok)

lemma push_nonempty: "lq_items (LimitQueue_Push m q) \<noteq> []"
  by (simp add: LimitQueue_defs Let_def)

lemma tc_wedged_step:
  assumes "tc_wedged (s, p)" and "tc_io_step L defaultId (s, p) e os (s', p')"
  shows "tc_wedged (s', p') \<and> list_all (\<lambda>e. \<not> talks e) os"
proof -
  from assms(2) obtain q where "tc_completed e p = Some q"
    "TcpClient_step L defaultId s e = Done (s', os)" "p' = start_ops os q"
    by (auto simp: io_step_iff)
  with assms(1) show ?thesis
    by (cases e)
      (auto simp: TcpClient_small_defs TcpClient_QueueProcess_eq wedged_def transfers_def
        talks_def split: message.splits option.splits if_splits)
qed

lemma tc_wedged_run:
  "tc_io_run L defaultId x outs y \<Longrightarrow> tc_wedged x \<Longrightarrow>
    tc_wedged y \<and> list_all (\<lambda>e. \<not> talks e) outs"
  by (erule io_run_absorbing) (auto dest: tc_wedged_step)

subsection \<open>Transaction ids on the wire\<close>

text \<open>
  The transaction id of the last frame written, and whether every reply in a list of effects
  passed the frame check and carries the id of the frame written last before it.
\<close>

fun wire_after :: "('b, 'u, 't) modbus_lib \<Rightarrow> 't option \<Rightarrow> ('b, 't) effect list \<Rightarrow> 't option" where
  "wire_after L w [] = w"
| "wire_after L w (Async_send b # os) = wire_after L (Some (tcp_get_tid L b)) os"
| "wire_after L w (_ # os) = wire_after L w os"

fun tids_match :: "('b, 'u, 't) modbus_lib \<Rightarrow> 't option \<Rightarrow> ('b, 't) effect list \<Rightarrow> bool" where
  "tids_match L w [] = True"
| "tids_match L w (Async_send b # os) = tids_match L (Some (tcp_get_tid L b)) os"
| "tids_match L w (Exchange_send a (ModbusMsg m) # os) =
     ((case modbusBuffer m of None \<Rightarrow> False
       | Some b \<Rightarrow> tcp_check L b \<and> w = Some (tcp_get_tid L b)) \<and> tids_match L w os)"
| "tids_match L w (_ # os) = tids_match L w os"

lemma wire_after_append [simp]: "wire_after L w (xs @ ys) = wire_after L (wire_after L w xs) ys"
  by (induction L w xs rule: wire_after.induct) auto

lemma tids_match_append [simp]:
  "tids_match L w (xs @ ys) = (tids_match L w xs \<and> tids_match L (wire_after L w xs) ys)"
  by (induction L w xs rule: tids_match.induct) auto

lemma tids_match_closing:
  "set os \<subseteq> {Io_shutdown, Io_close} \<Longrightarrow> tids_match L w os \<and> wire_after L w os = w"
  by (induction os) auto

definition wire_inv :: "('b, 't) tcp_client \<Rightarrow> 't option \<Rightarrow> bool" where
  "wire_inv s w \<longleftrightarrow> (case tc_currentMessage s of None \<Rightarrow> True | Some c \<Rightarrow> w = Some (cur_id c))"

lemma TcpClient_QueueProcess_wire:
  assumes "tid_readback L" and "TcpClient_QueueProcessUnsafe L now s = Done (s', os)" and "wire_inv s w"
  shows "tids_match L w os \<and> wire_inv s' (wire_after L w os)"
  using assms(2)
proof (cases rule: TcpClient_QueueProcess_cases)
  case start
  then show ?thesis using assms(1)
    by (simp add: wire_inv_def tc_take_def tc_frame_def tid_readback_def)
qed (use assms(3) in \<open>simp_all add: wire_inv_def\<close>)

lemma TcpClient_step_wire:
  assumes "tid_readback L" and "TcpClient_step L defaultId s e = Done (s', os)" and "wire_inv s w"
  shows "tids_match L w os \<and> wire_inv s' (wire_after L w os)"
proof (cases e)
  case (Client_message now m)
  have "wire_inv (s\<lparr>tc_messageQueue := q\<rparr>) w" for q using assms(3) by (simp add: wire_inv_def)
  with TcpClient_QueueProcess_wire [OF assms(1)] Client_message assms show ?thesis
    by (cases m) (auto simp: TcpClient_small_defs)
next
  case (Client_connected now ec known)
  have "wire_inv (s\<lparr>tc_state := st\<rparr>) w" for st using assms(3) by (simp add: wire_inv_def)
  with TcpClient_QueueProcess_wire [OF assms(1)] Client_connected assms(2) show ?thesis
    by (auto simp: TcpClient_small_defs split: option.splits if_splits)
next
  case (Client_received exch now ec is_open buffer sz)
  with assms(2) have "TcpClient_on_receive L exch now ec is_open buffer sz s = Done (s', os)" by simp
  then show ?thesis
  proof (cases rule: TcpClient_on_receive_cases)
    case (failed e os1)
    with TcpClient_fail_None [OF failed(3)] tids_match_closing [of os1 L] show ?thesis
      by (simp add: wire_inv_def)
  next
    case (reply r s1 os1)
    let ?sent = "case r of None \<Rightarrow> [] | Some m \<Rightarrow> [Exchange_send (sourceId (modbusMessageInfo m)) (ModbusMsg m)]"
    from reply(3) assms(3) have "tids_match L w ?sent" and w: "wire_after L w ?sent = w"
      and inv: "wire_inv (s1\<lparr>tc_state := Connected\<rparr>) w"
      by (cases rule: TcpClient_MakeResponse_cases; auto simp: wire_inv_def)+
    with TcpClient_QueueProcess_wire [OF assms(1) reply(4) inv] reply(5) show ?thesis by simp
  qed (use assms(3) in simp)
next
  case (Client_sent ec is_open)
  with assms TcpClient_fail_None [of _ is_open s s' os] tids_match_closing [of os L] show ?thesis
    by (auto simp: TcpClient_small_defs wire_inv_def split: option.splits)
qed (use assms(2,3) in \<open>auto simp: TcpClient_small_defs wire_inv_def split: option.splits\<close>)

lemma TcpClient_run_wire:
  assumes "tid_readback L" and "run (TcpClient_step L defaultId) s es = Done (s', os)" and "wire_inv s w"
  shows "tids_match L w os"
  using assms(2,3)
proof (induction es arbitrary: s w os)
  case (Cons e es)
  then obtain s1 os1 os2 where "TcpClient_step L defaultId s e = Done (s1, os1)"
    "run (TcpClient_step L defaultId) s1 es = Done (s', os2)" "os = os1 @ os2"
    by (auto simp: run_Cons_Done simp del: run.simps)
  with Cons TcpClient_step_wire [OF assms(1)] show ?case by (metis tids_match_append)
qed simp

subsection \<open>Null buffers and frame types\<close>

definition tc_buffers_ok :: "('b, 't) tcp_client \<Rightarrow> bool" where
  "tc_buffers_ok s \<longleftrightarrow> tc_wf s \<and> list_all (\<lambda>m. modbusBuffer m \<noteq> None) (lq_items (tc_messageQueue s))"

lemma tc_buffers_ok_updates [simp]:
  "tc_buffers_ok (s\<lparr>tc_state := st\<rparr>) = tc_buffers_ok s"
  "tc_buffers_ok (s\<lparr>tc_currentMessage := c\<rparr>) = tc_buffers_ok s"
  by (simp_all add: tc_buffers_ok_def)

fun tc_event_ok :: "('b, 't) tcp_client_event \<Rightarrow> bool" where
  "tc_event_ok (Client_message now (ModbusMsg m)) = (modbusBuffer m \<noteq> None)"
| "tc_event_ok _ = True"

lemma TcpClient_QueueProcess_defined:
  assumes "tc_buffers_ok s"
  shows "\<exists>s' os. TcpClient_QueueProcessUnsafe L now s = Done (s', os) \<and> tc_buffers_ok s'"
proof (cases "dropWhile (message_expired now (tc_timeout s)) (lq_items (tc_messageQueue s))")
  case Nil
  then show ?thesis using assms
    unfolding TcpClient_QueueProcess_eq Nil
    by (auto simp: tc_buffers_ok_def tc_wf_def LimitQueue_invar_def)
next
  case (Cons m ms)
  then have suf: "suffix (m # ms) (lq_items (tc_messageQueue s))" by (metis suffix_dropWhile)
  with assms obtain b where b: "modbusBuffer m = Some b"
    and ms: "list_all (\<lambda>m. modbusBuffer m \<noteq> None) ms"
    by (auto simp: tc_buffers_ok_def suffix_def)
  have "tc_buffers_ok (tc_take L m b ms s)"
    using tc_take_wf [OF _ suf, of L b] assms ms by (simp add: tc_buffers_ok_def tc_take_def)
  then show ?thesis using Cons b assms by (simp add: TcpClient_QueueProcess_eq)
qed

lemma TcpClient_step_defined:
  assumes "tc_buffers_ok s" and "tc_event_ok e"
  shows "TcpClient_step L defaultId s e = Throws \<or>
    (\<exists>s' os. TcpClient_step L defaultId s e = Done (s', os) \<and> tc_buffers_ok s')"
proof (cases e)
  case (Client_message now m)
  show ?thesis
  proof (cases m)
    case (ModbusMsg mm)
    let ?s = "s\<lparr>tc_messageQueue := LimitQueue_Push mm (tc_messageQueue s)\<rparr>"
    have "tc_buffers_ok ?s"
      using assms ModbusMsg Client_message tc_push_pipeline [OF _ refl, of s mm]
        lq.push_elements [of "tc_messageQueue s" mm]
      by (auto simp: tc_buffers_ok_def tc_wf_def list_all_iff)
    from TcpClient_QueueProcess_defined [OF this, of L now] show ?thesis
      using Client_message ModbusMsg by (simp add: TcpClient_small_defs)
  qed (use Client_message assms in \<open>auto simp: TcpClient_small_defs\<close>)
next
  case (Client_connected now ec known)
  have "tc_buffers_ok (s\<lparr>tc_state := Connected\<rparr>)" using assms(1) by simp
  from TcpClient_QueueProcess_defined [OF this, of L now] Client_connected assms(1) show ?thesis
    by (auto simp: TcpClient_small_defs split: option.splits)
next
  case (Client_received exch now ec is_open buffer sz)
  obtain r s1 where mk: "TcpClient_MakeResponse L buffer sz s = (r, s1)" by fastforce
  then have "tc_buffers_ok (s1\<lparr>tc_state := Connected\<rparr>)" using assms(1)
    by (cases rule: TcpClient_MakeResponse_cases) auto
  then obtain s2 os2 where ok: "tc_buffers_ok s2" and
    q: "TcpClient_QueueProcessUnsafe L now (s1\<lparr>tc_state := Connected\<rparr>) = Done (s2, os2)"
    using TcpClient_QueueProcess_defined by blast
  have fail: "tc_buffers_ok (fst (TcpClient_fail x is_open s))" for x
    using assms(1) by (simp add: tc_buffers_ok_def tc_wf_def)
  show ?thesis
  proof (cases ec)
    case None
    with Client_received mk q ok assms(1) show ?thesis
      by (simp add: TcpClient_on_receive_def)
  next
    case (Some x)
    with Client_received fail [of x] assms(1) show ?thesis
      by (cases "TcpClient_fail x is_open s") (auto simp: TcpClient_on_receive_def)
  qed
qed (use assms in \<open>auto simp: TcpClient_small_defs tc_buffers_ok_def tc_wf_def TcpClient_fail_def Let_def
      split: option.splits\<close>)

lemma TcpClient_run_defined:
  "tc_buffers_ok s \<Longrightarrow> list_all tc_event_ok es \<Longrightarrow> run (TcpClient_step L defaultId) s es \<noteq> Undefined"
proof (induction es arbitrary: s)
  case (Cons e es)
  show ?case
  proof (cases "TcpClient_step L defaultId s e = Throws")
    case False
    with Cons TcpClient_step_defined [of s e L defaultId] obtain s1 os1 where
      one: "TcpClient_step L defaultId s e = Done (s1, os1)" and "tc_buffers_ok s1" by auto
    with Cons have "run (TcpClient_step L defaultId) s1 es \<noteq> Undefined" by simp
    with one show ?thesis by (cases "run (TcpClient_step L defaultId) s1 es") auto
  qed simp
qed simp

definition tcp_only :: "('b, 'u, 't) modbus_lib \<Rightarrow> ('b, 't) effect \<Rightarrow> bool" where
  "tcp_only L e = (case e of Async_send b \<Rightarrow> mb_type L b = TCP | Async_receive g \<Rightarrow> g = TCP | _ \<Rightarrow> True)"

lemma TcpClient_step_frames:
  assumes "convert_types L" and "TcpClient_step L defaultId s e = Done (s', os)"
  shows "list_all (tcp_only L) os"
  using assms
  by (cases e)
    (auto simp: TcpClient_small_defs TcpClient_QueueProcess_eq TcpClient_on_receive_def
      TcpClient_fail_def and_then_Done_iff Let_def convert_types_def tc_frame_def tcp_only_def
      split: message.splits option.splits if_splits list.splits prod.splits)

subsection \<open>A concrete client, for the witnesses\<close>

definition sample_client :: "(frame, 16 word) tcp_client" where
  "sample_client = ModbusTcpClient 0 1000"

definition client_request :: "16 word \<Rightarrow> (frame, 16 word) modbus_message" where
  "client_request t = ModbusMessage (ModbusMessageInfo 0 3 t) (Some (sample_frame RTU 1 t))"

lemma client_request_simps [simp]:
  "modbusMessageInfo (client_request t) = ModbusMessageInfo 0 3 t"
  "modbusBuffer (client_request t) = Some (sample_frame RTU 1 t)"
  "\<not> message_expired 0 1000 (client_request t)"
  by (simp_all add: client_request_def step_simps message_expired_def TimeoutReached_def
      milliseconds_to_nanoseconds_def ModbusMessageInfo_def)

lemma sample_client_simps [simp]:
  "tc_state sample_client = Idle" "tc_currentMessage sample_client = None"
  "tc_messageQueue sample_client = \<lparr>lq_items = [], lq_maxSize = 2 ^ 64 - 1\<rparr>"
  "tc_timeout sample_client = 1000" "tc_transactionIdGenerator sample_client = 0"
  "tc_id sample_client = 0"
  by (simp_all add: sample_client_def ModbusTcpClient_def LimitQueue_default_def size_t_max_def)

text \<open>The client with one request queued, and while that request is on the wire.\<close>

definition client_queued :: "(frame, 16 word) tcp_client" where
  "client_queued = sample_client\<lparr>tc_messageQueue := \<lparr>lq_items = [client_request 7], lq_maxSize = 2 ^ 64 - 1\<rparr>\<rparr>"

definition client_busy :: "(frame, 16 word) tcp_client" where
  "client_busy = tc_take sample_lib (client_request 7) (sample_frame RTU 1 7) [] client_queued"

lemma client_queued_simps [simp]:
  "tc_state client_queued = Idle" "tc_currentMessage client_queued = None"
  "tc_messageQueue client_queued = \<lparr>lq_items = [client_request 7], lq_maxSize = 2 ^ 64 - 1\<rparr>"
  "tc_timeout client_queued = 1000" "tc_transactionIdGenerator client_queued = 0"
  by (simp_all add: client_queued_def)

lemma client_busy_simps [simp]:
  "tc_state client_busy = MessageProcess"
  "tc_currentMessage client_busy = Some \<lparr>cur_message = (client_request 7)\<lparr>modbusBuffer :=
     Some \<lparr>fr_type = TCP, fr_unit = 1, fr_tid = 1, fr_size = 9, fr_ok = True\<rparr>\<rparr>, cur_id = 1\<rparr>"
  "tc_messageQueue client_busy = \<lparr>lq_items = [], lq_maxSize = 2 ^ 64 - 1\<rparr>"
  "tc_timeout client_busy = 1000"
  by (simp_all add: client_busy_def tc_take_def tc_frame_def sample_frame_def)

lemma client_first_request:
  "tc_io_step sample_lib 0 (sample_client, no_ops) (Client_message 0 (ModbusMsg (client_request 7)))
     [Async_connect] (client_queued, no_ops\<lparr>p_connects := 1\<rparr>)"
  by (simp add: io_step_iff TcpClient_small_defs TcpClient_QueueProcess_eq client_queued_def
      LimitQueue_Push_def LimitQueue_defs no_ops_def)

lemma client_first_connect:
  "tc_io_step sample_lib 0 (client_queued, no_ops\<lparr>p_connects := 1\<rparr>) (Client_connected 0 None True)
     [Async_send (sample_frame TCP 1 1)] (client_busy, no_ops\<lparr>p_sends := 1\<rparr>)"
  by (simp add: io_step_iff TcpClient_small_defs TcpClient_QueueProcess_eq client_busy_def
      tc_take_def tc_frame_def sample_frame_def no_ops_def)

lemma client_first_sent:
  "tc_io_step sample_lib 0 (client_busy, no_ops\<lparr>p_sends := 1\<rparr>) (Client_sent None True)
     [Async_wait 1000, Async_receive TCP] (client_busy, no_ops\<lparr>p_receives := 1, p_waits := 1\<rparr>)"
  by (simp add: io_step_iff TcpClient_small_defs no_ops_def)

lemma client_reach:
  "tc_reach sample_lib 0 (client_queued, no_ops\<lparr>p_connects := 1\<rparr>)"
  "tc_reach sample_lib 0 (client_busy, no_ops\<lparr>p_sends := 1\<rparr>)"
  "tc_reach sample_lib 0 (client_busy, no_ops\<lparr>p_receives := 1, p_waits := 1\<rparr>)"
proof -
  have "tc_new 0 sample_client" by (simp add: tc_new_def) (simp add: sample_client_def)
  then have "tc_reach sample_lib 0 (sample_client, no_ops)" by (rule reach_new)
  then show 1: "tc_reach sample_lib 0 (client_queued, no_ops\<lparr>p_connects := 1\<rparr>)"
    by (rule reach_step [OF _ client_first_request])
  show 2: "tc_reach sample_lib 0 (client_busy, no_ops\<lparr>p_sends := 1\<rparr>)"
    by (rule reach_step [OF 1 client_first_connect])
  show "tc_reach sample_lib 0 (client_busy, no_ops\<lparr>p_receives := 1, p_waits := 1\<rparr>)"
    by (rule reach_step [OF 2 client_first_sent])
qed

text \<open>A complete exchange: connect, send, and the answer with the id that was sent.\<close>

lemma client_exchange:
  "run (TcpClient_step sample_lib 0) sample_client
     [Client_message 0 (ModbusMsg (client_request 7)), Client_connected 0 None True,
      Client_sent None True, Client_received True 0 None True (sample_frame TCP 1 1) 9] =
   Done (client_busy\<lparr>tc_state := Connected, tc_currentMessage := None\<rparr>,
     [Async_connect, Async_send (sample_frame TCP 1 1), Async_wait 1000, Async_receive TCP, Timer_cancel,
      Exchange_send 3 (ModbusMsg (ModbusMessage (ModbusMessageInfo 0 3 7) (Some (sample_frame TCP 1 1))))])"
proof -
  have "TcpClient_step sample_lib 0 client_busy (Client_received True 0 None True (sample_frame TCP 1 1) 9) =
    Done (client_busy\<lparr>tc_state := Connected, tc_currentMessage := None\<rparr>,
     [Timer_cancel, Exchange_send 3
       (ModbusMsg (ModbusMessage (ModbusMessageInfo 0 3 7) (Some (sample_frame TCP 1 1))))])"
    by (simp add: TcpClient_on_receive_def TcpClient_MakeResponse_def TcpClient_QueueProcess_eq
        step_simps ModbusMessageInfo_def sample_frame_def)
  with client_first_request client_first_connect client_first_sent show ?thesis
    by (simp add: io_step_iff del: TcpClient_step.simps)
qed

subsection \<open>Properties\<close>

text \<open>
  C11: over every run of a new TCP client the replies it sends are, in order and each at most
  once, infos of requests it received: each goes to the actor the request came from and carries
  the request's own transaction id.
\<close>

theorem TcpClient_replies_in_order:
  assumes "run (TcpClient_step L defaultId) (ModbusTcpClient defaultId timeout) es = Done (s', os)"
  shows "subseq (replies os) (concat (map tc_arrivals es)) \<and>
    (\<forall>(a, i) \<in> set (replies os). a = sourceId i)"
proof -
  have sub: "subseq (replies os) (concat (map tc_arrivals es))"
    by (rule tc.answers_in_order [OF ModbusTcpClient_new(1,2) assms])
  have "\<forall>(a, i) \<in> set (concat (map tc_arrivals es)). a = sourceId i"
    using tc_arrivals_addressed by fastforce
  with subseq_set [OF sub] have "\<forall>(a, i) \<in> set (replies os). a = sourceId i" by blast
  with sub show ?thesis by blast
qed

theorem TcpClient_replies_in_order_witness:
  "subseq [(3, ModbusMessageInfo 0 3 7)] [(3, ModbusMessageInfo 0 3 (7 :: 16 word))]"
  using TcpClient_replies_in_order [OF client_exchange [unfolded sample_client_def]]
  by (simp add: addressed_def step_simps ModbusMessageInfo_def)

text \<open>
  C18: over every run of a new TCP client each reply it passes on is a frame that passed the
  frame check and whose transaction id is the one of the frame the client wrote last: an answer
  to an older request, or a frame out of the blue, is never passed on.
\<close>

theorem TcpClient_replies_match_wire:
  assumes "tid_readback L"
    and "run (TcpClient_step L defaultId) (ModbusTcpClient defaultId timeout) es = Done (s', os)"
  shows "tids_match L None os"
  by (rule TcpClient_run_wire [OF assms]) (simp add: wire_inv_def ModbusTcpClient_new)

theorem TcpClient_replies_match_wire_witness:
  "tids_match sample_lib None [Async_send (sample_frame TCP 1 1), Exchange_send 3
     (ModbusMsg (ModbusMessage (ModbusMessageInfo 0 3 (7 :: 16 word)) (Some (sample_frame TCP 1 1))))]"
  using TcpClient_replies_match_wire [OF sample_lib_lawful(1) client_exchange [unfolded sample_client_def]]
  by simp

text \<open>
  C25: in every reachable state of a TCP client, with its operations completing at any time and
  with any result, at most one send or receive is in flight, and while one is there is a message
  in process.
\<close>

theorem TcpClient_one_transfer:
  assumes "tc_reach L defaultId (s, p)"
  shows "p_sends p + p_receives p \<le> 1 \<and>
    (p_sends p + p_receives p = 1 \<longrightarrow> tc_currentMessage s \<noteq> None)"
  using tc_reach_transfer [OF assms] by (simp add: one_transfer_def transfers_def)

theorem TcpClient_one_transfer_witness:
  "tc_currentMessage client_busy \<noteq> None \<and> p_sends (no_ops\<lparr>p_sends := 1\<rparr>) = 1"
  using TcpClient_one_transfer [OF client_reach(2)] by (simp add: no_ops_def)

text \<open>
  C32: once a reply arrives whose size the frame library refuses, the TCP client is dead: the
  message stays in process with nothing in flight, and whatever happens afterwards, including
  new connections, it never sends another frame and never another reply.
\<close>

theorem TcpClient_dead_after_bad_size:
  assumes "tc_reach L defaultId (s, p)"
    and "tc_io_step L defaultId (s, p) (Client_received True now success is_open buffer sz) os1 x"
    and "mb_set_adu_size L sz buffer = None"
    and "tc_io_run L defaultId x os y"
  shows "tc_wedged y \<and> list_all (\<lambda>e. \<not> talks e) (os1 @ os)"
proof -
  obtain s' p' where x: "x = (s', p')" by fastforce
  from assms(1) have one: "tc_one_transfer (s, p)" by (rule tc_reach_transfer)
  from assms(2) x one have "transfers (p\<lparr>p_receives := p_receives p - 1\<rparr>) = 0"
    and "tc_currentMessage s \<noteq> None"
    by (auto simp: io_step_iff one_transfer_def transfers_def split: if_splits)
  with assms(2,3) x have "tc_wedged (s', p') \<and> list_all (\<lambda>e. \<not> talks e) os1"
    by (auto simp: io_step_iff TcpClient_on_receive_def TcpClient_MakeResponse_def and_then_Done_iff
        TcpClient_QueueProcess_eq wedged_def talks_def split: if_splits option.splits)
  with tc_wedged_run [OF assms(4)] x show ?thesis by simp
qed

theorem TcpClient_dead_after_bad_size_witness:
  "tc_wedged (client_busy\<lparr>tc_state := Connected\<rparr>, no_ops\<lparr>p_waits := 1\<rparr>)"
proof -
  have "tc_io_step sample_lib 0 (client_busy, no_ops\<lparr>p_receives := 1, p_waits := 1\<rparr>)
      (Client_received True 0 None True (sample_frame TCP 1 1) 300) [Timer_cancel]
      (client_busy\<lparr>tc_state := Connected\<rparr>, no_ops\<lparr>p_waits := 1\<rparr>)"
    by (simp add: io_step_iff TcpClient_on_receive_def TcpClient_MakeResponse_def
        TcpClient_QueueProcess_eq no_ops_def)
  from TcpClient_dead_after_bad_size [OF client_reach(3) this _ io_stop] show ?thesis
    by simp
qed

text \<open>
  a TCP client never runs into undefined behaviour as long as the requests it is sent carry
  a buffer: a run is defined or ends in an escaping exception, and by the definition of the
  connect handler only a lost remote endpoint throws.
\<close>

lemma TcpClient_never_undefined:
  assumes "list_all tc_event_ok es"
  shows "run (TcpClient_step L defaultId) (ModbusTcpClient defaultId timeout) es \<noteq> Undefined \<and>
    (TcpClient_step L defaultId s e = Throws \<longleftrightarrow> (\<exists>now. e = Client_connected now success False))"
proof
  show "run (TcpClient_step L defaultId) (ModbusTcpClient defaultId timeout) es \<noteq> Undefined"
    by (rule TcpClient_run_defined [OF _ assms]) (simp add: tc_buffers_ok_def ModbusTcpClient_new)
  have throws: "TcpClient_QueueProcessUnsafe L now s \<noteq> Throws" for now s
    by (auto simp: TcpClient_QueueProcess_eq split: list.split option.split)
  then show "TcpClient_step L defaultId s e = Throws \<longleftrightarrow> (\<exists>now. e = Client_connected now success False)"
  proof (cases e)
    case (Client_received exch now ec is_open buffer sz)
    obtain r s1 where mk: "TcpClient_MakeResponse L buffer sz s = (r, s1)" by fastforce
    show ?thesis
      using throws [of now "s1\<lparr>tc_state := Connected\<rparr>"] mk Client_received
      by (cases "TcpClient_QueueProcessUnsafe L now (s1\<lparr>tc_state := Connected\<rparr>)")
        (auto simp: TcpClient_on_receive_def split: option.split prod.split)
  qed (auto simp: TcpClient_small_defs split: message.split option.split)
qed

theorem TcpClient_never_undefined_witness:
  "run (TcpClient_step sample_lib 0) (ModbusTcpClient 0 1000)
     [Client_message 0 (ModbusMsg (client_request 7)), Client_connected 0 None True,
      Client_sent None True, Client_message 0 (ModbusMsg (client_request 8))] \<noteq> Undefined"
  by (rule TcpClient_never_undefined [THEN conjunct1]) simp

text \<open>
  when a reply of an acceptable size arrives, the request in process is finished, its
  sender gets the reply exactly if the frame check passes and the transaction id is the one that
  was sent, and the oldest unexpired request is sent in the same step.
\<close>

lemma TcpClient_receive_progress:
  assumes "tc_currentMessage s = Some c" and "mb_set_adu_size L sz buffer = Some b"
    and "dropWhile (message_expired now (tc_timeout s)) (lq_items (tc_messageQueue s)) = m # ms"
    and "modbusBuffer m = Some rb"
  shows "TcpClient_on_receive L True now success is_open buffer sz s =
    Done (tc_take L m rb ms (s\<lparr>tc_currentMessage := None, tc_state := Connected\<rparr>),
      Timer_cancel #
      (if tcp_check L b \<and> tcp_get_tid L b = cur_id c
       then [Exchange_send (sourceId (modbusMessageInfo (cur_message c)))
          (ModbusMsg \<lparr>modbusMessageInfo = modbusMessageInfo (cur_message c), modbusBuffer = Some b\<rparr>)]
       else []) @ [Async_send (tc_frame L s rb)])"
  using assms
  by (auto simp: TcpClient_on_receive_def TcpClient_MakeResponse_def TcpClient_QueueProcess_eq
      step_simps tc_frame_def Let_def)

theorem TcpClient_receive_progress_witness:
  "\<exists>s'. TcpClient_on_receive sample_lib True 0 None True (sample_frame TCP 1 1) 9
      (client_busy\<lparr>tc_messageQueue := \<lparr>lq_items = [client_request 8], lq_maxSize = 9\<rparr>\<rparr>) =
    Done (s', [Timer_cancel, Exchange_send 3 (ModbusMsg \<lparr>modbusMessageInfo = ModbusMessageInfo 0 3 7,
      modbusBuffer = Some (sample_frame TCP 1 1)\<rparr>),
      Async_send (tc_frame sample_lib client_busy (sample_frame RTU 1 8))])"
proof -
  let ?s = "client_busy\<lparr>tc_messageQueue := \<lparr>lq_items = [client_request 8], lq_maxSize = 9\<rparr>\<rparr>"
  have "dropWhile (message_expired 0 (tc_timeout ?s)) (lq_items (tc_messageQueue ?s)) = client_request 8 # []"
    by simp
  from TcpClient_receive_progress [OF _ _ this, of _ sample_lib 9 "sample_frame TCP 1 1"
      "sample_frame TCP 1 1" "sample_frame RTU 1 8" True]
  show ?thesis by (simp add: tc_frame_def ModbusMessageInfo_def sample_frame_def)
qed

text \<open>
  C34: when a send or a receive fails, the request in process is given up without a reply and
  nothing is started. After an abort (the timeout) the client goes on using the connection; after
  any other error it closes the socket and is idle, so that the next request connects again.
\<close>

theorem TcpClient_error_recovery:
  assumes "TcpClient_step L defaultId s (Client_sent (Some e) is_open) = Done (s1, os1)"
    and "TcpClient_step L defaultId s (Client_received True now (Some e) is_open buffer sz) = Done (s2, os2)"
    and "e \<noteq> Operation_aborted"
    and "TcpClient_step L defaultId s2 (Client_message now' (ModbusMsg m)) = Done (s3, os3)"
  shows "s1 = s2 \<and> tc_currentMessage s2 = None \<and> tc_state s2 = Idle \<and>
    tc_messageQueue s2 = tc_messageQueue s \<and> os2 = Timer_cancel # os1 \<and>
    os1 = (if is_open then [Io_shutdown, Io_close] else []) \<and> os3 = [Async_connect]"
  using assms
  by (auto simp: TcpClient_small_defs TcpClient_on_receive_def TcpClient_fail_def
      TcpClient_QueueProcess_eq push_nonempty Let_def split: if_splits)

theorem TcpClient_error_recovery_witness:
  "\<exists>s2 s3. TcpClient_step sample_lib 0 client_busy (Client_received True 0 (Some Eof) True (sample_frame TCP 1 1) 0) =
      Done (s2, [Timer_cancel, Io_shutdown, Io_close]) \<and> tc_state s2 = Idle \<and>
    TcpClient_step sample_lib 0 s2 (Client_message 0 (ModbusMsg (client_request 8))) =
      Done (s3, [Async_connect])"
proof -
  obtain s1 os1 where 1: "TcpClient_step sample_lib 0 client_busy (Client_sent (Some Eof) True) = Done (s1, os1)"
    by (cases "TcpClient_fail Eof True client_busy") (simp add: TcpClient_small_defs)
  obtain s2 os2 where 2: "TcpClient_step sample_lib 0 client_busy
      (Client_received True 0 (Some Eof) True (sample_frame TCP 1 1) 0) = Done (s2, os2)"
    by (cases "TcpClient_fail Eof True client_busy") (simp add: TcpClient_on_receive_def)
  have "\<exists>s3 os3. TcpClient_step sample_lib 0 s2 (Client_message 0 (ModbusMsg (client_request 8))) = Done (s3, os3)"
    using 2 by (auto simp: TcpClient_small_defs TcpClient_on_receive_def TcpClient_fail_def
        TcpClient_QueueProcess_eq Let_def)
  with TcpClient_error_recovery [OF 1 2] 2 show ?thesis by fastforce
qed

text \<open>
  the state \<^verbatim>\<open>WaitConnect\<close> is never reached, and a client in
  \<^verbatim>\<open>MessageProcess\<close> has a message in process.
\<close>

lemma TcpClient_never_waits_for_connect:
  assumes "tc_reach L defaultId (s, p)"
  shows "tc_state s \<noteq> WaitConnect \<and> (tc_state s = MessageProcess \<longrightarrow> tc_currentMessage s \<noteq> None)"
  using tc_reach_state_ok [OF assms] by (simp add: tc_state_ok_def)

theorem TcpClient_never_waits_for_connect_witness:
  "tc_state client_queued \<noteq> WaitConnect"
  using TcpClient_never_waits_for_connect [OF client_reach(1)] by simp

text \<open>
  C36: as a consequence the client does not know that it is connecting: there is a reachable
  state with two connects of the same socket in flight, and one in which a request is being sent
  while the failure of the other connect has put the machine back to idle, so that the next
  request starts yet another connect on the live connection.
\<close>

theorem TcpClient_concurrent_connects:
  "\<exists>s p s' p'. tc_reach sample_lib 0 (s, p) \<and> p_connects p = 2 \<and>
     tc_reach sample_lib 0 (s', p') \<and> tc_state s' = Idle \<and> p_sends p' = 1 \<and>
     tc_currentMessage s' \<noteq> None \<and>
     (\<exists>y. tc_io_step sample_lib 0 (s', p') (Client_message 0 (ModbusMsg (client_request 8))) [Async_connect] y)"
proof -
  let ?s = "client_queued\<lparr>tc_messageQueue := \<lparr>lq_items = [client_request 7, client_request 8], lq_maxSize = 2 ^ 64 - 1\<rparr>\<rparr>"
  let ?p = "no_ops\<lparr>p_connects := 2\<rparr>"
  let ?busy = "tc_take sample_lib (client_request 7) (sample_frame RTU 1 7) [client_request 8] ?s"
  let ?idle = "?busy\<lparr>tc_state := Idle\<rparr>"
  let ?q = "no_ops\<lparr>p_sends := 1, p_connects := 1\<rparr>" and ?q' = "no_ops\<lparr>p_sends := 1\<rparr>"
  have "tc_io_step sample_lib 0 (client_queued, no_ops\<lparr>p_connects := 1\<rparr>)
      (Client_message 0 (ModbusMsg (client_request 8))) [Async_connect] (?s, ?p)"
    by (simp add: io_step_iff TcpClient_small_defs TcpClient_QueueProcess_eq
        LimitQueue_Push_def LimitQueue_defs no_ops_def)
  from reach_step [OF client_reach(1) this] have two: "tc_reach sample_lib 0 (?s, ?p)" .
  have "tc_io_step sample_lib 0 (?s, ?p) (Client_connected 0 None True)
      [Async_send (tc_frame sample_lib ?s (sample_frame RTU 1 7))] (?busy, ?q)"
    by (simp add: io_step_iff TcpClient_small_defs TcpClient_QueueProcess_eq tc_take_def tc_frame_def
        no_ops_def)
  from reach_step [OF two this] have sending: "tc_reach sample_lib 0 (?busy, ?q)" .
  have "tc_io_step sample_lib 0 (?busy, ?q) (Client_connected 0 (Some (Other_error 106)) True) [] (?idle, ?q')"
    by (simp add: io_step_iff TcpClient_small_defs no_ops_def)
  from reach_step [OF sending this] have idle: "tc_reach sample_lib 0 (?idle, ?q')" .
  have "\<exists>y. tc_io_step sample_lib 0 (?idle, ?q') (Client_message 0 (ModbusMsg (client_request 8))) [Async_connect] y"
    by (auto simp: io_step_iff TcpClient_small_defs TcpClient_QueueProcess_eq LimitQueue_Push_def
        LimitQueue_defs Let_def)
  with two idle show ?thesis
    by (intro exI [of _ ?s] exI [of _ ?p] exI [of _ ?idle] exI [of _ ?q'])
      (simp add: tc_take_def no_ops_def)
qed

text \<open>
  every frame a TCP client writes is a Modbus TCP frame and every frame it waits for is
  one, whatever type the request had.
\<close>

lemma TcpClient_frame_types:
  assumes "convert_types L"
    and "run (TcpClient_step L defaultId) (ModbusTcpClient defaultId timeout) es = Done (s', os)"
  shows "list_all (tcp_only L) os"
  by (rule run_outputs [where I = "\<lambda>s. True", OF _ _ assms(2)])
    (use TcpClient_step_frames [OF assms(1)] in blast)+

theorem TcpClient_frame_types_witness:
  "tcp_only sample_lib (Async_send (sample_frame TCP 1 1) :: (frame, 16 word) effect)"
  using TcpClient_frame_types [OF sample_lib_lawful(2) client_exchange [unfolded sample_client_def]]
  by simp

end
