(* ===== verification/Draining.thy ===== *)
theory Draining
  imports Rtu_Master Tcp_Client
begin

text \<open>
  Progress of the two kinds of master. The contract of a master (see its theory) says that it
  answers nothing that was not asked, and nothing twice; here every request is answered: when
  the transfers succeed, the replies are acceptable and no request expires while it waits, a
  master answers its message in process and then its whole queue, in order, and is idle again.
\<close>

subsection \<open>The interface\<close>

text \<open>
  A server with a pipeline of requests that is driven by one service (a list of events) for each
  request: as long as it is ready for the services to come, one of them answers the oldest
  request and leaves the server ready for the rest.
\<close>

locale pipeline_server =
  fixes step :: "'s \<Rightarrow> 'e \<Rightarrow> ('s \<times> 'o list) outcome"
    and pipeline :: "'s \<Rightarrow> 'k list"
    and answers :: "'o list \<Rightarrow> 'k list"
    and service :: "'r \<Rightarrow> 'e list"
    and ready :: "'s \<Rightarrow> 'r list \<Rightarrow> bool"
  assumes serve_one: "ready s (r # rs) \<Longrightarrow> \<exists>k ks s' os. pipeline s = k # ks \<and>
      run step s (service r) = Done (s', os) \<and> answers os = [k] \<and> pipeline s' = ks \<and>
      (ks \<noteq> [] \<longrightarrow> ready s' rs)"
    and answers_append: "answers (xs @ ys) = answers xs @ answers ys"
    and answers_Nil: "answers [] = []"
begin

lemma drains:
  assumes "ready s rs" and "length rs = length (pipeline s)" and "rs \<noteq> []"
  shows "\<exists>s' os. run step s (concat (map service rs)) = Done (s', os) \<and>
    answers os = pipeline s \<and> pipeline s' = []"
  using assms
proof (induction rs arbitrary: s)
  case Nil
  then show ?case by simp
next
  case (Cons r rs)
  from serve_one [OF Cons.prems(1)] obtain k ks s1 os1 where
    one: "pipeline s = k # ks" "run step s (service r) = Done (s1, os1)" "answers os1 = [k]"
      "pipeline s1 = ks" and still: "ks \<noteq> [] \<longrightarrow> ready s1 rs" by blast
  show ?case
  proof (cases "ks = []")
    case True
    with one Cons.prems(2) show ?thesis by auto
  next
    case False
    with one Cons.prems(2) have "length rs = length (pipeline s1)" and "rs \<noteq> []" by auto
    with Cons.IH still False obtain s2 os2 where
      two: "run step s1 (concat (map service rs)) = Done (s2, os2)" "answers os2 = pipeline s1"
        "pipeline s2 = []" by blast
    with run_append [OF one(2) two(1)] one show ?thesis by (simp add: answers_append)
  qed
qed

end

subsection \<open>The serial master\<close>

text \<open>
  One request's service: the write of its frame completes, then the read of the answer, at some
  time, in a buffer and of a size.
\<close>

definition serial_service :: "chrono_rep \<times> 'b \<times> nat \<Rightarrow> ('b, 't) rtu_master_event list" where
  "serial_service r = (case r of (now, b, n) \<Rightarrow> [Master_written success, Master_read True now success b n])"

definition serial_acceptable :: "('b, 'u, 't) modbus_lib \<Rightarrow> chrono_rep \<times> 'b \<times> nat \<Rightarrow> bool" where
  "serial_acceptable L r \<longleftrightarrow> (case r of (now, b, n) \<Rightarrow>
     (case mb_set_adu_size L n b of None \<Rightarrow> False | Some b' \<Rightarrow> mb_check L b'))"

text \<open>A request that can be served at any of the given times.\<close>

definition servable :: "chrono_rep \<Rightarrow> (chrono_rep \<times> 'b \<times> nat) list \<Rightarrow> ('b, 't) modbus_message \<Rightarrow> bool" where
  "servable timeout rs m \<longleftrightarrow> modbusBuffer m \<noteq> None \<and> list_all (\<lambda>(now, b, n). \<not> message_expired now timeout m) rs"

lemma servable_Cons:
  "servable timeout ((now, b, n) # rs) m \<longleftrightarrow> \<not> message_expired now timeout m \<and> servable timeout rs m"
  by (auto simp: servable_def)

definition serial_ready :: "('b, 'u, 't) modbus_lib \<Rightarrow> ('b, 't) rtu_master \<Rightarrow> (chrono_rep \<times> 'b \<times> nat) list \<Rightarrow> bool" where
  "serial_ready L s rs \<longleftrightarrow> rm_currentMessage s \<noteq> None \<and> list_all (serial_acceptable L) rs \<and>
     list_all (servable (rm_timeout s) rs) (lq_items (rm_messageQueue s))"

interpretation rms: pipeline_server "RtuMaster_step L d" rm_pipeline replies serial_service "serial_ready L"
  for L :: "('b, 'u, 't::len word) modbus_lib" and d
proof
  fix s :: "('b, 't word) rtu_master" and r and rs :: "(chrono_rep \<times> 'b \<times> nat) list"
  assume ready: "serial_ready L s (r # rs)"
  obtain now b n where r: "r = (now, b, n)" by (cases r) auto
  from ready obtain c b' where c: "rm_currentMessage s = Some c" "mb_set_adu_size L n b = Some b'" "mb_check L b'"
    by (auto simp: serial_ready_def serial_acceptable_def r split: option.splits)
  note handlers = serial_service_def r RtuMaster_small_defs RtuMaster_on_read_def RtuMaster_MakeResponse_def
    RtuMaster_QueueProcess_eq step_simps rm_pipeline_def
  show "\<exists>k ks s' os. rm_pipeline s = k # ks \<and> run (RtuMaster_step L d) s (serial_service r) = Done (s', os) \<and>
      replies os = [k] \<and> rm_pipeline s' = ks \<and> (ks \<noteq> [] \<longrightarrow> serial_ready L s' rs)"
  proof (cases "lq_items (rm_messageQueue s)")
    case Nil
    with c show ?thesis by (simp add: handlers addressed_def)
  next
    case (Cons m ms)
    with ready obtain rb where m: "modbusBuffer m = Some rb" "\<not> message_expired now (rm_timeout s) m"
      by (auto simp: serial_ready_def servable_Cons r servable_def)
    have "list_all (servable (rm_timeout s) rs) ms"
      using ready Cons by (simp add: serial_ready_def servable_Cons r list_all_iff)
    with Cons c m ready show ?thesis
      by (simp add: handlers addressed_def serial_ready_def pipeline_of_def queue_infos_def)
  qed
qed simp_all

subsection \<open>The TCP client\<close>

definition client_service :: "chrono_rep \<times> 'b \<times> nat \<Rightarrow> ('b, 't) tcp_client_event list" where
  "client_service r = (case r of (now, b, n) \<Rightarrow>
     [Client_sent success True, Client_received True now success True b n])"

text \<open>Answers that carry consecutive transaction ids, the first one \<open>t\<close>.\<close>

fun client_acceptable :: "('b, 'u, 't::len word) modbus_lib \<Rightarrow> 't word \<Rightarrow> (chrono_rep \<times> 'b \<times> nat) list \<Rightarrow> bool" where
  "client_acceptable L t [] = True"
| "client_acceptable L t ((now, b, n) # rs) =
     ((case mb_set_adu_size L n b of None \<Rightarrow> False | Some b' \<Rightarrow> tcp_check L b' \<and> tcp_get_tid L b' = t) \<and>
      client_acceptable L (t + 1) rs)"

definition client_ready :: "('b, 'u, 't::len word) modbus_lib \<Rightarrow> ('b, 't word) tcp_client \<Rightarrow>
    (chrono_rep \<times> 'b \<times> nat) list \<Rightarrow> bool" where
  "client_ready L s rs \<longleftrightarrow> (case tc_currentMessage s of None \<Rightarrow> False
     | Some c \<Rightarrow> tc_transactionIdGenerator s = cur_id c \<and> client_acceptable L (cur_id c) rs \<and>
         list_all (servable (tc_timeout s) rs) (lq_items (tc_messageQueue s)))"

interpretation tcs: pipeline_server "TcpClient_step L d" tc_pipeline replies client_service "client_ready L"
  for L :: "('b, 'u, 't::len word) modbus_lib" and d
proof
  fix s :: "('b, 't word) tcp_client" and r and rs :: "(chrono_rep \<times> 'b \<times> nat) list"
  assume ready: "client_ready L s (r # rs)"
  obtain now b n where r: "r = (now, b, n)" by (cases r) auto
  from ready obtain c b' where c: "tc_currentMessage s = Some c" "mb_set_adu_size L n b = Some b'"
      "tcp_check L b'" "tcp_get_tid L b' = cur_id c" "tc_transactionIdGenerator s = cur_id c"
    by (auto simp: client_ready_def r split: option.splits)
  note handlers = client_service_def r TcpClient_small_defs TcpClient_on_receive_def TcpClient_MakeResponse_def
    TcpClient_QueueProcess_eq step_simps tc_pipeline_def
  show "\<exists>k ks s' os. tc_pipeline s = k # ks \<and> run (TcpClient_step L d) s (client_service r) = Done (s', os) \<and>
      replies os = [k] \<and> tc_pipeline s' = ks \<and> (ks \<noteq> [] \<longrightarrow> client_ready L s' rs)"
  proof (cases "lq_items (tc_messageQueue s)")
    case Nil
    with c show ?thesis by (simp add: handlers addressed_def)
  next
    case (Cons m ms)
    with ready c(1) obtain rb where m: "modbusBuffer m = Some rb" "\<not> message_expired now (tc_timeout s) m"
      by (auto simp: client_ready_def servable_Cons r servable_def)
    have "list_all (servable (tc_timeout s) rs) ms" and "client_acceptable L (cur_id c + 1) rs"
      using ready Cons c(1) by (simp_all add: client_ready_def servable_Cons r list_all_iff)
    with Cons c m show ?thesis
      by (simp add: handlers addressed_def client_ready_def pipeline_of_def queue_infos_def tc_take_def)
  qed
qed simp_all

subsection \<open>Properties\<close>

text \<open>
  C16: a busy serial master answers every request it holds: with one successful write and one
  acceptable answer for the message in process and for each queued request, none of which
  expires meanwhile, it replies to all of them, in the order they came and each to its source,
  and has nothing left.
\<close>

theorem RtuMaster_serves_all:
  assumes "serial_ready L s rs" and "length rs = length (rm_pipeline s)"
  shows "\<exists>s' os. run (RtuMaster_step L defaultId) s (concat (map serial_service rs)) = Done (s', os) \<and>
    replies os = rm_pipeline s \<and> rm_pipeline s' = []"
proof (rule rms.drains [OF assms])
  from assms show "rs \<noteq> []" by (cases rs) (auto simp: serial_ready_def rm_pipeline_def)
qed

theorem RtuMaster_serves_all_witness:
  "\<exists>s' os. run (RtuMaster_step sample_lib 0)
      (sample_busy\<lparr>rm_messageQueue := LimitQueue_Push (sample_request 2) LimitQueue_default\<rparr>)
      (concat (map serial_service [(0, sample_frame RTU 1 0, 9), (0, sample_frame RTU 1 0, 9)])) = Done (s', os) \<and>
    replies os = [(3, ModbusMessageInfo 0 3 1), (3, ModbusMessageInfo 0 3 2)]"
proof -
  let ?s = "sample_busy\<lparr>rm_messageQueue := LimitQueue_Push (sample_request 2) LimitQueue_default\<rparr>"
  let ?r = "(0, sample_frame RTU 1 0, 9) :: chrono_rep \<times> frame \<times> nat"
  have "serial_ready sample_lib ?s [?r, ?r]"
    by (simp add: serial_ready_def serial_acceptable_def servable_def sample_busy_def sample_master_def)
  moreover have pipe: "rm_pipeline ?s = [(3, ModbusMessageInfo 0 3 1), (3, ModbusMessageInfo 0 3 2)]"
    by (simp add: rm_pipeline_def pipeline_of_def queue_infos_def addressed_def sample_busy_def
        ModbusMessageInfo_def LimitQueue_default_def)
  ultimately show ?thesis using RtuMaster_serves_all [of sample_lib ?s "[?r, ?r]" 0] by auto
qed

text \<open>
  C17: the same for a TCP client with a message in process: answers that carry its own
  consecutive transaction ids are all passed on, in order, until nothing is left.
\<close>

theorem TcpClient_serves_all:
  assumes "client_ready L s rs" and "length rs = length (tc_pipeline s)"
  shows "\<exists>s' os. run (TcpClient_step L defaultId) s (concat (map client_service rs)) = Done (s', os) \<and>
    replies os = tc_pipeline s \<and> tc_pipeline s' = []"
proof (rule tcs.drains [OF assms])
  from assms show "rs \<noteq> []" by (cases rs) (auto simp: client_ready_def tc_pipeline_def split: option.splits)
qed

theorem TcpClient_serves_all_witness:
  "\<exists>s' os. run (TcpClient_step sample_lib 0)
      (client_busy\<lparr>tc_messageQueue := \<lparr>lq_items = [client_request 8], lq_maxSize = 2 ^ 64 - 1\<rparr>\<rparr>)
      (concat (map client_service [(0, sample_frame TCP 1 1, 9), (0, sample_frame TCP 1 2, 9)])) = Done (s', os) \<and>
    replies os = [(3, ModbusMessageInfo 0 3 7), (3, ModbusMessageInfo 0 3 8)]"
proof -
  let ?s = "client_busy\<lparr>tc_messageQueue := \<lparr>lq_items = [client_request 8], lq_maxSize = 2 ^ 64 - 1\<rparr>\<rparr>"
  let ?rs = "[(0, sample_frame TCP 1 1, 9), (0, sample_frame TCP 1 2, 9)] :: (chrono_rep \<times> frame \<times> nat) list"
  have "tc_transactionIdGenerator client_busy = 1" by (simp add: client_busy_def tc_take_def)
  then have "client_ready sample_lib ?s ?rs"
    by (simp add: client_ready_def servable_def)
  moreover have pipe: "tc_pipeline ?s = [(3, ModbusMessageInfo 0 3 7), (3, ModbusMessageInfo 0 3 8)]"
    by (simp add: tc_pipeline_def pipeline_of_def queue_infos_def addressed_def ModbusMessageInfo_def)
  ultimately show ?thesis using TcpClient_serves_all [of sample_lib ?s ?rs 0] by auto
qed

end
