(* ===== verification/Trace_Path.thy ===== *)
theory Trace_Path
  imports MG_Prelude
begin

text \<open>
  The path a configuration error reports (\<^verbatim>\<open>trace_path.cpp\<close>,
  \<^verbatim>\<open>trace_deep.cpp\<close>) and the exceptions of the parser
  (\<^verbatim>\<open>parser_exception.cpp\<close> and its three subclasses). A parser step is a function
  on the path that gives a result or an exception together with the path it leaves; the scope
  object \<^verbatim>\<open>TraceDeep\<close> is a combinator that pushes its key, runs its body and pops,
  whether the body returns or throws.
\<close>

subsection \<open>TracePath\<close>

type_synonym trace_path = "string list"

definition TracePath_Push :: "string \<Rightarrow> trace_path \<Rightarrow> trace_path" where
  "TracePath_Push s path = path @ [s]"

definition TracePath_Pop :: "trace_path \<Rightarrow> trace_path" where
  "TracePath_Pop path = (if path \<noteq> [] then butlast path else path)"

text \<open>The loop of \<^verbatim>\<open>GetPath\<close>: the components joined by dots.\<close>

fun GetPath_loop :: "bool \<Rightarrow> string \<Rightarrow> trace_path \<Rightarrow> string" where
  "GetPath_loop first os [] = os"
| "GetPath_loop first os (s # path) = GetPath_loop False ((if first then os else os @ ''.'') @ s) path"

definition TracePath_GetPath :: "trace_path \<Rightarrow> string" where
  "TracePath_GetPath path = GetPath_loop True [] path"

lemma GetPath_loop_append:
  "GetPath_loop first os (ps @ [s]) =
    (if first \<and> ps = [] then os @ s else GetPath_loop first os ps @ ''.'' @ s)"
  by (induction first os ps rule: GetPath_loop.induct) auto

lemma TracePath_Pop_Push [simp]: "TracePath_Pop (TracePath_Push s path) = path"
  by (simp add: TracePath_Pop_def TracePath_Push_def)

lemma TracePath_GetPath_simps:
  "TracePath_GetPath [] = []" "TracePath_GetPath [s] = s"
  "path \<noteq> [] \<Longrightarrow> TracePath_GetPath (path @ [s]) = TracePath_GetPath path @ ''.'' @ s"
  by (simp_all add: TracePath_GetPath_def GetPath_loop_append)

subsection \<open>Exceptions\<close>

datatype value_type = Unknown | Object | Array | String | Boolean | Number

definition ConvertValueTypeToString :: "value_type \<Rightarrow> string" where
  "ConvertValueTypeToString valueType = (case valueType of
     Object \<Rightarrow> ''object'' | Array \<Rightarrow> ''array'' | String \<Rightarrow> ''string''
   | Boolean \<Rightarrow> ''boolean'' | Number \<Rightarrow> ''number'' | Unknown \<Rightarrow> ''unknown'')"

text \<open>
  The base class of the parser's exceptions copies the rendered path and the key of the scope
  object it is built from.
\<close>

record parser_exception =
  ex_path :: string
  ex_key :: string

definition ParserException :: "trace_path \<Rightarrow> string \<Rightarrow> parser_exception" where
  "ParserException path key = \<lparr>ex_path = TracePath_GetPath path, ex_key = key\<rparr>"

definition GetFullPath :: "parser_exception \<Rightarrow> string" where
  "GetFullPath e = ex_path e"

definition GetTargetKey :: "parser_exception \<Rightarrow> string" where
  "GetTargetKey e = ex_key e"

text \<open>
  What leaves the parser: the three subclasses with their own members, and the standard
  exceptions (the JSON library's parse error, \<^verbatim>\<open>std::logic_error\<close>,
  \<^verbatim>\<open>std::runtime_error\<close> and the serial port option's range error); the exception
  of the command line, which \<^verbatim>\<open>main\<close> catches with them, is here as well.
\<close>

datatype gateway_exception =
    KeyNotFoundException parser_exception
  | InvalidTypeException parser_exception (ExpectType: value_type) (ActualType: value_type)
  | InvalidValueException parser_exception (InvalidValue: string)
  | LogicError string
  | RuntimeError string
  | CommandLineException string
  | LibraryError

definition what :: "gateway_exception \<Rightarrow> string option" where
  "what e = (case e of KeyNotFoundException b \<Rightarrow> Some ''key not found''
     | InvalidTypeException b x a \<Rightarrow> Some ''invalid type''
     | InvalidValueException b v \<Rightarrow> Some ''invalid value''
     | LogicError s \<Rightarrow> Some s | RuntimeError s \<Rightarrow> Some s
     | CommandLineException s \<Rightarrow> Some s | LibraryError \<Rightarrow> None)"

definition GetExpectType :: "gateway_exception \<Rightarrow> string option" where
  "GetExpectType e = (case e of InvalidTypeException b x a \<Rightarrow> Some (ConvertValueTypeToString x)
     | _ \<Rightarrow> None)"

definition GetActualType :: "gateway_exception \<Rightarrow> string option" where
  "GetActualType e = (case e of InvalidTypeException b x a \<Rightarrow> Some (ConvertValueTypeToString a)
     | _ \<Rightarrow> None)"

definition GetValue :: "gateway_exception \<Rightarrow> string option" where
  "GetValue e = (case e of InvalidValueException b v \<Rightarrow> Some v | _ \<Rightarrow> None)"

text \<open>The base object of an exception of the parser, for \<^verbatim>\<open>catch (const ParserException &)\<close>.\<close>

definition parser_base :: "gateway_exception \<Rightarrow> parser_exception option" where
  "parser_base e = (case e of KeyNotFoundException b \<Rightarrow> Some b
     | InvalidTypeException b x a \<Rightarrow> Some b | InvalidValueException b v \<Rightarrow> Some b | _ \<Rightarrow> None)"

subsection \<open>Parser steps\<close>

type_synonym 'a parser = "trace_path \<Rightarrow> (gateway_exception + 'a) \<times> trace_path"

definition pret :: "'a \<Rightarrow> 'a parser" where
  "pret x = (\<lambda>path. (Inr x, path))"

definition pbind :: "'a parser \<Rightarrow> ('a \<Rightarrow> 'b parser) \<Rightarrow> 'b parser" where
  "pbind m f = (\<lambda>path. case m path of (Inl e, path') \<Rightarrow> (Inl e, path') | (Inr x, path') \<Rightarrow> f x path')"

definition praise :: "gateway_exception \<Rightarrow> 'a parser" where
  "praise e = (\<lambda>path. (Inl e, path))"

text \<open>
  \<^verbatim>\<open>TraceDeep td(tracePath, key); ...\<close> to the end of the scope; the body gets the
  scope object, of which it uses only the key and the path.
\<close>

definition with_trace :: "string \<Rightarrow> (string \<Rightarrow> 'a parser) \<Rightarrow> 'a parser" where
  "with_trace key body = (\<lambda>path.
     case body key (TracePath_Push key path) of (r, path') \<Rightarrow> (r, TracePath_Pop path'))"

lemma with_trace_keeps:
  assumes "snd (body key (path @ [key])) = path @ [key]"
  shows "with_trace key body path = (fst (body key (path @ [key])), path)"
  using assms by (cases "body key (path @ [key])")
    (simp add: with_trace_def TracePath_Push_def TracePath_Pop_def)

text \<open>Throwing one of the parser's exceptions built from the scope object with the given key.\<close>

definition throw_KeyNotFound :: "string \<Rightarrow> 'a parser" where
  "throw_KeyNotFound td = (\<lambda>path. praise (KeyNotFoundException (ParserException path td)) path)"

definition throw_InvalidType :: "string \<Rightarrow> value_type \<Rightarrow> value_type \<Rightarrow> 'a parser" where
  "throw_InvalidType td expect actual = (\<lambda>path.
     praise (InvalidTypeException (ParserException path td) expect actual) path)"

definition throw_InvalidValue :: "string \<Rightarrow> string \<Rightarrow> 'a parser" where
  "throw_InvalidValue td v = (\<lambda>path. praise (InvalidValueException (ParserException path td) v) path)"

text \<open>A range-for over an array with a scope object for each index.\<close>

fun with_indices :: "('j \<Rightarrow> 'a parser) \<Rightarrow> nat \<Rightarrow> 'j list \<Rightarrow> 'a list parser" where
  "with_indices f index [] = pret []"
| "with_indices f index (j # js) =
     pbind (with_trace (to_string index) (\<lambda>td. f j)) (\<lambda>x.
     pbind (with_indices f (Suc index) js) (\<lambda>xs. pret (x # xs)))"

subsection \<open>The contract of a parser step\<close>

text \<open>
  A step keeps the path, and an exception of the parser it throws reports a path that extends
  the one at entry and ends in the key it names. \<open>R\<close> is what holds of a result.
\<close>

definition extends_path :: "trace_path \<Rightarrow> gateway_exception \<Rightarrow> bool" where
  "extends_path path e \<longleftrightarrow> (\<forall>b. parser_base e = Some b \<longrightarrow>
     (\<exists>ks. ex_path b = TracePath_GetPath (path @ ks @ [ex_key b])))"

definition traced :: "('a \<Rightarrow> bool) \<Rightarrow> 'a parser \<Rightarrow> bool" where
  "traced R m \<longleftrightarrow> (\<forall>path. snd (m path) = path \<and>
     (case fst (m path) of Inl e \<Rightarrow> extends_path path e | Inr x \<Rightarrow> R x))"

text \<open>The same inside a scope: the path ends in the scope's key.\<close>

definition traced_in :: "string \<Rightarrow> ('a \<Rightarrow> bool) \<Rightarrow> 'a parser \<Rightarrow> bool" where
  "traced_in td R m \<longleftrightarrow> (\<forall>path. snd (m (path @ [td])) = path @ [td] \<and>
     (case fst (m (path @ [td])) of Inl e \<Rightarrow> extends_path path e | Inr x \<Rightarrow> R x))"

lemma extends_path_snoc: "extends_path (path @ [k]) e \<Longrightarrow> extends_path path e"
  unfolding extends_path_def by (metis append.assoc)

lemma traced_imp_in: "traced R m \<Longrightarrow> traced_in td R m"
  unfolding traced_def traced_in_def
  by (auto intro: extends_path_snoc split: sum.splits)

lemma traced_ret: "R x \<Longrightarrow> traced R (pret x)"
  by (simp add: traced_def pret_def)

lemma traced_in_ret: "R x \<Longrightarrow> traced_in td R (pret x)"
  by (simp add: traced_in_def pret_def)

lemma traced_raise: "parser_base e = None \<Longrightarrow> traced R (praise e)"
  by (simp add: traced_def praise_def extends_path_def)

lemma traced_bind:
  assumes "traced Q m" and "\<And>x. Q x \<Longrightarrow> traced R (f x)"
  shows "traced R (pbind m f)"
  unfolding traced_def
proof
  fix path
  from assms(1) have m: "snd (m path) = path"
    "case fst (m path) of Inl e \<Rightarrow> extends_path path e | Inr x \<Rightarrow> Q x" by (auto simp: traced_def)
  show "snd (pbind m f path) = path \<and>
      (case fst (pbind m f path) of Inl e \<Rightarrow> extends_path path e | Inr x \<Rightarrow> R x)"
  proof (cases "m path")
    case (Pair r path')
    with m assms(2) show ?thesis by (cases r) (auto simp: pbind_def traced_def)
  qed
qed

lemma traced_in_bind:
  assumes "traced_in td Q m" and "\<And>x. Q x \<Longrightarrow> traced_in td R (f x)"
  shows "traced_in td R (pbind m f)"
  unfolding traced_in_def
proof
  fix path
  from assms(1) have m: "snd (m (path @ [td])) = path @ [td]"
    "case fst (m (path @ [td])) of Inl e \<Rightarrow> extends_path path e | Inr x \<Rightarrow> Q x"
    by (auto simp: traced_in_def)
  show "snd (pbind m f (path @ [td])) = path @ [td] \<and>
      (case fst (pbind m f (path @ [td])) of Inl e \<Rightarrow> extends_path path e | Inr x \<Rightarrow> R x)"
  proof (cases "m (path @ [td])")
    case (Pair r path')
    with m assms(2) show ?thesis by (cases r) (auto simp: pbind_def traced_in_def)
  qed
qed

lemma traced_with_trace:
  assumes "traced_in key R (body key)"
  shows "traced R (with_trace key body)"
  unfolding traced_def
proof
  fix path
  obtain r path' where b: "body key (path @ [key]) = (r, path')" by fastforce
  with assms have "path' = path @ [key]"
    and "case r of Inl e \<Rightarrow> extends_path path e | Inr x \<Rightarrow> R x"
    unfolding traced_in_def by (metis fst_conv snd_conv)+
  with b show "snd (with_trace key body path) = path \<and>
      (case fst (with_trace key body path) of Inl e \<Rightarrow> extends_path path e | Inr x \<Rightarrow> R x)"
    by (simp add: with_trace_def TracePath_Push_def TracePath_Pop_def)
qed

lemma traced_in_throw:
  "traced_in td R (throw_KeyNotFound td)" "traced_in td R (throw_InvalidType td x a)"
  "traced_in td R (throw_InvalidValue td v)"
proof -
  have "extends_path path e" if "parser_base e = Some (ParserException (path @ [td]) td)" for path e
    using that unfolding extends_path_def by (auto simp: ParserException_def intro!: exI [of _ "[]"])
  then show "traced_in td R (throw_KeyNotFound td)" "traced_in td R (throw_InvalidType td x a)"
    "traced_in td R (throw_InvalidValue td v)"
    by (simp_all add: traced_in_def throw_KeyNotFound_def throw_InvalidType_def
        throw_InvalidValue_def praise_def parser_base_def)
qed

lemma traced_weaken: "traced Q m \<Longrightarrow> (\<And>x. Q x \<Longrightarrow> R x) \<Longrightarrow> traced R m"
  unfolding traced_def by (metis (no_types, lifting) sum.case_eq_if)

lemma traced_indices:
  "(\<And>j. traced R (f j)) \<Longrightarrow> traced (\<lambda>xs. list_all R xs \<and> length xs = length js) (with_indices f index js)"
proof (induction js arbitrary: index)
  case Nil
  then show ?case by (simp add: traced_ret)
next
  case (Cons j js)
  show ?case unfolding with_indices.simps
    by (rule traced_bind [OF traced_with_trace [OF traced_imp_in [OF Cons.prems]]],
        rule traced_bind [OF Cons.IH [OF Cons.prems]], rule traced_ret) simp
qed

text \<open>What a step that met its contract gives.\<close>

lemma traced_resultD: "traced R m \<Longrightarrow> m path = (Inr x, path') \<Longrightarrow> R x \<and> path' = path"
  unfolding traced_def by (metis fst_conv snd_conv sum.case(2))

lemma traced_errorD: "traced R m \<Longrightarrow> m path = (Inl e, path') \<Longrightarrow> extends_path path e \<and> path' = path"
  unfolding traced_def by (metis fst_conv snd_conv sum.case(1))

end
