(* ===== verification/Rtu_Options.thy ===== *)
theory Rtu_Options
  imports MG_Prelude
begin

unbundle bit_operations_syntax

text \<open>
  The options of a serial line and how they are set on the port
  (\<^verbatim>\<open>src/src/transport/rtu_options.cpp\<close> and \<^verbatim>\<open>rtu_options.h\<close>,
  and the constructor of \<^verbatim>\<open>ModbusRtuSlave\<close>). The option values are those of asio's
  \<^verbatim>\<open>serial_port_base\<close>; the flag bits and the struct of the RS-485 configuration are
  those of the kernel's \<^verbatim>\<open>linux/serial.h\<close>, of which the flag values are a
  parameter.
\<close>

datatype parity = parity_none | parity_odd | parity_even

datatype stop_bits = stop_bits_one | stop_bits_onepointfive | stop_bits_two

datatype flow_control = flow_control_none | flow_control_software | flow_control_hardware

record rs485 =
  rtsOnSend :: "bool option"
  rtsAfterSend :: "bool option"
  rxDuringTx :: "bool option"
  terminateBus :: "bool option"
  delayRtsBeforeSend :: "32 word option"
  delayRtsAfterSend :: "32 word option"

record rtu_options =
  baudRate :: "32 word"
  characterSize :: "32 word"
  opt_parity :: parity
  stopBits :: stop_bits
  flowControl :: flow_control
  opt_rs485 :: "rs485 option"

subsection \<open>The kernel's RS-485 configuration\<close>

record serial_rs485 =
  rs_flags :: "32 word"
  delay_rts_before_send :: "32 word"
  delay_rts_after_send :: "32 word"

record rs485_flags =
  SER_RS485_ENABLED :: "32 word"
  SER_RS485_RTS_ON_SEND :: "32 word"
  SER_RS485_RTS_AFTER_SEND :: "32 word"
  SER_RS485_RX_DURING_TX :: "32 word"
  SER_RS485_TERMINATE_BUS :: "32 word"

text \<open>The flags have no bit in common, as documented by the kernel.\<close>

definition flags_disjoint :: "rs485_flags \<Rightarrow> bool" where
  "flags_disjoint K \<longleftrightarrow>
     SER_RS485_ENABLED K AND SER_RS485_RTS_ON_SEND K = 0 \<and>
     SER_RS485_ENABLED K AND SER_RS485_RTS_AFTER_SEND K = 0 \<and>
     SER_RS485_ENABLED K AND SER_RS485_RX_DURING_TX K = 0 \<and>
     SER_RS485_ENABLED K AND SER_RS485_TERMINATE_BUS K = 0 \<and>
     SER_RS485_RTS_ON_SEND K AND SER_RS485_RTS_AFTER_SEND K = 0 \<and>
     SER_RS485_RTS_ON_SEND K AND SER_RS485_RX_DURING_TX K = 0 \<and>
     SER_RS485_RTS_ON_SEND K AND SER_RS485_TERMINATE_BUS K = 0 \<and>
     SER_RS485_RTS_AFTER_SEND K AND SER_RS485_RX_DURING_TX K = 0 \<and>
     SER_RS485_RTS_AFTER_SEND K AND SER_RS485_TERMINATE_BUS K = 0 \<and>
     SER_RS485_RX_DURING_TX K AND SER_RS485_TERMINATE_BUS K = 0"

subsection \<open>Setting the options\<close>

text \<open>The calls on the port, each of which may fail and then throws.\<close>

datatype port_call =
    Set_baud_rate "32 word"
  | Set_character_size "32 word"
  | Set_parity parity
  | Set_stop_bits stop_bits
  | Set_flow_control flow_control
  | Get_rs485
  | Set_rs485 serial_rs485

text \<open>The calls that were made and whether all of them went well.\<close>

definition do_call :: "(port_call \<Rightarrow> bool) \<Rightarrow> port_call \<Rightarrow> port_call list \<times> bool \<Rightarrow> port_call list \<times> bool" where
  "do_call fails c rest = (if fails c then ([c], False) else (c # fst rest, snd rest))"

definition SetOption :: "32 word \<Rightarrow> bool option \<Rightarrow> 32 word \<Rightarrow> 32 word" where
  "SetOption flags option flag =
     (case option of None \<Rightarrow> flags
      | Some v \<Rightarrow> if v then flags OR flag else flags AND NOT flag)"

definition rs485_update :: "rs485_flags \<Rightarrow> rs485 \<Rightarrow> serial_rs485 \<Rightarrow> serial_rs485" where
  "rs485_update K opts rs485config =
     (let flags = rs_flags rs485config OR SER_RS485_ENABLED K;
          flags = SetOption flags (rtsOnSend opts) (SER_RS485_RTS_ON_SEND K);
          flags = SetOption flags (rtsAfterSend opts) (SER_RS485_RTS_AFTER_SEND K);
          flags = SetOption flags (rxDuringTx opts) (SER_RS485_RX_DURING_TX K);
          flags = SetOption flags (terminateBus opts) (SER_RS485_TERMINATE_BUS K);
          config = rs485config\<lparr>rs_flags := flags\<rparr>;
          config = (case delayRtsBeforeSend opts of None \<Rightarrow> config
                    | Some d \<Rightarrow> config\<lparr>delay_rts_before_send := d\<rparr>)
      in case delayRtsAfterSend opts of None \<Rightarrow> config
         | Some d \<Rightarrow> config\<lparr>delay_rts_after_send := d\<rparr>)"

text \<open>\<open>current\<close> is the configuration the driver reports.\<close>

definition SetOptions :: "rs485_flags \<Rightarrow> (port_call \<Rightarrow> bool) \<Rightarrow> serial_rs485 \<Rightarrow> rtu_options \<Rightarrow>
    port_call list \<times> bool" where
  "SetOptions K fails current options =
     do_call fails (Set_baud_rate (baudRate options))
    (do_call fails (Set_character_size (characterSize options))
    (do_call fails (Set_parity (opt_parity options))
    (do_call fails (Set_stop_bits (stopBits options))
    (do_call fails (Set_flow_control (flowControl options))
    (case opt_rs485 options of
       None \<Rightarrow> ([], True)
     | Some opts \<Rightarrow>
         do_call fails Get_rs485
        (do_call fails (Set_rs485 (rs485_update K opts current)) ([], True)))))))"

text \<open>The constructor of the serial slave does not call \<^verbatim>\<open>SetOptions\<close>.\<close>

definition RtuSlave_set_options :: "(port_call \<Rightarrow> bool) \<Rightarrow> rtu_options \<Rightarrow> port_call list \<times> bool" where
  "RtuSlave_set_options fails options =
     do_call fails (Set_baud_rate (baudRate options))
    (do_call fails (Set_character_size (characterSize options))
    (do_call fails (Set_parity (opt_parity options))
    (do_call fails (Set_stop_bits (stopBits options))
    (do_call fails (Set_flow_control (flowControl options)) ([], True)))))"

subsection \<open>Lemmas\<close>

definition requested :: "bool option \<Rightarrow> 32 word \<Rightarrow> 32 word \<Rightarrow> 32 word" where
  "requested option flag old = (case option of None \<Rightarrow> old AND flag | Some v \<Rightarrow> if v then flag else 0)"

lemma SetOption_own: "SetOption flags option flag AND flag = requested option flag flags"
  by (cases option) (auto simp: SetOption_def requested_def bit_eq_iff bit_simps)

lemma SetOption_other: "flag AND g = 0 \<Longrightarrow> SetOption flags option flag AND g = flags AND g"
  by (cases option) (auto simp: SetOption_def bit_eq_iff bit_simps)

lemma or_other: "(e :: 32 word) AND g = 0 \<Longrightarrow> (flags OR e) AND g = flags AND g"
  by (auto simp: bit_eq_iff bit_simps)

lemma or_own: "(flags OR e) AND e = (e :: 32 word)"
  by (auto simp: bit_eq_iff bit_simps)

lemma flags_disjointD:
  assumes "flags_disjoint K"
  shows "SER_RS485_ENABLED K AND SER_RS485_RTS_ON_SEND K = 0"
    "SER_RS485_ENABLED K AND SER_RS485_RTS_AFTER_SEND K = 0"
    "SER_RS485_ENABLED K AND SER_RS485_RX_DURING_TX K = 0"
    "SER_RS485_ENABLED K AND SER_RS485_TERMINATE_BUS K = 0"
    "SER_RS485_RTS_ON_SEND K AND SER_RS485_ENABLED K = 0"
    "SER_RS485_RTS_ON_SEND K AND SER_RS485_RTS_AFTER_SEND K = 0"
    "SER_RS485_RTS_ON_SEND K AND SER_RS485_RX_DURING_TX K = 0"
    "SER_RS485_RTS_ON_SEND K AND SER_RS485_TERMINATE_BUS K = 0"
    "SER_RS485_RTS_AFTER_SEND K AND SER_RS485_ENABLED K = 0"
    "SER_RS485_RTS_AFTER_SEND K AND SER_RS485_RTS_ON_SEND K = 0"
    "SER_RS485_RTS_AFTER_SEND K AND SER_RS485_RX_DURING_TX K = 0"
    "SER_RS485_RTS_AFTER_SEND K AND SER_RS485_TERMINATE_BUS K = 0"
    "SER_RS485_RX_DURING_TX K AND SER_RS485_ENABLED K = 0"
    "SER_RS485_RX_DURING_TX K AND SER_RS485_RTS_ON_SEND K = 0"
    "SER_RS485_RX_DURING_TX K AND SER_RS485_RTS_AFTER_SEND K = 0"
    "SER_RS485_RX_DURING_TX K AND SER_RS485_TERMINATE_BUS K = 0"
    "SER_RS485_TERMINATE_BUS K AND SER_RS485_ENABLED K = 0"
    "SER_RS485_TERMINATE_BUS K AND SER_RS485_RTS_ON_SEND K = 0"
    "SER_RS485_TERMINATE_BUS K AND SER_RS485_RTS_AFTER_SEND K = 0"
    "SER_RS485_TERMINATE_BUS K AND SER_RS485_RX_DURING_TX K = 0"
  using assms unfolding flags_disjoint_def by (metis and.commute)+

lemma rs485_update_delays:
  "rs485_update K opts c = \<lparr>rs_flags = rs_flags (rs485_update K opts c),
     delay_rts_before_send = (case delayRtsBeforeSend opts of None \<Rightarrow> delay_rts_before_send c | Some d \<Rightarrow> d),
     delay_rts_after_send = (case delayRtsAfterSend opts of None \<Rightarrow> delay_rts_after_send c | Some d \<Rightarrow> d)\<rparr>"
  by (simp add: rs485_update_def Let_def split: option.split)

lemma rs485_update_flags:
  "rs_flags (rs485_update K opts c) =
    SetOption (SetOption (SetOption (SetOption (rs_flags c OR SER_RS485_ENABLED K)
      (rtsOnSend opts) (SER_RS485_RTS_ON_SEND K)) (rtsAfterSend opts) (SER_RS485_RTS_AFTER_SEND K))
      (rxDuringTx opts) (SER_RS485_RX_DURING_TX K)) (terminateBus opts) (SER_RS485_TERMINATE_BUS K)"
  by (simp add: rs485_update_def Let_def split: option.split)

subsection \<open>Properties\<close>

text \<open>
  C39: when every call succeeds, a master's serial port gets the five line options in order and
  then, if the configuration has RS-485 options, a configuration in which RS-485 is enabled,
  every option that was given has the requested value, every one that was not keeps the driver's
  value, and no bit outside the five flags is touched.
\<close>

theorem SetOptions_rs485:
  assumes "flags_disjoint K" and "opt_rs485 options = Some opts"
  shows "\<exists>c. SetOptions K (\<lambda>c. False) current options =
      ([Set_baud_rate (baudRate options), Set_character_size (characterSize options),
        Set_parity (opt_parity options), Set_stop_bits (stopBits options),
        Set_flow_control (flowControl options), Get_rs485, Set_rs485 c], True) \<and>
    rs_flags c AND SER_RS485_ENABLED K = SER_RS485_ENABLED K \<and>
    rs_flags c AND SER_RS485_RTS_ON_SEND K =
      requested (rtsOnSend opts) (SER_RS485_RTS_ON_SEND K) (rs_flags current) \<and>
    rs_flags c AND SER_RS485_RTS_AFTER_SEND K =
      requested (rtsAfterSend opts) (SER_RS485_RTS_AFTER_SEND K) (rs_flags current) \<and>
    rs_flags c AND SER_RS485_RX_DURING_TX K =
      requested (rxDuringTx opts) (SER_RS485_RX_DURING_TX K) (rs_flags current) \<and>
    rs_flags c AND SER_RS485_TERMINATE_BUS K =
      requested (terminateBus opts) (SER_RS485_TERMINATE_BUS K) (rs_flags current) \<and>
    (let all = SER_RS485_ENABLED K OR SER_RS485_RTS_ON_SEND K OR SER_RS485_RTS_AFTER_SEND K OR
       SER_RS485_RX_DURING_TX K OR SER_RS485_TERMINATE_BUS K
     in rs_flags c AND NOT all = rs_flags current AND NOT all) \<and>
    delay_rts_before_send c = (case delayRtsBeforeSend opts of None \<Rightarrow> delay_rts_before_send current | Some d \<Rightarrow> d) \<and>
    delay_rts_after_send c = (case delayRtsAfterSend opts of None \<Rightarrow> delay_rts_after_send current | Some d \<Rightarrow> d)"
proof (intro exI conjI)
  let ?c = "rs485_update K opts current"
  show "SetOptions K (\<lambda>c. False) current options =
      ([Set_baud_rate (baudRate options), Set_character_size (characterSize options),
        Set_parity (opt_parity options), Set_stop_bits (stopBits options),
        Set_flow_control (flowControl options), Get_rs485, Set_rs485 ?c], True)"
    using assms(2) by (simp add: SetOptions_def do_call_def)
  note flags_simps = rs485_update_flags SetOption_other SetOption_own or_other or_own
    flags_disjointD [OF assms(1)]
  show "rs_flags ?c AND SER_RS485_ENABLED K = SER_RS485_ENABLED K"
    by (simp add: flags_simps)
  show "rs_flags ?c AND SER_RS485_RTS_ON_SEND K =
      requested (rtsOnSend opts) (SER_RS485_RTS_ON_SEND K) (rs_flags current)"
    by (auto simp: flags_simps requested_def split: option.split)
  show "rs_flags ?c AND SER_RS485_RTS_AFTER_SEND K =
      requested (rtsAfterSend opts) (SER_RS485_RTS_AFTER_SEND K) (rs_flags current)"
    by (auto simp: flags_simps requested_def split: option.split)
  show "rs_flags ?c AND SER_RS485_RX_DURING_TX K =
      requested (rxDuringTx opts) (SER_RS485_RX_DURING_TX K) (rs_flags current)"
    by (auto simp: flags_simps requested_def split: option.split)
  show "rs_flags ?c AND SER_RS485_TERMINATE_BUS K =
      requested (terminateBus opts) (SER_RS485_TERMINATE_BUS K) (rs_flags current)"
    by (auto simp: flags_simps requested_def split: option.split)
  show "let all = SER_RS485_ENABLED K OR SER_RS485_RTS_ON_SEND K OR SER_RS485_RTS_AFTER_SEND K OR
       SER_RS485_RX_DURING_TX K OR SER_RS485_TERMINATE_BUS K
     in rs_flags ?c AND NOT all = rs_flags current AND NOT all"
    unfolding Let_def rs485_update_flags
    by (subst SetOption_other or_other, force simp: bit_eq_iff bit_simps)+ (rule refl)
qed (subst rs485_update_delays, simp)+

text \<open>The flag values of the kernel header, for the witness.\<close>

definition kernel_flags :: rs485_flags where
  "kernel_flags = \<lparr>SER_RS485_ENABLED = 1, SER_RS485_RTS_ON_SEND = 2, SER_RS485_RTS_AFTER_SEND = 4,
     SER_RS485_RX_DURING_TX = 16, SER_RS485_TERMINATE_BUS = 32\<rparr>"

lemma kernel_flags_disjoint: "flags_disjoint kernel_flags"
  by (simp add: flags_disjoint_def kernel_flags_def)

definition sample_options :: rtu_options where
  "sample_options = \<lparr>baudRate = 115200, characterSize = 8, opt_parity = parity_none,
     stopBits = stop_bits_one, flowControl = flow_control_none,
     opt_rs485 = Some \<lparr>rtsOnSend = Some True, rtsAfterSend = Some False, rxDuringTx = None,
       terminateBus = None, delayRtsBeforeSend = Some 5, delayRtsAfterSend = None\<rparr>\<rparr>"

theorem SetOptions_rs485_witness:
  "\<exists>c. last (fst (SetOptions kernel_flags (\<lambda>c. False)
      \<lparr>rs_flags = 4, delay_rts_before_send = 0, delay_rts_after_send = 7\<rparr> sample_options)) = Set_rs485 c \<and>
    rs_flags c AND 2 = 2 \<and> rs_flags c AND 4 = 0 \<and> delay_rts_before_send c = 5 \<and> delay_rts_after_send c = 7"
  using SetOptions_rs485 [OF kernel_flags_disjoint, of sample_options "the (opt_rs485 sample_options)"
      "\<lparr>rs_flags = 4, delay_rts_before_send = 0, delay_rts_after_send = 7\<rparr>"]
  by (fastforce simp: sample_options_def kernel_flags_def requested_def)

text \<open>
  a serial slave ignores the RS-485 options of its configuration: it makes the calls a
  master makes for a configuration without them, whatever the options are and whichever call
  fails.
\<close>

lemma RtuSlave_ignores_rs485:
  "RtuSlave_set_options fails options = SetOptions K fails current (options\<lparr>opt_rs485 := None\<rparr>) \<and>
   Get_rs485 \<notin> set (fst (RtuSlave_set_options fails options))"
  by (simp add: RtuSlave_set_options_def SetOptions_def do_call_def)

end
