(* ===== verification/Config_Extract.thy ===== *)
theory Config_Extract
  imports Complex_Main Trace_Path Messages Rtu_Options
begin

text \<open>
  The functions that read single values out of the JSON configuration
  (\<^verbatim>\<open>config/extractor.h\<close>, \<^verbatim>\<open>extractor.cpp\<close>,
  \<^verbatim>\<open>convertors.cpp\<close>, \<^verbatim>\<open>value_type.cpp\<close>,
  \<^verbatim>\<open>keys.h\<close>).

  The JSON library, the address parser and the serial port options of asio, and the smallest and
  largest unit id of the frame library are not part of the repository: they are the fields of a
  record that every extractor takes as an argument. \<open>json_u64\<close> is the library's
  \<^verbatim>\<open>get<uint64_t>()\<close>, which for a negative number is its two's complement.
\<close>

subsection \<open>keys.h\<close>

definition keys_service :: string where "keys_service = ''service''"
definition keys_slaves :: string where "keys_slaves = ''slaves''"
definition keys_masters :: string where "keys_masters = ''masters''"
definition keys_logLevel :: string where "keys_logLevel = ''log_level''"
definition keys_threads :: string where "keys_threads = ''threads''"
definition keys_frame_type :: string where "keys_frame_type = ''frame_type''"
definition keys_timeout :: string where "keys_timeout = ''timeout_ms''"
definition keys_ipAddress :: string where "keys_ipAddress = ''ip_address''"
definition keys_ipPort :: string where "keys_ipPort = ''ip_port''"
definition keys_device :: string where "keys_device = ''device''"
definition keys_baud_rate :: string where "keys_baud_rate = ''baud_rate''"
definition keys_character_size :: string where "keys_character_size = ''character_size''"
definition keys_parity :: string where "keys_parity = ''parity''"
definition keys_stop_bits :: string where "keys_stop_bits = ''stop_bits''"
definition keys_flow_control :: string where "keys_flow_control = ''flow_control''"
definition keys_rs485 :: string where "keys_rs485 = ''rs485''"
definition keys_rtsOnSend :: string where "keys_rtsOnSend = ''rts_on_send''"
definition keys_rtsAfterSend :: string where "keys_rtsAfterSend = ''rts_after_send''"
definition keys_rxDuringTx :: string where "keys_rxDuringTx = ''rx_during_tx''"
definition keys_terminateBus :: string where "keys_terminateBus = ''terminate_bus''"
definition keys_delayRtsBeforeSend :: string where "keys_delayRtsBeforeSend = ''delay_rts_before_send''"
definition keys_delayRtsAfterSend :: string where "keys_delayRtsAfterSend = ''delay_rts_after_send''"
definition keys_unitIdSet :: string where "keys_unitIdSet = ''unit_id''"
definition keys_numericRangeType :: string where "keys_numericRangeType = ''type''"
definition keys_numericRangeValue :: string where "keys_numericRangeValue = ''value''"
definition keys_numericRangeBegin :: string where "keys_numericRangeBegin = ''begin''"
definition keys_numericRangeEnd :: string where "keys_numericRangeEnd = ''end''"

lemmas keys_defs = keys_service_def keys_slaves_def keys_masters_def keys_logLevel_def
  keys_threads_def keys_frame_type_def keys_timeout_def keys_ipAddress_def keys_ipPort_def
  keys_device_def keys_baud_rate_def keys_character_size_def keys_parity_def keys_stop_bits_def
  keys_flow_control_def keys_rs485_def keys_rtsOnSend_def keys_rtsAfterSend_def
  keys_rxDuringTx_def keys_terminateBus_def keys_delayRtsBeforeSend_def
  keys_delayRtsAfterSend_def keys_unitIdSet_def keys_numericRangeType_def
  keys_numericRangeValue_def keys_numericRangeBegin_def keys_numericRangeEnd_def

subsection \<open>Value types\<close>

datatype json_value_t = value_null | value_object | value_array | value_string | value_boolean
  | value_number_integer | value_number_unsigned | value_number_float | value_binary | value_discarded

definition ConvertJsonTypeToValueType :: "json_value_t \<Rightarrow> value_type" where
  "ConvertJsonTypeToValueType t = (case t of
     value_object \<Rightarrow> Object | value_array \<Rightarrow> Array | value_string \<Rightarrow> String
   | value_boolean \<Rightarrow> Boolean
   | value_number_integer \<Rightarrow> Number | value_number_unsigned \<Rightarrow> Number | value_number_float \<Rightarrow> Number
   | value_null \<Rightarrow> Unknown | value_binary \<Rightarrow> Unknown | value_discarded \<Rightarrow> Unknown)"

record ('j, 'a, 'u) config_lib =
  json_type :: "'j \<Rightarrow> json_value_t"
  json_find :: "'j \<Rightarrow> string \<Rightarrow> 'j option"
  json_elements :: "'j \<Rightarrow> 'j list"
  json_string :: "'j \<Rightarrow> string"
  json_bool :: "'j \<Rightarrow> bool"
  json_u64 :: "'j \<Rightarrow> 64 word"
  json_u32 :: "'j \<Rightarrow> 32 word"
  json_float :: "'j \<Rightarrow> rat"
  float_to_string :: "rat \<Rightarrow> string"
  make_address_v4 :: "string \<Rightarrow> 'a option"
  address_any :: 'a
  character_size_ok :: "32 word \<Rightarrow> bool"
  default_rtu_options :: rtu_options
  unitIdMin :: 'u
  unitIdMax :: 'u

subsection \<open>convertors.cpp\<close>

datatype log_level = Trace | Debug | Info | Warning | Error | Critical

definition ConvertLogLevel :: "string \<Rightarrow> log_level option" where
  "ConvertLogLevel s =
     (if s = ''trace'' then Some Trace else if s = ''debug'' then Some Debug
      else if s = ''info'' then Some Info else if s = ''warning'' then Some Warning
      else if s = ''error'' then Some Error else if s = ''critical'' then Some Critical else None)"

definition ConvertFrameType :: "string \<Rightarrow> frame_type option" where
  "ConvertFrameType s =
     (if s = ''tcp'' then Some TCP else if s = ''rtu'' then Some RTU
      else if s = ''ascii'' then Some ASCII else None)"

definition ConvertParity :: "string \<Rightarrow> parity option" where
  "ConvertParity s =
     (if s = ''none'' then Some parity_none else if s = ''odd'' then Some parity_odd
      else if s = ''even'' then Some parity_even else None)"

definition ConvertStopBits :: "rat \<Rightarrow> stop_bits option" where
  "ConvertStopBits x =
     (if x = 1 then Some stop_bits_one else if x = 3 / 2 then Some stop_bits_onepointfive
      else if x = 2 then Some stop_bits_two else None)"

definition ConvertFlowControl :: "string \<Rightarrow> flow_control option" where
  "ConvertFlowControl s =
     (if s = ''none'' then Some flow_control_none else if s = ''software'' then Some flow_control_software
      else if s = ''hardware'' then Some flow_control_hardware else None)"

datatype numeric_range_type = Range | Value

definition ConvertNumericRangeType :: "string \<Rightarrow> numeric_range_type option" where
  "ConvertNumericRangeType s =
     (if s = ''range'' then Some Range else if s = ''value'' then Some Value else None)"

subsection \<open>Generic extractors\<close>

text \<open>The scope object stands for its key; \<^verbatim>\<open>obj.end()\<close> is \<open>None\<close>.\<close>

definition FindObjectRaw :: "('j, 'a, 'u) config_lib \<Rightarrow> string \<Rightarrow> 'j \<Rightarrow> 'j option" where
  "FindObjectRaw L td obj = json_find L obj td"

definition FindObject :: "('j, 'a, 'u) config_lib \<Rightarrow> string \<Rightarrow> 'j \<Rightarrow> 'j parser" where
  "FindObject L td obj = (case FindObjectRaw L td obj of None \<Rightarrow> throw_KeyNotFound td | Some v \<Rightarrow> pret v)"

definition CheckType :: "('j, 'a, 'u) config_lib \<Rightarrow> string \<Rightarrow> 'j \<Rightarrow> value_type \<Rightarrow> unit parser" where
  "CheckType L td obj expectType =
     (let actualType = ConvertJsonTypeToValueType (json_type L obj) in
      if actualType \<noteq> expectType then throw_InvalidType td expectType actualType else pret ())"

text \<open>The template \<^verbatim>\<open>ExtractValueOpt<T>\<close>; \<open>get\<close> is the library's \<^verbatim>\<open>get<T>()\<close>.\<close>

definition ExtractValueOpt :: "('j, 'a, 'u) config_lib \<Rightarrow> ('j \<Rightarrow> 'v) \<Rightarrow> 'j \<Rightarrow> string \<Rightarrow> value_type \<Rightarrow>
    'v option parser" where
  "ExtractValueOpt L get obj key valueType = with_trace key (\<lambda>td.
     case FindObjectRaw L td obj of None \<Rightarrow> pret None
     | Some val \<Rightarrow> pbind (CheckType L td val valueType) (\<lambda>_. pret (Some (get val))))"

text \<open>
  The template \<^verbatim>\<open>ExtractUnsignedNumberOpt<T>\<close>, for \<^verbatim>\<open>T\<close> an unsigned
  type of at most 64 bits.
\<close>

definition ExtractUnsignedNumberOpt :: "('j, 'a, 'u) config_lib \<Rightarrow> 'j \<Rightarrow> string \<Rightarrow>
    'w::len word option parser" where
  "ExtractUnsignedNumberOpt L obj key = with_trace key (\<lambda>td.
     case FindObjectRaw L td obj of None \<Rightarrow> pret None
     | Some val \<Rightarrow> pbind (CheckType L td val Number) (\<lambda>_.
         let value = json_u64 L val in
         if (ucast (- 1 :: 'w word) :: 64 word) < value then throw_InvalidValue td (to_string (unat value))
         else pret (Some (ucast value))))"

definition ExtractUnsignedNumber :: "('j, 'a, 'u) config_lib \<Rightarrow> 'j \<Rightarrow> string \<Rightarrow> 'w::len word parser" where
  "ExtractUnsignedNumber L obj key =
     pbind (ExtractUnsignedNumberOpt L obj key) (\<lambda>resultOpt. case resultOpt of
       Some v \<Rightarrow> pret v | None \<Rightarrow> with_trace key (\<lambda>td. throw_KeyNotFound td))"

definition ExtractString :: "('j, 'a, 'u) config_lib \<Rightarrow> 'j \<Rightarrow> string \<Rightarrow> string parser" where
  "ExtractString L obj key = with_trace key (\<lambda>td.
     pbind (FindObject L td obj) (\<lambda>res. pbind (CheckType L td res String) (\<lambda>_.
     pret (json_string L res))))"

definition ExtractStringOpt :: "('j, 'a, 'u) config_lib \<Rightarrow> 'j \<Rightarrow> string \<Rightarrow> string option parser" where
  "ExtractStringOpt L obj key = with_trace key (\<lambda>td.
     case FindObjectRaw L td obj of None \<Rightarrow> pret None
     | Some res \<Rightarrow> pbind (CheckType L td res String) (\<lambda>_. pret (Some (json_string L res))))"

text \<open>A converted string, or the exception for an unknown one.\<close>

definition or_invalid :: "'v option \<Rightarrow> string \<Rightarrow> string \<Rightarrow> 'v parser" where
  "or_invalid x td s = (case x of None \<Rightarrow> throw_InvalidValue td s | Some v \<Rightarrow> pret v)"

definition ExtractLogLevel :: "('j, 'a, 'u) config_lib \<Rightarrow> 'j \<Rightarrow> log_level option parser" where
  "ExtractLogLevel L obj = with_trace keys_logLevel (\<lambda>td.
     case FindObjectRaw L td obj of None \<Rightarrow> pret None
     | Some val \<Rightarrow> pbind (CheckType L td val String) (\<lambda>_.
         let v = json_string L val in
         pbind (or_invalid (ConvertLogLevel v) td v) (\<lambda>l. pret (Some l))))"

definition ExtractFrameType :: "('j, 'a, 'u) config_lib \<Rightarrow> 'j \<Rightarrow> frame_type parser" where
  "ExtractFrameType L obj = with_trace keys_frame_type (\<lambda>td.
     pbind (FindObject L td obj) (\<lambda>val. pbind (CheckType L td val String) (\<lambda>_.
     let v = json_string L val in or_invalid (ConvertFrameType v) td v)))"

definition ExtractIpAddressOptional :: "('j, 'a, 'u) config_lib \<Rightarrow> 'j \<Rightarrow> 'a option parser" where
  "ExtractIpAddressOptional L obj = with_trace keys_ipAddress (\<lambda>td.
     case FindObjectRaw L td obj of None \<Rightarrow> pret None
     | Some val \<Rightarrow> pbind (CheckType L td val String) (\<lambda>_.
         let v = json_string L val in
         pbind (or_invalid (make_address_v4 L v) td v) (\<lambda>a. pret (Some a))))"

definition ExtractIpAddress :: "('j, 'a, 'u) config_lib \<Rightarrow> 'j \<Rightarrow> 'a parser" where
  "ExtractIpAddress L obj = pbind (ExtractIpAddressOptional L obj) (\<lambda>res. case res of
     None \<Rightarrow> with_trace keys_ipAddress (\<lambda>td. throw_KeyNotFound td) | Some a \<Rightarrow> pret a)"

definition ExtractIpPort :: "('j, 'a, 'u) config_lib \<Rightarrow> 'j \<Rightarrow> 16 word parser" where
  "ExtractIpPort L obj = with_trace keys_ipPort (\<lambda>td.
     pbind (FindObject L td obj) (\<lambda>val. pbind (CheckType L td val Number) (\<lambda>_.
     let value = json_u64 L val in
     if value = 0 \<or> (ucast (- 1 :: 16 word) :: 64 word) < value
     then throw_InvalidValue td (to_string (unat value))
     else pret (ucast value))))"

subsection \<open>Serial line options\<close>

definition ExtractRs485Options :: "('j, 'a, 'u) config_lib \<Rightarrow> 'j \<Rightarrow> rs485 option parser" where
  "ExtractRs485Options L obj = with_trace keys_rs485 (\<lambda>td.
     case FindObjectRaw L td obj of None \<Rightarrow> pret None
     | Some val \<Rightarrow> pbind (CheckType L td val Object) (\<lambda>_.
         pbind (ExtractValueOpt L (json_bool L) val keys_rtsOnSend Boolean) (\<lambda>on_send.
         pbind (ExtractValueOpt L (json_bool L) val keys_rtsAfterSend Boolean) (\<lambda>after_send.
         pbind (ExtractValueOpt L (json_bool L) val keys_rxDuringTx Boolean) (\<lambda>rx_tx.
         pbind (ExtractValueOpt L (json_bool L) val keys_terminateBus Boolean) (\<lambda>terminate.
         pbind (ExtractValueOpt L (json_u32 L) val keys_delayRtsBeforeSend Number) (\<lambda>before_delay.
         pbind (ExtractValueOpt L (json_u32 L) val keys_delayRtsAfterSend Number) (\<lambda>after_delay.
         pret (Some \<lparr>rtsOnSend = on_send, rtsAfterSend = after_send, rxDuringTx = rx_tx,
           terminateBus = terminate, delayRtsBeforeSend = before_delay,
           delayRtsAfterSend = after_delay\<rparr>)))))))))"

text \<open>A converted option, thrown from a scope object made for the throw.\<close>

definition or_invalid_at :: "'v option \<Rightarrow> string \<Rightarrow> string \<Rightarrow> 'v parser" where
  "or_invalid_at x key s = (case x of None \<Rightarrow> with_trace key (\<lambda>td. throw_InvalidValue td s) | Some v \<Rightarrow> pret v)"

definition opt_update :: "'v option \<Rightarrow> ('v \<Rightarrow> 'r \<Rightarrow> 'r parser) \<Rightarrow> 'r \<Rightarrow> 'r parser" where
  "opt_update x f r = (case x of None \<Rightarrow> pret r | Some v \<Rightarrow> f v r)"

text \<open>
  \<^verbatim>\<open>baud_rate\<close> and \<^verbatim>\<open>character_size\<close> take an
  \<^verbatim>\<open>unsigned int\<close>: the 64-bit number is narrowed. The constructor of the
  latter throws for a size it does not support.
\<close>

definition ExtractRtuOptions :: "('j, 'a, 'u) config_lib \<Rightarrow> 'j \<Rightarrow> rtu_options parser" where
  "ExtractRtuOptions L obj =
    (let o0 = default_rtu_options L in
     pbind (ExtractUnsignedNumberOpt L obj keys_baud_rate) (\<lambda>baudRateOpt.
     pbind (opt_update baudRateOpt (\<lambda>(v :: 64 word) r. pret (r\<lparr>baudRate := ucast v\<rparr>)) o0) (\<lambda>o1.
     pbind (ExtractUnsignedNumberOpt L obj keys_character_size) (\<lambda>characterSizeOpt.
     pbind (opt_update characterSizeOpt (\<lambda>(v :: 64 word) r.
         if character_size_ok L (ucast v) then pret (r\<lparr>characterSize := ucast v\<rparr>)
         else praise LibraryError) o1) (\<lambda>o2.
     pbind (ExtractStringOpt L obj keys_parity) (\<lambda>parityOptStr.
     pbind (opt_update parityOptStr (\<lambda>v r.
         pbind (or_invalid_at (ConvertParity v) keys_parity v) (\<lambda>x. pret (r\<lparr>opt_parity := x\<rparr>))) o2) (\<lambda>o3.
     pbind (ExtractValueOpt L (json_float L) obj keys_stop_bits Number) (\<lambda>stopBitsNOpt.
     pbind (opt_update stopBitsNOpt (\<lambda>v r.
         pbind (or_invalid_at (ConvertStopBits v) keys_stop_bits (float_to_string L v))
           (\<lambda>x. pret (r\<lparr>stopBits := x\<rparr>))) o3) (\<lambda>o4.
     pbind (ExtractStringOpt L obj keys_flow_control) (\<lambda>flowControlStrOpt.
     pbind (opt_update flowControlStrOpt (\<lambda>v r.
         pbind (or_invalid_at (ConvertFlowControl v) keys_flow_control v)
           (\<lambda>x. pret (r\<lparr>flowControl := x\<rparr>))) o4) (\<lambda>o5.
     pbind (ExtractRs485Options L obj) (\<lambda>rs.
     pret (o5\<lparr>opt_rs485 := rs\<rparr>)))))))))))))"

subsection \<open>Unit ids\<close>

text \<open>
  \<^verbatim>\<open>ExtractString\<close> is called with the key of the scope object that is already
  open, which puts the key on the path twice.
\<close>

definition ExtractNumericRangeType :: "('j, 'a, 'u) config_lib \<Rightarrow> 'j \<Rightarrow> numeric_range_type parser" where
  "ExtractNumericRangeType L obj = with_trace keys_numericRangeType (\<lambda>td.
     pbind (ExtractString L obj td) (\<lambda>v. or_invalid (ConvertNumericRangeType v) td v))"

definition ExtractModbusUnitId :: "('j, 'a, 'u::len word) config_lib \<Rightarrow> 'j \<Rightarrow> string \<Rightarrow> 'u word parser" where
  "ExtractModbusUnitId L obj key =
     pbind (ExtractUnsignedNumber L obj key) (\<lambda>unitId.
     if unitId < unitIdMin L \<or> unitIdMax L < unitId
     then with_trace key (\<lambda>td. throw_InvalidValue td (to_string (unat unitId)))
     else pret unitId)"

record 'u unit_id_range =
  range_begin :: 'u
  range_end :: 'u

definition UnitIdRange_Normalize :: "'u::linorder unit_id_range \<Rightarrow> 'u unit_id_range" where
  "UnitIdRange_Normalize r =
     (if range_end r < range_begin r then \<lparr>range_begin = range_end r, range_end = range_begin r\<rparr> else r)"

definition UnitIdRange :: "('j, 'a, 'u::len word) config_lib \<Rightarrow> 'j \<Rightarrow> 'u word unit_id_range parser" where
  "UnitIdRange L obj =
     pbind (ExtractNumericRangeType L obj) (\<lambda>t. case t of
       Range \<Rightarrow>
         pbind (ExtractModbusUnitId L obj keys_numericRangeBegin) (\<lambda>b.
         pbind (ExtractModbusUnitId L obj keys_numericRangeEnd) (\<lambda>e.
         pret (UnitIdRange_Normalize \<lparr>range_begin = b, range_end = e\<rparr>)))
     | Value \<Rightarrow>
         pbind (ExtractModbusUnitId L obj keys_numericRangeValue) (\<lambda>v.
         pret \<lparr>range_begin = v, range_end = v\<rparr>))"

definition ExtractUnitIdRangeSet :: "('j, 'a, 'u::len word) config_lib \<Rightarrow> 'j \<Rightarrow>
    'u word unit_id_range list option parser" where
  "ExtractUnitIdRangeSet L obj = with_trace keys_unitIdSet (\<lambda>td.
     case FindObjectRaw L td obj of None \<Rightarrow> pret None
     | Some unitIds \<Rightarrow> pbind (CheckType L td unitIds Array) (\<lambda>_.
         if json_elements L unitIds = [] then throw_InvalidValue td (keys_unitIdSet @ '' empty'')
         else pbind (with_indices (UnitIdRange L) 0 (json_elements L unitIds)) (\<lambda>rs. pret (Some rs))))"

subsection \<open>The extractors meet the contract of a parser step\<close>

named_theorems extract_intros "contracts of the extractors, as introduction rules"

declare traced_ret [extract_intros] traced_in_ret [extract_intros] traced_in_throw [extract_intros]

lemma traced_throw_scope [extract_intros]:
  "traced R (with_trace key (\<lambda>td. throw_KeyNotFound td))"
  "traced R (with_trace key (\<lambda>td. throw_InvalidValue td v))"
  by (auto intro: traced_with_trace traced_in_throw)

lemma FindObject_in: "traced_in td (\<lambda>v. json_find L obj td = Some v) (FindObject L td obj)"
  by (auto simp: FindObject_def FindObjectRaw_def intro: extract_intros split: option.split)

lemma CheckType_in:
  "traced_in td (\<lambda>_. ConvertJsonTypeToValueType (json_type L v) = t) (CheckType L td v t)"
  by (auto simp: CheckType_def Let_def intro: extract_intros)

lemma or_invalid_in: "traced_in td (\<lambda>v. x = Some v) (or_invalid x td s)"
  by (auto simp: or_invalid_def intro: extract_intros split: option.split)

lemma or_invalid_at_traced: "traced (\<lambda>v. x = Some v) (or_invalid_at x key s)"
  by (auto simp: or_invalid_at_def intro: extract_intros split: option.split)

text \<open>What most extractors do in their scope, with the first two steps bound.\<close>

lemmas check_bind = traced_in_bind [OF CheckType_in]
lemmas find_check_bind = traced_in_bind [OF FindObject_in] check_bind

lemma opt_update_traced:
  "(\<And>v. x = Some v \<Longrightarrow> traced (\<lambda>_. True) (f v r)) \<Longrightarrow> traced (\<lambda>_. True) (opt_update x f r)"
  by (auto simp: opt_update_def intro: extract_intros split: option.split)

lemma ExtractValueOpt_traced: "traced (\<lambda>_. True) (ExtractValueOpt L get obj key t)"
  unfolding ExtractValueOpt_def
  by (auto intro!: traced_with_trace extract_intros check_bind split: option.split)

lemma ExtractUnsignedNumberOpt_traced:
  "traced (\<lambda>r. case r of None \<Rightarrow> json_find L obj key = None
     | Some w \<Rightarrow> (\<exists>v. json_find L obj key = Some v \<and>
         ConvertJsonTypeToValueType (json_type L v) = Number \<and> unat w = unat (json_u64 L v)))
    (ExtractUnsignedNumberOpt L obj key :: 'w::len word option parser)"
proof -
  have "unat (ucast w :: 'w word) = unat w" if "\<not> (ucast (- 1 :: 'w word) :: 64 word) < w" for w
    using that by (rule ucast_below_max)
  then show ?thesis
    unfolding ExtractUnsignedNumberOpt_def
    by (auto simp: FindObjectRaw_def Let_def intro!: traced_with_trace extract_intros check_bind
        split: option.split)
qed

lemma ExtractUnsignedNumber_traced:
  "traced (\<lambda>w. \<exists>v. json_find L obj key = Some v \<and>
     ConvertJsonTypeToValueType (json_type L v) = Number \<and> unat w = unat (json_u64 L v))
    (ExtractUnsignedNumber L obj key)"
  unfolding ExtractUnsignedNumber_def
  by (rule traced_bind [OF ExtractUnsignedNumberOpt_traced])
    (auto intro: extract_intros split: option.splits)

lemma ExtractString_traced: "traced (\<lambda>_. True) (ExtractString L obj key)"
  unfolding ExtractString_def by (auto intro!: traced_with_trace extract_intros find_check_bind)

lemma ExtractStringOpt_traced: "traced (\<lambda>_. True) (ExtractStringOpt L obj key)"
  unfolding ExtractStringOpt_def
  by (auto intro!: traced_with_trace extract_intros check_bind split: option.split)

lemma ExtractLogLevel_traced: "traced (\<lambda>_. True) (ExtractLogLevel L obj)"
  unfolding ExtractLogLevel_def Let_def
  by (auto intro!: traced_with_trace extract_intros check_bind traced_in_bind [OF or_invalid_in]
      split: option.split)

lemma ExtractFrameType_traced: "traced (\<lambda>_. True) (ExtractFrameType L obj)"
  unfolding ExtractFrameType_def Let_def or_invalid_def
  by (auto intro!: traced_with_trace extract_intros find_check_bind split: option.split)

lemma ExtractIpAddressOptional_traced: "traced (\<lambda>_. True) (ExtractIpAddressOptional L obj)"
  unfolding ExtractIpAddressOptional_def Let_def
  by (auto intro!: traced_with_trace extract_intros check_bind traced_in_bind [OF or_invalid_in]
      split: option.split)

lemma ExtractIpAddress_traced: "traced (\<lambda>_. True) (ExtractIpAddress L obj)"
  unfolding ExtractIpAddress_def
  by (rule traced_bind [OF ExtractIpAddressOptional_traced])
    (auto intro: extract_intros split: option.split)

lemma ExtractIpPort_traced: "traced (\<lambda>p. p \<noteq> 0) (ExtractIpPort L obj)"
proof -
  have "ucast w \<noteq> (0 :: 16 word)" if "w \<noteq> 0" and "\<not> (ucast (- 1 :: 16 word) :: 64 word) < w" for w
  proof -
    from that(2) have "unat (ucast w :: 16 word) = unat w" by (rule ucast_below_max)
    with that(1) show ?thesis by (metis unat_eq_zero)
  qed
  then show ?thesis
    unfolding ExtractIpPort_def Let_def
    by (auto intro!: traced_with_trace extract_intros find_check_bind)
qed

lemma ExtractRs485Options_traced: "traced (\<lambda>_. True) (ExtractRs485Options L obj)"
  unfolding ExtractRs485Options_def
  by (auto intro!: traced_with_trace extract_intros check_bind
      traced_in_bind [OF traced_imp_in [OF ExtractValueOpt_traced]] split: option.split)

lemma ExtractRtuOptions_traced: "traced (\<lambda>_. True) (ExtractRtuOptions L obj)"
  unfolding ExtractRtuOptions_def Let_def
  by (intro traced_bind [OF traced_weaken [OF ExtractUnsignedNumberOpt_traced TrueI]]
      traced_bind [OF ExtractStringOpt_traced] traced_bind [OF ExtractValueOpt_traced]
      traced_bind [OF ExtractRs485Options_traced] traced_bind [OF opt_update_traced] traced_ret TrueI;
      force intro: traced_ret traced_raise simp: parser_base_def
        intro!: traced_bind [OF or_invalid_at_traced])

lemma ExtractNumericRangeType_traced: "traced (\<lambda>_. True) (ExtractNumericRangeType L obj)"
  unfolding ExtractNumericRangeType_def or_invalid_def
  by (auto intro!: traced_with_trace extract_intros
      traced_in_bind [OF traced_imp_in [OF ExtractString_traced]] split: option.split)

definition unit_id_ok :: "('j, 'a, 'u::len word) config_lib \<Rightarrow> 'u word \<Rightarrow> bool" where
  "unit_id_ok L u \<longleftrightarrow> unitIdMin L \<le> u \<and> u \<le> unitIdMax L"

lemma ExtractModbusUnitId_traced: "traced (unit_id_ok L) (ExtractModbusUnitId L obj key)"
  unfolding ExtractModbusUnitId_def
  by (rule traced_bind [OF ExtractUnsignedNumber_traced])
    (auto intro!: extract_intros simp: unit_id_ok_def)

definition range_ok :: "('j, 'a, 'u::len word) config_lib \<Rightarrow> 'u word unit_id_range \<Rightarrow> bool" where
  "range_ok L r \<longleftrightarrow> unit_id_ok L (range_begin r) \<and> unit_id_ok L (range_end r) \<and>
     range_begin r \<le> range_end r"

lemma UnitIdRange_traced: "traced (range_ok L) (UnitIdRange L obj)"
  unfolding UnitIdRange_def
  by (rule traced_bind [OF ExtractNumericRangeType_traced])
    (auto intro!: traced_bind [OF ExtractModbusUnitId_traced] traced_ret
      simp: range_ok_def UnitIdRange_Normalize_def split: numeric_range_type.split)

lemma ExtractUnitIdRangeSet_traced:
  "traced (\<lambda>r. case r of None \<Rightarrow> True | Some rs \<Rightarrow> rs \<noteq> [] \<and> list_all (range_ok L) rs)
    (ExtractUnitIdRangeSet L obj)"
  unfolding ExtractUnitIdRangeSet_def
  by (auto intro!: traced_with_trace extract_intros check_bind
      traced_in_bind [OF traced_imp_in [OF traced_indices [OF UnitIdRange_traced]]]
      split: option.split)

end
