(* ===== verification/Gateway_Config.thy ===== *)
theory Gateway_Config
  imports Config_Extract
begin

text \<open>
  The configuration objects and how they are read from the parsed JSON document
  (\<^verbatim>\<open>config.cpp\<close>, \<^verbatim>\<open>config_service.cpp\<close>,
  \<^verbatim>\<open>master_config.cpp\<close> and the four transport configurations of
  \<^verbatim>\<open>src/src/config\<close>). A constructor that reads from JSON is a parser step.
\<close>

subsection \<open>The service section\<close>

record config_service =
  logLevel :: log_level
  threads :: "64 word"

definition ConfigService_default :: config_service where
  "ConfigService_default = \<lparr>logLevel = Info, threads = 1\<rparr>"

definition ConfigService :: "('j, 'a, 'u) config_lib \<Rightarrow> 'j \<Rightarrow> config_service parser" where
  "ConfigService L data =
     pbind (ExtractLogLevel L data) (\<lambda>logLevelOpt.
     let c = (case logLevelOpt of None \<Rightarrow> ConfigService_default
              | Some l \<Rightarrow> ConfigService_default\<lparr>logLevel := l\<rparr>) in
     pbind (ExtractUnsignedNumberOpt L data keys_threads) (\<lambda>threadsOpt.
     pret (case threadsOpt of None \<Rightarrow> c | Some t \<Rightarrow> c\<lparr>threads := t\<rparr>)))"

definition ExtractConfigService :: "('j, 'a, 'u) config_lib \<Rightarrow> 'j \<Rightarrow> config_service parser" where
  "ExtractConfigService L obj = with_trace keys_service (\<lambda>td.
     pbind (FindObject L td obj) (\<lambda>res. pbind (CheckType L td res Object) (\<lambda>_.
     ConfigService L res)))"

subsection \<open>The transports\<close>

text \<open>\<^verbatim>\<open>std::chrono::milliseconds(size_t)\<close> reinterprets the number as signed.\<close>

record 'u master_config =
  mc_timeout :: chrono_rep
  unitIdSet :: "'u unit_id_range list"

definition MasterConfig :: "('j, 'a, 'u::len word) config_lib \<Rightarrow> 'j \<Rightarrow> 'u word master_config parser" where
  "MasterConfig L obj =
     pbind (ExtractUnsignedNumber L obj keys_timeout) (\<lambda>timeout.
     pbind (ExtractUnitIdRangeSet L obj) (\<lambda>unitIdSetOpt.
     pret \<lparr>mc_timeout = timeout, unitIdSet = (case unitIdSetOpt of None \<Rightarrow> [] | Some rs \<Rightarrow> rs)\<rparr>))"

datatype transport_type = TcpServer | RtuSlave | TcpClient | RtuMaster

text \<open>The dynamic type of a \<^verbatim>\<open>TransportConfigPtr\<close>, with the members of each class.\<close>

datatype ('a, 'u) transport_config =
    TcpServerConfig 'a "16 word"
  | RtuSlaveConfig string rtu_options frame_type
  | TcpClientConfig "'u master_config" 'a "16 word"
  | RtuMasterConfig "'u master_config" string rtu_options frame_type

definition TransportConfig_GetType :: "('a, 'u) transport_config \<Rightarrow> transport_type" where
  "TransportConfig_GetType c = (case c of TcpServerConfig a p \<Rightarrow> TcpServer
     | RtuSlaveConfig d r f \<Rightarrow> RtuSlave | TcpClientConfig m a p \<Rightarrow> TcpClient
     | RtuMasterConfig m d r f \<Rightarrow> RtuMaster)"

text \<open>\<^verbatim>\<open>GetFrameType\<close> of the two serial classes; the others have no such method.\<close>

definition RtuSlaveConfig_GetFrameType :: "('a, 'u) transport_config \<Rightarrow> frame_type option" where
  "RtuSlaveConfig_GetFrameType c = (case c of RtuSlaveConfig d r f \<Rightarrow> Some f | _ \<Rightarrow> None)"

definition RtuMasterConfig_GetFrameType :: "('a, 'u) transport_config \<Rightarrow> frame_type option" where
  "RtuMasterConfig_GetFrameType c = (case c of RtuMasterConfig m d r f \<Rightarrow> Some f | _ \<Rightarrow> None)"

text \<open>\<^verbatim>\<open>dynamic_pointer_cast<MasterConfig>\<close>\<close>

definition as_MasterConfig :: "('a, 'u) transport_config \<Rightarrow> 'u master_config option" where
  "as_MasterConfig c = (case c of TcpClientConfig m a p \<Rightarrow> Some m
     | RtuMasterConfig m d r f \<Rightarrow> Some m | _ \<Rightarrow> None)"

definition new_TcpServerConfig :: "('j, 'a, 'u) config_lib \<Rightarrow> 'j \<Rightarrow> ('a, 'u) transport_config parser" where
  "new_TcpServerConfig L obj =
     pbind (ExtractIpAddressOptional L obj) (\<lambda>addrOpt.
     pbind (ExtractIpPort L obj) (\<lambda>port.
     pret (TcpServerConfig (case addrOpt of None \<Rightarrow> address_any L | Some a \<Rightarrow> a) port)))"

definition new_RtuSlaveConfig :: "('j, 'a, 'u) config_lib \<Rightarrow> 'j \<Rightarrow> frame_type \<Rightarrow>
    ('a, 'u) transport_config parser" where
  "new_RtuSlaveConfig L obj frameType =
     pbind (ExtractString L obj keys_device) (\<lambda>device.
     pbind (ExtractRtuOptions L obj) (\<lambda>options. pret (RtuSlaveConfig device options frameType)))"

definition new_TcpClientConfig :: "('j, 'a, 'u::len word) config_lib \<Rightarrow> 'j \<Rightarrow>
    ('a, 'u word) transport_config parser" where
  "new_TcpClientConfig L obj =
     pbind (MasterConfig L obj) (\<lambda>m.
     pbind (ExtractIpAddress L obj) (\<lambda>address.
     pbind (ExtractIpPort L obj) (\<lambda>port. pret (TcpClientConfig m address port))))"

definition new_RtuMasterConfig :: "('j, 'a, 'u::len word) config_lib \<Rightarrow> 'j \<Rightarrow> frame_type \<Rightarrow>
    ('a, 'u word) transport_config parser" where
  "new_RtuMasterConfig L obj frameType =
     pbind (MasterConfig L obj) (\<lambda>m.
     pbind (ExtractString L obj keys_device) (\<lambda>device.
     pbind (ExtractRtuOptions L obj) (\<lambda>options. pret (RtuMasterConfig m device options frameType))))"

definition ExtractSlave :: "('j, 'a, 'u) config_lib \<Rightarrow> 'j \<Rightarrow> ('a, 'u) transport_config parser" where
  "ExtractSlave L obj = pbind (ExtractFrameType L obj) (\<lambda>frameType. case frameType of
     TCP \<Rightarrow> new_TcpServerConfig L obj
   | RTU \<Rightarrow> new_RtuSlaveConfig L obj frameType
   | ASCII \<Rightarrow> new_RtuSlaveConfig L obj frameType)"

definition ExtractMaster :: "('j, 'a, 'u::len word) config_lib \<Rightarrow> 'j \<Rightarrow>
    ('a, 'u word) transport_config parser" where
  "ExtractMaster L obj = pbind (ExtractFrameType L obj) (\<lambda>frameType. case frameType of
     TCP \<Rightarrow> new_TcpClientConfig L obj
   | RTU \<Rightarrow> new_RtuMasterConfig L obj frameType
   | ASCII \<Rightarrow> new_RtuMasterConfig L obj frameType)"

definition ExtractSlaves :: "('j, 'a, 'u) config_lib \<Rightarrow> 'j \<Rightarrow> ('a, 'u) transport_config list parser" where
  "ExtractSlaves L obj = with_trace keys_slaves (\<lambda>td.
     pbind (FindObject L td obj) (\<lambda>slaves. pbind (CheckType L td slaves Array) (\<lambda>_.
     if json_elements L slaves = [] then throw_InvalidValue td (keys_slaves @ '' empty'')
     else with_indices (ExtractSlave L) 0 (json_elements L slaves))))"

definition ExtractMasters :: "('j, 'a, 'u::len word) config_lib \<Rightarrow> 'j \<Rightarrow>
    ('a, 'u word) transport_config list parser" where
  "ExtractMasters L obj = with_trace keys_masters (\<lambda>td.
     pbind (FindObject L td obj) (\<lambda>servers. pbind (CheckType L td servers Array) (\<lambda>_.
     if json_elements L servers = [] then throw_InvalidValue td (keys_masters @ '' empty'')
     else with_indices (ExtractMaster L) 0 (json_elements L servers))))"

subsection \<open>Config\<close>

record ('a, 'u) config =
  configService :: config_service
  slaves :: "('a, 'u) transport_config list"
  masters :: "('a, 'u) transport_config list"

definition Config_extract :: "('j, 'a, 'u::len word) config_lib \<Rightarrow> 'j \<Rightarrow> ('a, 'u word) config parser" where
  "Config_extract L data =
     pbind (ExtractConfigService L data) (\<lambda>service.
     pbind (ExtractSlaves L data) (\<lambda>slaves.
     pbind (ExtractMasters L data) (\<lambda>masters.
     pret \<lparr>configService = service, slaves = slaves, masters = masters\<rparr>)))"

text \<open>The constructor; \<open>parsed\<close> is \<open>None\<close> when \<^verbatim>\<open>json::parse\<close> throws.\<close>

definition Config :: "('j, 'a, 'u::len word) config_lib \<Rightarrow> 'j option \<Rightarrow>
    gateway_exception + ('a, 'u word) config" where
  "Config L parsed = (case parsed of None \<Rightarrow> Inl LibraryError
     | Some data \<Rightarrow> fst (Config_extract L data (TracePath_Push ''config'' [])))"

text \<open>\<^verbatim>\<open>Validate\<close>: the indexes of the masters without unit ids.\<close>

fun default_indexes :: "nat \<Rightarrow> ('a, 'u) transport_config list \<Rightarrow> nat list" where
  "default_indexes masterIndex [] = []"
| "default_indexes masterIndex (master # rest) =
     (case master of
        TcpClientConfig m a p \<Rightarrow> if unitIdSet m = [] then [masterIndex] else []
      | RtuMasterConfig m d r f \<Rightarrow> if unitIdSet m = [] then [masterIndex] else []
      | _ \<Rightarrow> []) @ default_indexes (Suc masterIndex) rest"

definition Config_Validate :: "('a, 'u) config \<Rightarrow> gateway_exception + unit" where
  "Config_Validate c =
     (let defaultIdIndexes = default_indexes 0 (masters c) in
      if 1 < length defaultIdIndexes
      then fst (with_trace keys_masters (\<lambda>td.
             throw_InvalidValue td ''more then one master with default unit id'')
             (TracePath_Push ''config'' []))
      else Inr ())"

subsection \<open>Contracts of the constructors\<close>

definition slave_ok :: "('a, 'u) transport_config \<Rightarrow> bool" where
  "slave_ok c = (case c of TcpServerConfig a p \<Rightarrow> p \<noteq> 0 | RtuSlaveConfig d r f \<Rightarrow> f \<noteq> TCP | _ \<Rightarrow> False)"

definition master_ok :: "('j, 'a, 'u::len word) config_lib \<Rightarrow> ('a, 'u word) transport_config \<Rightarrow> bool" where
  "master_ok L c = (case c of
     TcpClientConfig m a p \<Rightarrow> p \<noteq> 0 \<and> list_all (range_ok L) (unitIdSet m)
   | RtuMasterConfig m d r f \<Rightarrow> f \<noteq> TCP \<and> list_all (range_ok L) (unitIdSet m) | _ \<Rightarrow> False)"

lemma ConfigService_traced: "traced (\<lambda>_. True) (ConfigService L data)"
  unfolding ConfigService_def Let_def
  by (intro traced_bind [OF ExtractLogLevel_traced] traced_bind [OF traced_weaken [OF ExtractUnsignedNumberOpt_traced TrueI]]
      traced_ret TrueI)

lemma ExtractConfigService_traced: "traced (\<lambda>_. True) (ExtractConfigService L obj)"
  unfolding ExtractConfigService_def
  by (auto intro!: traced_with_trace extract_intros find_check_bind traced_imp_in [OF ConfigService_traced])

lemma MasterConfig_traced: "traced (\<lambda>m. list_all (range_ok L) (unitIdSet m)) (MasterConfig L obj)"
  unfolding MasterConfig_def
  by (rule traced_bind [OF ExtractUnsignedNumber_traced], rule traced_bind [OF ExtractUnitIdRangeSet_traced],
      rule traced_ret) (auto split: option.splits)

lemma new_TcpServerConfig_traced: "traced slave_ok (new_TcpServerConfig L obj)"
  unfolding new_TcpServerConfig_def
  by (auto intro!: traced_bind [OF ExtractIpAddressOptional_traced] traced_bind [OF ExtractIpPort_traced]
      traced_ret simp: slave_ok_def)

lemma new_RtuSlaveConfig_traced: "f \<noteq> TCP \<Longrightarrow> traced slave_ok (new_RtuSlaveConfig L obj f)"
  unfolding new_RtuSlaveConfig_def
  by (auto intro!: traced_bind [OF ExtractString_traced] traced_bind [OF ExtractRtuOptions_traced]
      traced_ret simp: slave_ok_def)

lemma new_TcpClientConfig_traced: "traced (master_ok L) (new_TcpClientConfig L obj)"
  unfolding new_TcpClientConfig_def
  by (auto intro!: traced_bind [OF MasterConfig_traced] traced_bind [OF ExtractIpAddress_traced]
      traced_bind [OF ExtractIpPort_traced] traced_ret simp: master_ok_def)

lemma new_RtuMasterConfig_traced: "f \<noteq> TCP \<Longrightarrow> traced (master_ok L) (new_RtuMasterConfig L obj f)"
  unfolding new_RtuMasterConfig_def
  by (auto intro!: traced_bind [OF MasterConfig_traced] traced_bind [OF ExtractString_traced]
      traced_bind [OF ExtractRtuOptions_traced] traced_ret simp: master_ok_def)

lemma ExtractSlave_traced: "traced slave_ok (ExtractSlave L obj)"
  unfolding ExtractSlave_def
  by (rule traced_bind [OF ExtractFrameType_traced])
    (auto intro: new_TcpServerConfig_traced new_RtuSlaveConfig_traced split: frame_type.split)

lemma ExtractMaster_traced: "traced (master_ok L) (ExtractMaster L obj)"
  unfolding ExtractMaster_def
  by (rule traced_bind [OF ExtractFrameType_traced])
    (auto intro: new_TcpClientConfig_traced new_RtuMasterConfig_traced split: frame_type.split)

lemma traced_indices_nonempty:
  assumes "\<And>j. traced R (f j)" and "js \<noteq> []"
  shows "traced (\<lambda>xs. xs \<noteq> [] \<and> list_all R xs) (with_indices f index js)"
  by (rule traced_weaken [OF traced_indices [OF assms(1)]]) (use assms(2) in auto)

lemma ExtractSlaves_traced: "traced (\<lambda>cs. cs \<noteq> [] \<and> list_all slave_ok cs) (ExtractSlaves L obj)"
  unfolding ExtractSlaves_def
  by (auto intro!: traced_with_trace extract_intros find_check_bind
      traced_imp_in [OF traced_indices_nonempty [OF ExtractSlave_traced]])

lemma ExtractMasters_traced: "traced (\<lambda>cs. cs \<noteq> [] \<and> list_all (master_ok L) cs) (ExtractMasters L obj)"
  unfolding ExtractMasters_def
  by (auto intro!: traced_with_trace extract_intros find_check_bind
      traced_imp_in [OF traced_indices_nonempty [OF ExtractMaster_traced]])

text \<open>What a configuration that was read satisfies.\<close>

definition config_ok :: "('j, 'a, 'u::len word) config_lib \<Rightarrow> ('a, 'u word) config \<Rightarrow> bool" where
  "config_ok L c \<longleftrightarrow> slaves c \<noteq> [] \<and> list_all slave_ok (slaves c) \<and>
     masters c \<noteq> [] \<and> list_all (master_ok L) (masters c)"

lemma Config_extract_traced: "traced (config_ok L) (Config_extract L data)"
  unfolding Config_extract_def
  by (auto intro!: traced_bind [OF ExtractConfigService_traced] traced_bind [OF ExtractSlaves_traced]
      traced_bind [OF ExtractMasters_traced] traced_ret simp: config_ok_def)

lemma Config_ok: "Config L parsed = Inr c \<Longrightarrow> config_ok L c"
  by (cases parsed; cases "Config_extract L (the parsed) [''config'']")
    (auto simp: Config_def TracePath_Push_def dest: traced_resultD [OF Config_extract_traced])

text \<open>The masters without unit ids, in the order of the file.\<close>

definition is_default :: "('a, 'u) transport_config \<Rightarrow> bool" where
  "is_default c = (case as_MasterConfig c of None \<Rightarrow> False | Some m \<Rightarrow> unitIdSet m = [])"

lemma default_indexes_length: "length (default_indexes n ms) = length (filter is_default ms)"
  by (induction ms arbitrary: n)
    (auto simp: is_default_def as_MasterConfig_def split: transport_config.split)

subsection \<open>A concrete JSON library, for the witnesses\<close>

datatype sample_json = JObj "(string \<times> sample_json) list" | JArr "sample_json list" | JStr string | JInt int

fun sample_type :: "sample_json \<Rightarrow> json_value_t" where
  "sample_type (JObj kvs) = value_object"
| "sample_type (JArr js) = value_array"
| "sample_type (JStr s) = value_string"
| "sample_type (JInt i) = (if i < 0 then value_number_integer else value_number_unsigned)"

fun sample_find :: "sample_json \<Rightarrow> string \<Rightarrow> sample_json option" where
  "sample_find (JObj kvs) k = map_of kvs k"
| "sample_find _ k = None"

fun sample_elements :: "sample_json \<Rightarrow> sample_json list" where
  "sample_elements (JArr js) = js"
| "sample_elements _ = []"

fun sample_int :: "sample_json \<Rightarrow> int" where
  "sample_int (JInt i) = i"
| "sample_int _ = 0"

fun sample_string :: "sample_json \<Rightarrow> string" where
  "sample_string (JStr s) = s"
| "sample_string _ = []"

definition sample_config_lib :: "(sample_json, nat, 8 word) config_lib" where
  "sample_config_lib = \<lparr>json_type = sample_type, json_find = sample_find,
     json_elements = sample_elements, json_string = sample_string, json_bool = (\<lambda>j. False),
     json_u64 = (\<lambda>j. word_of_int (sample_int j)), json_u32 = (\<lambda>j. word_of_int (sample_int j)),
     json_float = (\<lambda>j. of_int (sample_int j)), float_to_string = (\<lambda>x. []),
     make_address_v4 = (\<lambda>s. if s = ''127.0.0.1'' then Some 1 else None), address_any = 0,
     character_size_ok = (\<lambda>w. w = 8), default_rtu_options = \<lparr>baudRate = 0, characterSize = 8,
       opt_parity = parity_none, stopBits = stop_bits_one, flowControl = flow_control_none,
       opt_rs485 = None\<rparr>, unitIdMin = 1, unitIdMax = 247\<rparr>"

definition sample_master_json :: "sample_json \<Rightarrow> sample_json" where
  "sample_master_json unit_ids = JObj [(''frame_type'', JStr ''tcp''), (''timeout_ms'', JInt (- 1)),
     (''ip_address'', JStr ''127.0.0.1''), (''ip_port'', JInt 502), (''unit_id'', unit_ids)]"

definition sample_document :: "sample_json \<Rightarrow> sample_json" where
  "sample_document unit_ids = JObj [(''service'', JObj []),
     (''slaves'', JArr [JObj [(''frame_type'', JStr ''tcp''), (''ip_port'', JInt 503)]]),
     (''masters'', JArr [sample_master_json unit_ids])]"

definition sample_range :: "int \<Rightarrow> sample_json" where
  "sample_range e = JObj [(''type'', JStr ''range''), (''begin'', JInt e), (''end'', JInt 1)]"

text \<open>The parts of the two sample documents are evaluated one by one, at their paths.\<close>

lemma sample_service: "ExtractConfigService sample_config_lib (sample_document u) [''config''] =
    (Inr ConfigService_default, [''config''])"
  by code_simp

lemma sample_slaves: "ExtractSlaves sample_config_lib (sample_document u) [''config''] =
    (Inr [TcpServerConfig 0 503], [''config''])"
  by code_simp

lemma sample_master:
  "ExtractMaster sample_config_lib (sample_master_json (JArr [sample_range 9])) [''config'', ''masters'', ''0''] =
    (Inr (TcpClientConfig \<lparr>mc_timeout = - 1, unitIdSet = [\<lparr>range_begin = 1, range_end = 9\<rparr>]\<rparr> 1 502),
     [''config'', ''masters'', ''0''])"
  "ExtractMaster sample_config_lib (sample_master_json (JArr [sample_range 300])) [''config'', ''masters'', ''0''] =
    (Inl (InvalidValueException \<lparr>ex_path = ''config.masters.0.unit_id.0.begin'', ex_key = ''begin''\<rparr> ''300''),
     [''config'', ''masters'', ''0''])"
  by code_simp+

lemma sample_masters_json:
  "sample_find (sample_document u) ''masters'' = Some (JArr [sample_master_json u])"
  by (simp add: sample_document_def)

lemma sample_masters:
  "ExtractMasters sample_config_lib (sample_document u) [''config''] =
    (case ExtractMaster sample_config_lib (sample_master_json u) [''config'', ''masters'', ''0''] of
       (Inl e, p) \<Rightarrow> (Inl e, butlast (butlast p)) | (Inr x, p) \<Rightarrow> (Inr [x], butlast (butlast p)))"
proof -
  have lib: "json_type sample_config_lib = sample_type" "json_find sample_config_lib = sample_find"
    "json_elements sample_config_lib = sample_elements" by (simp_all add: sample_config_lib_def)
  have zero: "to_string 0 = ''0''" by code_simp
  have pop: "TracePath_Pop p = butlast p" for p by (simp add: TracePath_Pop_def)
  show ?thesis
    by (simp add: ExtractMasters_def with_trace_def pbind_def pret_def FindObject_def FindObjectRaw_def
        CheckType_def ConvertJsonTypeToValueType_def keys_masters_def TracePath_Push_def pop
        sample_masters_json lib zero split: prod.split sum.split)
qed

lemma sample_good:
  "Config sample_config_lib (Some (sample_document (JArr [sample_range 9]))) =
    Inr \<lparr>configService = ConfigService_default, slaves = [TcpServerConfig 0 503],
      masters = [TcpClientConfig \<lparr>mc_timeout = - 1, unitIdSet = [\<lparr>range_begin = 1, range_end = 9\<rparr>]\<rparr> 1 502]\<rparr>"
  by (simp add: Config_def Config_extract_def pbind_def pret_def TracePath_Push_def sample_service
      sample_slaves sample_masters sample_master)

lemma sample_bad:
  "Config sample_config_lib (Some (sample_document (JArr [sample_range 300]))) =
    Inl (InvalidValueException \<lparr>ex_path = ''config.masters.0.unit_id.0.begin'', ex_key = ''begin''\<rparr> ''300'')"
  by (simp add: Config_def Config_extract_def pbind_def pret_def TracePath_Push_def sample_service
      sample_slaves sample_masters sample_master)

lemma Config_error_path:
  assumes "Config L parsed = Inl e" and "parser_base e = Some b"
  shows "\<exists>ks. GetFullPath b = TracePath_GetPath (''config'' # ks @ [GetTargetKey b])"
proof (cases parsed)
  case None
  with assms show ?thesis by (auto simp: Config_def parser_base_def)
next
  case (Some data)
  with assms(1) obtain path' where "Config_extract L data [''config''] = (Inl e, path')"
    by (cases "Config_extract L data [''config'']") (simp add: Config_def TracePath_Push_def)
  from traced_errorD [OF Config_extract_traced this] assms(2) show ?thesis
    by (auto simp: extends_path_def GetFullPath_def GetTargetKey_def)
qed

subsection \<open>Properties\<close>

text \<open>
  C28: whenever reading a configuration fails with an exception of the parser, the path it
  reports starts at the root and ends in the key it names, whichever extractor threw it.
\<close>

theorem Config_errors_located:
  assumes "Config L parsed = Inl e" and "parser_base e = Some b"
  shows "\<exists>ks. GetFullPath b = TracePath_GetPath (''config'' # ks @ [GetTargetKey b])"
  using assms by (rule Config_error_path)

theorem Config_errors_located_witness:
  "\<exists>ks. ''config.masters.0.unit_id.0.begin'' = TracePath_GetPath (''config'' # ks @ [''begin''])"
  using Config_errors_located [OF sample_bad] by (simp add: parser_base_def GetFullPath_def GetTargetKey_def)

text \<open>
  C27: a configuration that was read has at least one slave and one master, each of a class its
  section allows, no TCP frame type on a serial line, no port zero, and only unit id ranges that
  are ordered and lie between the smallest and the largest unit id.
\<close>

theorem Config_values_in_range:
  assumes "Config L parsed = Inr c"
  shows "slaves c \<noteq> [] \<and> masters c \<noteq> [] \<and>
    (\<forall>s \<in> set (slaves c). case s of TcpServerConfig a p \<Rightarrow> p \<noteq> 0 | RtuSlaveConfig d r f \<Rightarrow> f \<noteq> TCP
       | _ \<Rightarrow> False) \<and>
    (\<forall>m \<in> set (masters c). case m of TcpClientConfig mc a p \<Rightarrow> p \<noteq> 0
       | RtuMasterConfig mc d r f \<Rightarrow> f \<noteq> TCP | _ \<Rightarrow> False) \<and>
    (\<forall>m \<in> set (masters c). \<forall>mc. as_MasterConfig m = Some mc \<longrightarrow>
       (\<forall>r \<in> set (unitIdSet mc). unitIdMin L \<le> range_begin r \<and> range_begin r \<le> range_end r \<and>
          range_end r \<le> unitIdMax L))"
  using Config_ok [OF assms]
  by (auto simp: config_ok_def list_all_iff slave_ok_def master_ok_def as_MasterConfig_def
      range_ok_def unit_id_ok_def split: transport_config.splits)

theorem Config_values_in_range_witness:
  "\<exists>c. Config sample_config_lib (Some (sample_document (JArr [sample_range 9]))) = Inr c \<and>
    (\<forall>m \<in> set (masters c). case m of TcpClientConfig mc a p \<Rightarrow> p \<noteq> 0
       | RtuMasterConfig mc d r f \<Rightarrow> f \<noteq> TCP | _ \<Rightarrow> False)"
  using Config_values_in_range [OF sample_good] sample_good by blast

text \<open>
  C26: \<^verbatim>\<open>Validate\<close> accepts a configuration exactly when at most one of its masters
  has no unit ids; otherwise it reports the masters section.
\<close>

theorem Config_Validate_correct:
  "(Config_Validate c = Inr () \<longleftrightarrow> length (filter is_default (masters c)) \<le> 1) \<and>
   (case Config_Validate c of Inr u \<Rightarrow> True | Inl e \<Rightarrow>
      e = InvalidValueException \<lparr>ex_path = ''config.masters'', ex_key = ''masters''\<rparr>
        ''more then one master with default unit id'')"
  by (simp add: Config_Validate_def default_indexes_length Let_def with_trace_def throw_InvalidValue_def
      praise_def ParserException_def TracePath_Push_def TracePath_GetPath_def keys_masters_def)

text \<open>
  a negative timeout in the configuration is accepted: the JSON library turns it into a
  large unsigned number that passes the range check of \<^verbatim>\<open>size_t\<close>, and the
  conversion to milliseconds makes it negative again. Every request such a master is given has
  then already expired when it arrives.
\<close>

lemma MasterConfig_negative_timeout:
  assumes "json_find L obj ''timeout_ms'' = Some v" and "json_find L obj ''unit_id'' = None"
    and "json_type L v = value_number_integer" and "json_u64 L v = word_of_int ms"
    and "- 1000 \<le> ms" and "ms < 0" and "0 \<le> sint now"
  shows "\<exists>m. fst (MasterConfig L obj path) = Inr m \<and> mc_timeout m = word_of_int ms \<and>
    message_expired now (mc_timeout m) (ModbusMessage (ModbusMessageInfo now a t) b)"
proof -
  have "\<not> ucast (- 1 :: 64 word) < (word_of_int ms :: 64 word)"
    using word_not_max_less [of "- 1 :: 64 word"] by (simp add: linorder_not_less)
  then have "fst (MasterConfig L obj path) = Inr \<lparr>mc_timeout = word_of_int ms, unitIdSet = []\<rparr>"
    using assms(1-4)
    by (simp add: MasterConfig_def ExtractUnsignedNumber_def ExtractUnsignedNumberOpt_def
        ExtractUnitIdRangeSet_def with_trace_def pbind_def pret_def FindObjectRaw_def CheckType_def
        ConvertJsonTypeToValueType_def keys_timeout_def keys_unitIdSet_def Let_def)
  moreover have "message_expired now (word_of_int ms) (ModbusMessage (ModbusMessageInfo now a t) b)"
  proof -
    have "sint (milliseconds_to_nanoseconds (word_of_int ms)) = ms * 1000000"
    proof -
      have "milliseconds_to_nanoseconds (word_of_int ms) = word_of_int (ms * 1000000)"
        by (simp add: milliseconds_to_nanoseconds_def)
      then show ?thesis using assms(5,6) by (simp only: sint_sbintrunc') (simp add: signed_take_bit_int_eq_self)
    qed
    then have "sint (now + milliseconds_to_nanoseconds (word_of_int ms)) = sint now + ms * 1000000"
      using assms(5-7) sint_lt [of now] by (simp add: sint_word_ariths signed_take_bit_int_eq_self)
    with assms(6) show ?thesis
      by (simp add: message_expired_def TimeoutReached_def ModbusMessageInfo_def step_simps Let_def)
  qed
  ultimately show ?thesis by simp
qed

theorem MasterConfig_negative_timeout_witness:
  "\<exists>m. fst (MasterConfig sample_config_lib (JObj [(''timeout_ms'', JInt (- 1))]) []) = Inr m \<and>
    mc_timeout m = - 1 \<and>
    message_expired 5 (mc_timeout m) (ModbusMessage (ModbusMessageInfo 5 7 (3 :: 16 word)) (Some ''x''))"
  using MasterConfig_negative_timeout [of sample_config_lib "JObj [(''timeout_ms'', JInt (- 1))]" "JInt (- 1)" "- 1" 5]
  by (simp add: sample_config_lib_def)

text \<open>
  the error for a unit id range without a type reports the key twice: the extractor opens a
  scope for the key and then calls the string extractor, which opens it again.
\<close>

lemma ExtractNumericRangeType_path:
  assumes "json_find L obj ''type'' = None"
  shows "fst (ExtractNumericRangeType L obj path) = Inl (KeyNotFoundException
    \<lparr>ex_path = TracePath_GetPath (path @ [''type'', ''type'']), ex_key = ''type''\<rparr>)"
  using assms
  by (simp add: ExtractNumericRangeType_def ExtractString_def with_trace_def pbind_def FindObject_def
      FindObjectRaw_def throw_KeyNotFound_def praise_def ParserException_def TracePath_Push_def
      keys_numericRangeType_def)

theorem ExtractNumericRangeType_path_witness:
  "fst (ExtractNumericRangeType sample_config_lib (JObj []) [''unit_id'', ''0'']) =
    Inl (KeyNotFoundException \<lparr>ex_path = ''unit_id.0.type.type'', ex_key = ''type''\<rparr>)"
  using ExtractNumericRangeType_path [of sample_config_lib "JObj []"]
  by (simp add: sample_config_lib_def TracePath_GetPath_def)

end
