(* ===== verification/Unit_Router.thy ===== *)
theory Unit_Router
  imports MG_Prelude
begin

text \<open>
  The routing table from Modbus unit ids to master actors
  (\<^verbatim>\<open>src/src/transport/router.cpp\<close> and \<^verbatim>\<open>router.h\<close>). It is a
  \<^verbatim>\<open>std::array\<close> with \<^verbatim>\<open>numeric_limits<UnitId>::max()\<close> elements,
  indexed by the unit id; an index outside the array is undefined behaviour, \<open>None\<close> here. The
  width of a unit id is the length of its word type.
\<close>

record router =
  routeMap :: "actor_id list"

definition UnitId_max :: "'u::len itself \<Rightarrow> nat" where
  "UnitId_max _ = 2 ^ LENGTH('u) - 1"

definition Router :: "'u::len itself \<Rightarrow> actor_id \<Rightarrow> router" where
  "Router u defaultId = \<lparr>routeMap = replicate (UnitId_max u) defaultId\<rparr>"

definition Router_Route :: "router \<Rightarrow> 'u::len word \<Rightarrow> actor_id option" where
  "Router_Route r unitId =
     (if unat unitId < length (routeMap r) then Some (routeMap r ! unat unitId) else None)"

definition Router_Set :: "'u::len word \<Rightarrow> actor_id \<Rightarrow> router \<Rightarrow> router option" where
  "Router_Set unitId actorId r =
     (if unat unitId < length (routeMap r)
      then Some (r\<lparr>routeMap := (routeMap r)[unat unitId := actorId]\<rparr>) else None)"

subsection \<open>The interface IRouter\<close>

text \<open>
  A table that is written before it is read: \<open>route\<close> after \<open>assign\<close> gives the assigned actor
  for that key and the old one for every other key, on the keys the table supports.
\<close>

locale unit_routing =
  fixes route :: "'r \<Rightarrow> 'k \<Rightarrow> actor_id option"
    and assign :: "'k \<Rightarrow> actor_id \<Rightarrow> 'r \<Rightarrow> 'r option"
    and supported :: "'r \<Rightarrow> 'k set"
  assumes route_supported: "route r k \<noteq> None \<longleftrightarrow> k \<in> supported r"
    and assign_supported: "assign k a r \<noteq> None \<longleftrightarrow> k \<in> supported r"
    and route_assign: "assign k a r = Some r' \<Longrightarrow> route r' k' = (if k' = k then Some a else route r k')"
    and supported_assign: "assign k a r = Some r' \<Longrightarrow> supported r' = supported r"
begin

lemma assign_defined: "k \<in> supported r \<Longrightarrow> \<exists>r'. assign k a r = Some r' \<and> supported r' = supported r"
  using assign_supported [of k a r] supported_assign [of k a r] by auto

text \<open>Assigning one more key to the same actor, before or after a set of others.\<close>

lemma assign_then:
  assumes "assign k a r = Some r1"
    and "\<forall>x. route r2 x = (if P x then Some a else route r1 x)"
  shows "\<forall>x. route r2 x = (if x = k \<or> P x then Some a else route r x)"
  using assms(2) route_assign [OF assms(1)] by auto

end

subsection \<open>Router provides it\<close>

interpretation ur: unit_routing Router_Route Router_Set
  "\<lambda>r. {u :: 'u::len word. unat u < length (routeMap r)}"
  by unfold_locales
    (auto simp: Router_Route_def Router_Set_def nth_list_update word_unat_eq_iff split: if_splits)

lemma length_Router [simp]: "length (routeMap (Router TYPE('u::len) d)) = 2 ^ LENGTH('u) - 1"
  by (simp add: Router_def UnitId_max_def)

lemma unat_below_max: "unat (u :: 'u::len word) < 2 ^ LENGTH('u) - 1 \<longleftrightarrow> u \<noteq> - 1"
proof -
  have "unat u < 2 ^ LENGTH('u)" by simp
  moreover have "u = - 1 \<longleftrightarrow> unat u = 2 ^ LENGTH('u) - 1"
    by (simp add: word_unat_eq_iff unsigned_minus_1_eq_mask mask_eq_exp_minus_1)
  ultimately show ?thesis by linarith
qed

lemma Router_Route_default:
  "Router_Route (Router TYPE('u::len) d) (u :: 'u word) = (if u = - 1 then None else Some d)"
  using unat_below_max [of u] by (auto simp: Router_Route_def Router_def UnitId_max_def)

lemma Router_Route_None_iff:
  "length (routeMap r) = UnitId_max TYPE('u::len) \<Longrightarrow> Router_Route r (u :: 'u word) = None \<longleftrightarrow> u = - 1"
  using unat_below_max [of u] by (auto simp: Router_Route_def UnitId_max_def)

lemma Router_Set_length:
  "Router_Set u a r = Some r' \<Longrightarrow> length (routeMap r') = length (routeMap r)"
  by (auto simp: Router_Set_def split: if_splits)

end
