(* ===== verification/Request_Slot.thy ===== *)
theory Request_Slot
  imports MG_Prelude
begin

text \<open>
  The contract of the slave-side actors (\<^verbatim>\<open>ModbusTcpConnection\<close> and
  \<^verbatim>\<open>ModbusRtuSlave\<close>): each keeps one slot, \<^verbatim>\<open>syncRequestInfo_\<close>,
  for the last request it forwarded, and lets a response out only if it fits the slot, which it
  then clears.
\<close>

subsection \<open>What is visible of a slot\<close>

datatype 'k slot_event = Opened 'k | Answered 'k

text \<open>
  The slot after a history of events, \<open>None\<close> when the history answers a request that is not the
  open one.
\<close>

fun slot_after :: "'k option \<Rightarrow> 'k slot_event list \<Rightarrow> 'k option option" where
  "slot_after cur [] = Some cur"
| "slot_after cur (Opened k # h) = slot_after (Some k) h"
| "slot_after cur (Answered k # h) = (if cur = Some k then slot_after None h else None)"

definition opened :: "'k slot_event list \<Rightarrow> nat" where
  "opened h = length (filter (\<lambda>e. case e of Opened _ \<Rightarrow> True | Answered _ \<Rightarrow> False) h)"

definition answered :: "'k slot_event list \<Rightarrow> nat" where
  "answered h = length (filter (\<lambda>e. case e of Opened _ \<Rightarrow> False | Answered _ \<Rightarrow> True) h)"

lemma opened_simps [simp]:
  "opened [] = 0" "opened (Opened k # h) = Suc (opened h)" "opened (Answered k # h) = opened h"
  by (simp_all add: opened_def)

lemma answered_simps [simp]:
  "answered [] = 0" "answered (Opened k # h) = answered h"
  "answered (Answered k # h) = Suc (answered h)"
  by (simp_all add: answered_def)

lemma slot_after_append:
  "slot_after cur (g @ h) = Option.bind (slot_after cur g) (\<lambda>c. slot_after c h)"
  by (induction cur g rule: slot_after.induct) auto

lemma answered_le_opened:
  "slot_after cur h \<noteq> None \<Longrightarrow> answered h \<le> opened h + (if cur = None then 0 else 1)"
  by (induction cur h rule: slot_after.induct) (auto split: if_splits)

lemma slot_after_Some:
  "slot_after None h = Some (Some k) \<Longrightarrow> \<exists>g. h = g @ [Opened k]"
proof (induction h rule: rev_induct)
  case Nil
  then show ?case by simp
next
  case (snoc e h)
  then show ?case by (cases e) (auto simp: slot_after_append bind_eq_Some_conv split: if_splits)
qed

lemma answer_follows_request:
  assumes "slot_after None (g @ Answered k # h) \<noteq> None"
  shows "\<exists>g'. g = g' @ [Opened k]"
  using assms slot_after_Some [of g k]
  by (auto simp: slot_after_append bind_eq_Some_conv split: if_splits)

text \<open>A state with no open request can do at most what the same state with one can.\<close>

lemma slot_after_weaken:
  "slot_after a h = Some r \<Longrightarrow> a = None \<or> a = b \<Longrightarrow>
    \<exists>r'. slot_after b h = Some r' \<and> (r = None \<or> r = r')"
  by (induction a h arbitrary: b rule: slot_after.induct) (auto split: if_splits)

subsection \<open>The interface\<close>

text \<open>
  A component with steps, the open request of its state, and the slot events its outputs show.
  A step may also drop the open request without an answer. \<open>lawful\<close> is what the component
  assumes of the libraries it calls.
\<close>

locale request_slot =
  fixes step :: "'s \<Rightarrow> 'e \<Rightarrow> ('s \<times> 'o list) outcome"
    and slot :: "'s \<Rightarrow> 'k option"
    and view :: "'o \<Rightarrow> 'k slot_event list"
    and lawful :: bool
  assumes step_slot: "lawful \<Longrightarrow> step s e = Done (s', os) \<Longrightarrow>
      \<exists>cur. slot_after (slot s) (concat (map view os)) = Some cur \<and>
        (slot s' = None \<or> slot s' = cur)"
begin

lemma run_slot:
  assumes lawful and "run step s es = Done (s', os)"
  shows "\<exists>cur. slot_after (slot s) (concat (map view os)) = Some cur \<and>
    (slot s' = None \<or> slot s' = cur)"
  using assms(2)
proof (induction es arbitrary: s os)
  case Nil
  then show ?case by simp
next
  case (Cons e es)
  then obtain s1 os1 os2 where one: "step s e = Done (s1, os1)"
    and rest: "run step s1 es = Done (s', os2)" and os: "os = os1 @ os2"
    by (auto simp: run_Cons_Done simp del: run.simps)
  from step_slot [OF assms(1) one] obtain c1 where
    c1: "slot_after (slot s) (concat (map view os1)) = Some c1" "slot s1 = None \<or> slot s1 = c1"
    by blast
  from Cons.IH [OF rest] obtain c2 where
    c2: "slot_after (slot s1) (concat (map view os2)) = Some c2" "slot s' = None \<or> slot s' = c2"
    by blast
  from slot_after_weaken [OF c2(1) c1(2)] obtain c3 where
    "slot_after c1 (concat (map view os2)) = Some c3" and "c2 = None \<or> c2 = c3" by blast
  with c1(1) c2(2) os show ?case by (auto simp: slot_after_append)
qed

lemma answers_follow_requests:
  assumes lawful and "run step s es = Done (s', os)" and "slot s = None"
    and "concat (map view os) = g @ Answered k # h"
  shows "\<exists>g'. g = g' @ [Opened k]"
  using run_slot [OF assms(1,2)] assms(3,4) by (intro answer_follows_request [of g k h]) auto

lemma answers_bounded:
  assumes lawful and "run step s es = Done (s', os)" and "slot s = None"
  shows "answered (concat (map view os)) \<le> opened (concat (map view os))"
  using answered_le_opened [of "slot s" "concat (map view os)"] run_slot [OF assms(1,2)] assms(3)
  by auto

end

end
