(* ===== verification/Tcp_Connection.thy ===== *)
theory Tcp_Connection
  imports Sample_Frames Unit_Router Request_Slot
begin

text \<open>
  The actor of one accepted TCP connection of a Modbus client
  (\<^verbatim>\<open>src/src/transport/modbus_tcp_connection.cpp\<close>). A completed read is checked,
  remembered in \<^verbatim>\<open>syncRequestInfo_\<close> and routed to a master by its unit id; a
  response is written back if it fits the remembered request. Every function returns the new
  state and the effects in the order the code performs them; the handler of an asynchronous
  operation takes the error code and the size it completed with. The handlers hold no lock over
  the whole body; the only shared field is the slot, which each of them accesses once, so a
  handler takes effect at that access.
\<close>

record 't tcp_connection =
  conn_id :: actor_id
  conn_serverId :: actor_id
  conn_router :: router
  conn_requestInfo :: "'t message_info option"

definition ModbusTcpConnection :: "actor_id \<Rightarrow> actor_id \<Rightarrow> router \<Rightarrow> 't tcp_connection" where
  "ModbusTcpConnection defaultId serverId router =
     \<lparr>conn_id = defaultId, conn_serverId = serverId, conn_router = router, conn_requestInfo = None\<rparr>"

definition TcpConnection_SetId :: "actor_id \<Rightarrow> 't tcp_connection \<Rightarrow> 't tcp_connection" where
  "TcpConnection_SetId i c = c\<lparr>conn_id := i\<rparr>"

definition TcpConnection_ResetId :: "actor_id \<Rightarrow> 't tcp_connection \<Rightarrow> 't tcp_connection" where
  "TcpConnection_ResetId defaultId c = c\<lparr>conn_id := defaultId\<rparr>"

definition TcpConnection_GetId :: "'t tcp_connection \<Rightarrow> actor_id" where
  "TcpConnection_GetId c = conn_id c"

text \<open>
  \<^verbatim>\<open>Start\<close> asserts that the actor was registered and logs the remote endpoint;
  \<^verbatim>\<open>socket_->remote_endpoint()\<close> throws when the peer is gone, which the argument
  \<open>peer\<close> says.
\<close>

definition TcpConnection_StartReceiveTask :: "('b, 't) effect list" where
  "TcpConnection_StartReceiveTask = [Async_receive TCP]"

definition TcpConnection_Start :: "actor_id \<Rightarrow> bool \<Rightarrow> 't tcp_connection \<Rightarrow>
    ('t tcp_connection \<times> ('b, 't) effect list) outcome" where
  "TcpConnection_Start defaultId peer c =
     (if conn_id c = defaultId then Undefined
      else if \<not> peer then Throws
      else Done (c, TcpConnection_StartReceiveTask))"

definition TcpConnection_Stop :: "('b, 't) effect list" where
  "TcpConnection_Stop = [Io_cancel]"

definition TcpConnection_Dtor :: "('b, 't) effect list" where
  "TcpConnection_Dtor = TcpConnection_Stop @ [Io_shutdown, Io_close]"

definition TcpConnection_MakeRequest :: "('b, 'u, 't) modbus_lib \<Rightarrow> chrono_rep \<Rightarrow> 'b \<Rightarrow> nat \<Rightarrow>
    actor_id \<Rightarrow> ('b, 't) modbus_message option" where
  "TcpConnection_MakeRequest L now buffer sz masterId =
     (case mb_set_adu_size L sz buffer of
        None \<Rightarrow> None
      | Some b \<Rightarrow>
          if \<not> tcp_check L b then None
          else Some (ModbusMessage (ModbusMessageInfo now masterId (tcp_get_tid L b)) (Some b)))"

text \<open>
  The completion of a read. \<open>exch\<close> says whether the exchange still exists, \<open>buffer\<close> is the
  buffer the read filled. \<^verbatim>\<open>Route\<close> outside the table is undefined behaviour.
\<close>

definition TcpConnection_on_receive :: "('b, 'u::len word, 't) modbus_lib \<Rightarrow> bool \<Rightarrow> chrono_rep \<Rightarrow>
    error_code \<Rightarrow> 'b \<Rightarrow> nat \<Rightarrow> 't tcp_connection \<Rightarrow>
    ('t tcp_connection \<times> ('b, 't) effect list) outcome" where
  "TcpConnection_on_receive L exch now ec buffer sz c =
     (if \<not> exch then Done (c, [])
      else case ec of
        Some e \<Rightarrow>
          if e = Eof \<or> e = Connection_reset \<or> e = Operation_aborted
          then Done (c, [Exchange_send (conn_serverId c) (ClientDisconnectMessage (conn_id c))])
          else Done (c, TcpConnection_StartReceiveTask)
      | None \<Rightarrow>
          (case TcpConnection_MakeRequest L now buffer sz (conn_id c) of
             None \<Rightarrow> Done (c, TcpConnection_StartReceiveTask)
           | Some message \<Rightarrow>
               let c' = c\<lparr>conn_requestInfo := Some (GetModbusMessageInfo message)\<rparr> in
               and_then (defined (GetModbusBuffer message)) (\<lambda>b.
               and_then (defined (Router_Route (conn_router c') (mb_unit_id L b))) (\<lambda>actorId.
               Done (c', Exchange_send actorId (ModbusMsg message) #
                         TcpConnection_StartReceiveTask)))))"

definition TcpConnection_MakeResponse :: "('b, 'u, 't) modbus_lib \<Rightarrow> ('b, 't) modbus_message \<Rightarrow>
    't tcp_connection \<Rightarrow> 'b option \<times> 't tcp_connection" where
  "TcpConnection_MakeResponse L m c =
     (let info = GetModbusMessageInfo m in
      if conn_id c \<noteq> GetSourceId info then (None, c)
      else case conn_requestInfo c of
        None \<Rightarrow> (None, c)
      | Some lastInfo \<Rightarrow>
          if GetTransactionId lastInfo \<noteq> GetTransactionId info then (None, c)
          else let c' = c\<lparr>conn_requestInfo := None\<rparr> in
            (case GetModbusBuffer m of
               None \<Rightarrow> (None, c')
             | Some b \<Rightarrow>
                 (Some (tcp_set_tid L (GetTransactionId info)
                    (tcp_update L (mb_convert_to L TCP b))), c')))"

definition TcpConnection_StartSendTask :: "('b, 'u, 't) modbus_lib \<Rightarrow> ('b, 't) modbus_message \<Rightarrow>
    't tcp_connection \<Rightarrow> 't tcp_connection \<times> ('b, 't) effect list" where
  "TcpConnection_StartSendTask L m c =
     (case TcpConnection_MakeResponse L m c of
        (None, c') \<Rightarrow> (c', [])
      | (Some b, c') \<Rightarrow> (c', [Async_send b]))"

text \<open>The completion of a write is only logged.\<close>

definition TcpConnection_on_send :: "error_code \<Rightarrow> 't tcp_connection \<Rightarrow>
    't tcp_connection \<times> ('b, 't) effect list" where
  "TcpConnection_on_send ec c = (c, [])"

definition TcpConnection_Receive :: "('b, 'u, 't) modbus_lib \<Rightarrow> ('b, 't) message \<Rightarrow>
    't tcp_connection \<Rightarrow> 't tcp_connection \<times> ('b, 't) effect list" where
  "TcpConnection_Receive L message c =
     (case message of ModbusMsg m \<Rightarrow> TcpConnection_StartSendTask L m c | _ \<Rightarrow> (c, []))"

subsection \<open>The actor as a state machine\<close>

datatype ('b, 't) conn_event =
    Conn_start bool
  | Conn_receive bool chrono_rep error_code 'b nat
  | Conn_message "('b, 't) message"
  | Conn_sent error_code
  | Conn_stop
  | Conn_set_id actor_id
  | Conn_reset_id

fun TcpConnection_step :: "('b, 'u::len word, 't) modbus_lib \<Rightarrow> actor_id \<Rightarrow> 't tcp_connection \<Rightarrow>
    ('b, 't) conn_event \<Rightarrow> ('t tcp_connection \<times> ('b, 't) effect list) outcome" where
  "TcpConnection_step L defaultId c (Conn_start peer) = TcpConnection_Start defaultId peer c"
| "TcpConnection_step L defaultId c (Conn_receive exch now ec buffer sz) =
     TcpConnection_on_receive L exch now ec buffer sz c"
| "TcpConnection_step L defaultId c (Conn_message m) = Done (TcpConnection_Receive L m c)"
| "TcpConnection_step L defaultId c (Conn_sent ec) = Done (TcpConnection_on_send ec c)"
| "TcpConnection_step L defaultId c Conn_stop = Done (c, TcpConnection_Stop)"
| "TcpConnection_step L defaultId c (Conn_set_id i) = Done (TcpConnection_SetId i c, [])"
| "TcpConnection_step L defaultId c Conn_reset_id = Done (TcpConnection_ResetId defaultId c, [])"

lemmas TcpConnection_defs [handler_defs] = TcpConnection_StartReceiveTask_def
  TcpConnection_Start_def TcpConnection_Stop_def TcpConnection_MakeRequest_def
  TcpConnection_on_receive_def TcpConnection_MakeResponse_def TcpConnection_StartSendTask_def
  TcpConnection_on_send_def TcpConnection_Receive_def TcpConnection_SetId_def
  TcpConnection_ResetId_def

fun conn_view :: "('b, 'u, 't) modbus_lib \<Rightarrow> ('b, 't) effect \<Rightarrow> 't slot_event list" where
  "conn_view L (Exchange_send a (ModbusMsg m)) = [Opened (transactionId (modbusMessageInfo m))]"
| "conn_view L (Async_send b) = [Answered (tcp_get_tid L b)]"
| "conn_view L _ = []"

interpretation conn: request_slot "TcpConnection_step L defaultId"
  "\<lambda>c. map_option transactionId (conn_requestInfo c)" "conn_view L" "tid_readback L"
  for L :: "('b, 'u::len word, 't) modbus_lib" and defaultId
proof
  fix c e c' os
  assume "tid_readback L" and "TcpConnection_step L defaultId c e = Done (c', os)"
  then show "\<exists>cur. slot_after (map_option transactionId (conn_requestInfo c))
        (concat (map (conn_view L) os)) = Some cur \<and>
      (map_option transactionId (conn_requestInfo c') = None \<or>
       map_option transactionId (conn_requestInfo c') = cur)"
    by (cases e)
      (auto simp: handler_defs step_simps Let_def and_then_Done_iff tid_readback_def
        split: if_splits option.splits message.splits)
qed

subsection \<open>Lemmas\<close>

lemma TcpConnection_MakeRequest_Some:
  "TcpConnection_MakeRequest L now buffer sz i = Some m \<longleftrightarrow>
    (\<exists>b. mb_set_adu_size L sz buffer = Some b \<and> tcp_check L b \<and>
      m = ModbusMessage (ModbusMessageInfo now i (tcp_get_tid L b)) (Some b))"
  by (auto simp: TcpConnection_MakeRequest_def split: option.splits)

lemma TcpConnection_MakeResponse_cases:
  "fst (TcpConnection_MakeResponse L m c) = Some out \<longleftrightarrow>
    (\<exists>i b. conn_requestInfo c = Some i \<and> sourceId (modbusMessageInfo m) = conn_id c \<and>
      transactionId i = transactionId (modbusMessageInfo m) \<and> modbusBuffer m = Some b \<and>
      out = tcp_set_tid L (transactionId i) (tcp_update L (mb_convert_to L TCP b)))"
  by (auto simp: TcpConnection_MakeResponse_def step_simps Let_def split: option.splits)

lemma TcpConnection_MakeResponse_frame:
  "conn_id (snd (TcpConnection_MakeResponse L m c)) = conn_id c \<and>
   conn_router (snd (TcpConnection_MakeResponse L m c)) = conn_router c \<and>
   conn_serverId (snd (TcpConnection_MakeResponse L m c)) = conn_serverId c"
  by (auto simp: TcpConnection_MakeResponse_def Let_def split: option.splits)

text \<open>When the connection lets a response out: the conditions of \<^verbatim>\<open>MakeResponse\<close>.\<close>

definition response_fits :: "('b, 't) modbus_message \<Rightarrow> 't tcp_connection \<Rightarrow> 't message_info \<Rightarrow> 'b \<Rightarrow>
    bool" where
  "response_fits m c i b \<longleftrightarrow> conn_requestInfo c = Some i \<and> modbusBuffer m = Some b \<and>
     sourceId (modbusMessageInfo m) = conn_id c \<and>
     transactionId (modbusMessageInfo m) = transactionId i"

subsection \<open>Properties\<close>

text \<open>
  C21: in every run of a new TCP connection, whatever requests, responses and errors arrive in
  whatever order, a frame written to the client carries the transaction id of the request
  forwarded last before it, and no other frame was written in between: the client never gets an
  answer with a foreign transaction id, nor two answers to one request.
\<close>

theorem TcpConnection_answers_last_request:
  assumes "tid_readback L"
    and "run (TcpConnection_step L defaultId) (ModbusTcpConnection defaultId serverId r) es =
      Done (c', os)"
    and "concat (map (conn_view L) os) = g @ Answered t # h"
  shows "\<exists>g'. g = g' @ [Opened t]"
  by (rule conn.answers_follow_requests [OF assms(1,2) _ assms(3)])
    (simp add: ModbusTcpConnection_def)

theorem TcpConnection_answers_last_request_witness:
  "\<exists>g'. [Opened (5 :: 16 word)] = g' @ [Opened 5]"
proof -
  let ?m = "ModbusMessage (ModbusMessageInfo 0 3 5) (Some (sample_frame RTU 1 9))"
  let ?run = "run (TcpConnection_step sample_lib 0) (ModbusTcpConnection 0 2 (Router TYPE(8) 7))
    [Conn_set_id 3, Conn_receive True 0 None (sample_frame TCP 1 5) 9,
     Conn_message (ModbusMsg ?m)]"
  have route: "Router_Route (Router TYPE(8) 7) (1 :: 8 word) = Some 7"
    by (simp add: Router_Route_default)
  obtain c' os where "?run = Done (c', os)"
    and "concat (map (conn_view sample_lib) os) = [Opened 5] @ Answered 5 # []"
    using route
    by (simp add: ModbusTcpConnection_def TcpConnection_defs step_simps ModbusMessageInfo_def)
  then show ?thesis
    by (rule TcpConnection_answers_last_request [OF sample_lib_lawful(1)])
qed

text \<open>
  C22: a response is written exactly when it is addressed to this connection, a request is open,
  the transaction ids agree and it has a buffer; the one frame written is then a TCP frame with
  the unit id of the response and the transaction id the client had used, and the slot is
  closed. In every other case nothing is written.
\<close>

theorem TcpConnection_response_frame:
  assumes "tid_readback L" and "convert_types L" and "unit_id_kept L"
  shows "(\<forall>i b. response_fits m c i b \<longrightarrow>
      (\<exists>out. TcpConnection_StartSendTask L m c = (c\<lparr>conn_requestInfo := None\<rparr>, [Async_send out]) \<and>
        tcp_get_tid L out = transactionId i \<and> mb_type L out = TCP \<and>
        mb_unit_id L out = mb_unit_id L b)) \<and>
    ((\<nexists>i b. response_fits m c i b) \<longrightarrow> snd (TcpConnection_StartSendTask L m c) = [])"
  using assms
  by (auto simp: TcpConnection_StartSendTask_def TcpConnection_MakeResponse_def step_simps Let_def
      response_fits_def tid_readback_def convert_types_def unit_id_kept_def split: option.splits)

theorem TcpConnection_response_frame_witness:
  "\<exists>out. TcpConnection_StartSendTask sample_lib
     (ModbusMessage (ModbusMessageInfo 0 3 (5 :: 16 word)) (Some (sample_frame RTU 1 9)))
     \<lparr>conn_id = 3, conn_serverId = 2, conn_router = Router TYPE(8) 7,
      conn_requestInfo = Some (ModbusMessageInfo 0 3 5)\<rparr> =
     (\<lparr>conn_id = 3, conn_serverId = 2, conn_router = Router TYPE(8) 7, conn_requestInfo = None\<rparr>,
      [Async_send out]) \<and> fr_tid out = 5 \<and> fr_type out = TCP \<and> fr_unit out = 1"
proof -
  let ?c = "\<lparr>conn_id = 3, conn_serverId = 2, conn_router = Router TYPE(8) 7,
      conn_requestInfo = Some (ModbusMessageInfo 0 3 5)\<rparr>"
  let ?m = "ModbusMessage (ModbusMessageInfo 0 3 (5 :: 16 word)) (Some (sample_frame RTU 1 9))"
  have "response_fits ?m ?c (ModbusMessageInfo 0 3 5) (sample_frame RTU 1 9)"
    by (simp add: response_fits_def step_simps ModbusMessageInfo_def)
  then show ?thesis
    using TcpConnection_response_frame [OF sample_lib_lawful, of ?m ?c]
    by (fastforce simp: ModbusMessageInfo_def)
qed

text \<open>
  a completed read with a frame the library accepts forwards exactly one request: to the
  actor the router gives for the frame's unit id, with this connection as its source and the
  client's transaction id; the request becomes the open one and the next read is started.
\<close>

lemma TcpConnection_forwards_request:
  assumes "mb_set_adu_size L sz buffer = Some b" and "tcp_check L b"
    and "Router_Route (conn_router c) (mb_unit_id L b) = Some a"
  shows "\<exists>m. TcpConnection_on_receive L True now success buffer sz c =
      Done (c\<lparr>conn_requestInfo := Some (modbusMessageInfo m)\<rparr>,
        [Exchange_send a (ModbusMsg m), Async_receive TCP]) \<and>
    modbusBuffer m = Some b \<and> sourceId (modbusMessageInfo m) = conn_id c \<and>
    transactionId (modbusMessageInfo m) = tcp_get_tid L b \<and>
    createTimeStamp (modbusMessageInfo m) = now \<and> \<not> timeoutReached (modbusMessageInfo m)"
  using assms
  by (auto simp: TcpConnection_on_receive_def TcpConnection_MakeRequest_def
      TcpConnection_StartReceiveTask_def step_simps ModbusMessageInfo_def)

theorem TcpConnection_forwards_request_witness:
  "\<exists>m. TcpConnection_on_receive sample_lib True 100 None (sample_frame TCP 1 (5 :: 16 word)) 9
      \<lparr>conn_id = 3, conn_serverId = 2, conn_router = Router TYPE(8) 7, conn_requestInfo = None\<rparr> =
    Done (\<lparr>conn_id = 3, conn_serverId = 2, conn_router = Router TYPE(8) 7,
        conn_requestInfo = Some (modbusMessageInfo m)\<rparr>,
      [Exchange_send 7 (ModbusMsg m), Async_receive TCP]) \<and>
    transactionId (modbusMessageInfo m) = 5 \<and> sourceId (modbusMessageInfo m) = 3"
  using TcpConnection_forwards_request [of sample_lib 9 "sample_frame TCP 1 5"
      "sample_frame TCP 1 5\<lparr>fr_size := 9\<rparr>"
      "\<lparr>conn_id = 3, conn_serverId = 2, conn_router = Router TYPE(8) 7, conn_requestInfo = None\<rparr>"
      7 100]
  by (auto simp: Router_Route_default)

text \<open>
  as long as the exchange exists, a completed read that does not run outside the routing
  table always has a successor: either it starts exactly one new read, or, at the end of the
  connection (end of file, reset, cancellation), it tells the server exactly once that the
  client is gone; it never does both and never neither.
\<close>

lemma TcpConnection_reads_or_disconnects:
  assumes "TcpConnection_on_receive L True now ec buffer sz c = Done (c', os)"
  shows "(if ec \<in> {Some Eof, Some Connection_reset, Some Operation_aborted}
      then os = [Exchange_send (conn_serverId c) (ClientDisconnectMessage (conn_id c))] \<and> c' = c
      else \<exists>forwarded. os = forwarded @ [Async_receive TCP] \<and> length forwarded \<le> 1 \<and>
        list_all (\<lambda>e. case e of Exchange_send _ (ModbusMsg _) \<Rightarrow> True | _ \<Rightarrow> False) forwarded)"
  using assms
  by (auto simp: TcpConnection_on_receive_def TcpConnection_StartReceiveTask_def Let_def
      and_then_Done_iff split: option.splits if_splits)

theorem TcpConnection_reads_or_disconnects_witness:
  "TcpConnection_on_receive sample_lib True 0 (Some Eof) (sample_frame TCP 1 5) 0
     (ModbusTcpConnection 4 2 (Router TYPE(8) 7)) =
   Done (ModbusTcpConnection 4 2 (Router TYPE(8) 7), [Exchange_send 2 (ClientDisconnectMessage 4)])"
proof -
  let ?c = "ModbusTcpConnection 4 2 (Router TYPE(8) 7)"
  obtain c' os where r: "TcpConnection_on_receive sample_lib True 0 (Some Eof) (sample_frame TCP 1 5) 0 ?c =
      Done (c', os)"
    by (auto simp: TcpConnection_on_receive_def)
  from TcpConnection_reads_or_disconnects [OF r] r show ?thesis
    by (simp add: ModbusTcpConnection_def)
qed

text \<open>
  with the routing table the gateway builds (one entry less than there are unit ids), a
  read is undefined behaviour exactly when the exchange exists, the read succeeded, the frame
  is accepted and its unit id is the largest one: the table is then indexed one past its end,
  by a value the remote client chooses.
\<close>

lemma TcpConnection_undefined_iff:
  fixes L :: "('b, 'u::len word, 't) modbus_lib"
  assumes "length (routeMap (conn_router c)) = UnitId_max TYPE('u)"
  shows "TcpConnection_on_receive L exch now ec buffer sz c = Undefined \<longleftrightarrow>
    exch \<and> ec = success \<and>
    (\<exists>b. mb_set_adu_size L sz buffer = Some b \<and> tcp_check L b \<and> mb_unit_id L b = - 1)"
proof -
  have outside: "Router_Route (conn_router c) u = None \<longleftrightarrow> u = - 1" for u :: "'u word"
    by (rule Router_Route_None_iff [OF assms])
  then have last: "Router_Route (conn_router c) (- 1 :: 'u word) = None" by blast
  show ?thesis
    by (auto simp: TcpConnection_on_receive_def TcpConnection_MakeRequest_def step_simps Let_def
        defined_def outside last split: option.splits if_splits)
qed

theorem TcpConnection_undefined_iff_witness:
  "TcpConnection_on_receive sample_lib True 0 None (sample_frame TCP 255 5) 9
     (ModbusTcpConnection 4 2 (Router TYPE(8) 7)) = Undefined"
  by (subst TcpConnection_undefined_iff)
    (simp_all add: ModbusTcpConnection_def Router_def)

end
