(* ===== verification/Tcp_Server.thy ===== *)
theory Tcp_Server
  imports Tcp_Connection "HOL-Library.AList"
begin

text \<open>
  The actor that accepts TCP clients (\<^verbatim>\<open>src/src/transport/modbus_tcp_server.cpp\<close>).
  It owns the connections in \<^verbatim>\<open>clientDb_\<close>, an unordered map modelled as an
  association list with distinct keys; the values are pointers to connection objects, a type
  parameter \<open>'p\<close>. Every change of the map happens under the actor's mutex. The id that
  \<^verbatim>\<open>exchange->Add\<close> returns is an argument of the handler.
\<close>

record 'p tcp_server =
  srv_id :: actor_id
  srv_clientDb :: "(actor_id \<times> 'p) list"

definition ModbusTcpServer :: "actor_id \<Rightarrow> 'p tcp_server" where
  "ModbusTcpServer defaultId = \<lparr>srv_id = defaultId, srv_clientDb = []\<rparr>"

definition TcpServer_SetId :: "actor_id \<Rightarrow> 'p tcp_server \<Rightarrow> 'p tcp_server" where
  "TcpServer_SetId i s = s\<lparr>srv_id := i\<rparr>"

definition TcpServer_ResetId :: "actor_id \<Rightarrow> 'p tcp_server \<Rightarrow> 'p tcp_server" where
  "TcpServer_ResetId defaultId s = s\<lparr>srv_id := defaultId\<rparr>"

definition TcpServer_GetId :: "'p tcp_server \<Rightarrow> actor_id" where
  "TcpServer_GetId s = srv_id s"

definition TcpServer_AcceptTask :: "('b, 't) effect list" where
  "TcpServer_AcceptTask = [Async_accept]"

definition TcpServer_Start :: "actor_id \<Rightarrow> 'p tcp_server \<Rightarrow>
    ('p tcp_server \<times> ('b, 't) effect list) outcome" where
  "TcpServer_Start defaultId s =
     (if srv_id s = defaultId then Undefined else Done (s, TcpServer_AcceptTask))"

definition TcpServer_Stop :: "bool \<Rightarrow> 'p tcp_server \<Rightarrow> 'p tcp_server \<times> ('b, 't) effect list" where
  "TcpServer_Stop exch s =
     (s\<lparr>srv_clientDb := []\<rparr>,
      Io_cancel # concat (map (\<lambda>(clientId, client).
        Client_stop clientId # (if exch then [Exchange_delete clientId] else [])) (srv_clientDb s)))"

definition TcpServer_Dtor :: "bool \<Rightarrow> 'p tcp_server \<Rightarrow> 'p tcp_server \<times> ('b, 't) effect list" where
  "TcpServer_Dtor exch s = (let (s', os) = TcpServer_Stop exch s in (s', os @ [Io_close]))"

text \<open>
  The completion of an accept. \<open>peer\<close> says whether \<^verbatim>\<open>remote_endpoint()\<close> of the
  new socket succeeds (it throws when the client is already gone), \<open>started\<close> whether it does
  again in the connection's \<^verbatim>\<open>Start\<close>; \<open>clientId\<close> is the id the exchange gave
  the new connection \<open>client\<close>. An exception leaves the handler before the next accept.
\<close>

definition TcpServer_on_accept :: "bool \<Rightarrow> error_code \<Rightarrow> bool \<Rightarrow> bool \<Rightarrow> actor_id \<Rightarrow> 'p \<Rightarrow> 'p tcp_server \<Rightarrow>
    ('p tcp_server \<times> ('b, 't) effect list) outcome" where
  "TcpServer_on_accept exch ec peer started clientId client s =
     (if \<not> exch then Done (s, [])
      else case ec of
        Some e \<Rightarrow> if e = Operation_aborted then Done (s, []) else Done (s, TcpServer_AcceptTask)
      | None \<Rightarrow>
          if \<not> peer then Throws
          else let s' = s\<lparr>srv_clientDb := AList.update clientId client (srv_clientDb s)\<rparr> in
            if \<not> started then Throws
            else Done (s', [Exchange_add clientId, Client_start clientId] @ TcpServer_AcceptTask))"

definition TcpServer_ClientDisconnect :: "bool \<Rightarrow> actor_id \<Rightarrow> 'p tcp_server \<Rightarrow>
    'p tcp_server \<times> ('b, 't) effect list" where
  "TcpServer_ClientDisconnect exch clientId s =
     (s\<lparr>srv_clientDb := AList.delete clientId (srv_clientDb s)\<rparr>,
      if exch then [Exchange_delete clientId] else [])"

definition TcpServer_Receive :: "bool \<Rightarrow> ('b, 't) message \<Rightarrow> 'p tcp_server \<Rightarrow>
    'p tcp_server \<times> ('b, 't) effect list" where
  "TcpServer_Receive exch message s =
     (case message of ClientDisconnectMessage clientId \<Rightarrow> TcpServer_ClientDisconnect exch clientId s
      | _ \<Rightarrow> (s, []))"

subsection \<open>The actor as a state machine\<close>

datatype ('b, 't, 'p) server_event =
    Server_start
  | Server_accept error_code bool bool actor_id 'p
  | Server_message "('b, 't) message"
  | Server_stop

fun TcpServer_step :: "actor_id \<Rightarrow> 'p tcp_server \<Rightarrow> ('b, 't, 'p) server_event \<Rightarrow>
    ('p tcp_server \<times> ('b, 't) effect list) outcome" where
  "TcpServer_step defaultId s Server_start = TcpServer_Start defaultId s"
| "TcpServer_step defaultId s (Server_accept ec peer started clientId client) =
     TcpServer_on_accept True ec peer started clientId client s"
| "TcpServer_step defaultId s (Server_message m) = Done (TcpServer_Receive True m s)"
| "TcpServer_step defaultId s Server_stop = Done (TcpServer_Stop True s)"

lemmas TcpServer_defs [handler_defs] = TcpServer_AcceptTask_def TcpServer_Start_def
  TcpServer_Stop_def TcpServer_on_accept_def TcpServer_ClientDisconnect_def TcpServer_Receive_def

subsection \<open>The connections the exchange knows\<close>

text \<open>The ids registered with the exchange after a list of effects.\<close>

fun registered :: "actor_id set \<Rightarrow> ('b, 't) effect list \<Rightarrow> actor_id set" where
  "registered R [] = R"
| "registered R (Exchange_add i # os) = registered (insert i R) os"
| "registered R (Exchange_delete i # os) = registered (R - {i}) os"
| "registered R (_ # os) = registered R os"

lemma registered_append: "registered R (xs @ ys) = registered (registered R xs) ys"
  by (induction R xs rule: registered.induct) auto

lemma registered_stop_all:
  "registered R (concat (map (\<lambda>(i, c). [Client_stop i, Exchange_delete i]) db)) = R - set (map fst db)"
  by (induction db arbitrary: R) (auto simp del: set_map)

lemma keys_update: "set (map fst (AList.update k v al)) = insert k (set (map fst al))"
  by (simp add: dom_update)

lemma keys_delete: "set (map fst (AList.delete k al)) = set (map fst al) - {k}"
  unfolding delete_keys by auto

text \<open>The ids of the connections a server owns, and its well-formedness.\<close>

definition srv_clients :: "'p tcp_server \<Rightarrow> actor_id set" where
  "srv_clients s = set (map fst (srv_clientDb s))"

definition srv_wf :: "'p tcp_server \<Rightarrow> bool" where
  "srv_wf s \<longleftrightarrow> distinct (map fst (srv_clientDb s))"

lemma TcpServer_step_registered:
  assumes "TcpServer_step defaultId s e = Done (s', os)" and "srv_wf s"
  shows "srv_wf s' \<and> registered (srv_clients s) os = srv_clients s'"
  using assms
  by (cases e)
    (auto simp: handler_defs srv_wf_def srv_clients_def Let_def registered_stop_all keys_update
      keys_delete distinct_update distinct_delete simp del: set_map
      split: if_splits option.splits message.splits)

lemma TcpServer_run_registered:
  assumes "run (TcpServer_step defaultId) s es = Done (s', os)" and "srv_wf s"
  shows "srv_wf s' \<and> registered (srv_clients s) os = srv_clients s'"
  using assms
proof (induction es arbitrary: s os)
  case Nil
  then show ?case by simp
next
  case (Cons e es)
  then show ?case using TcpServer_step_registered
    by (fastforce simp: run_Cons_Done registered_append simp del: run.simps)
qed

subsection \<open>Properties\<close>

text \<open>
  over every run of a new server, whatever clients connect and disconnect and however often
  it is stopped, the connections registered with the exchange are exactly the connections in the
  server's table, each once: no connection is leaked in the exchange and none is dropped while
  the server still owns it.
\<close>

lemma TcpServer_owns_registered:
  assumes "run (TcpServer_step defaultId) (ModbusTcpServer defaultId) es = Done (s', os)"
  shows "registered {} os = set (map fst (srv_clientDb s')) \<and> distinct (map fst (srv_clientDb s'))"
  using TcpServer_run_registered [OF assms]
  by (simp add: srv_wf_def srv_clients_def ModbusTcpServer_def)

theorem TcpServer_owns_registered_witness:
  "registered {} [Exchange_add 4, Client_start 4, Async_accept, Exchange_add 5, Client_start 5,
     Async_accept, Exchange_delete 4 :: (frame, 16 word) effect] = {5}"
proof -
  have "run (TcpServer_step 0) (ModbusTcpServer 0)
      [Server_accept None True True 4 (), Server_accept None True True 5 (),
       Server_message (ClientDisconnectMessage 4 :: (frame, 16 word) message)] =
    Done (\<lparr>srv_id = 0, srv_clientDb = [(5, ())]\<rparr>,
      [Exchange_add 4, Client_start 4, Async_accept, Exchange_add 5, Client_start 5,
       Async_accept, Exchange_delete 4])"
    by (simp add: TcpServer_defs ModbusTcpServer_def Let_def)
  from TcpServer_owns_registered [OF this] show ?thesis by simp
qed

text \<open>
  stopping the server cancels the accept, stops every connection it owns and removes it from
  the exchange, once each, and leaves the table empty.
\<close>

lemma TcpServer_Stop_releases_all:
  assumes "TcpServer_Stop True s = (s', os)"
  shows "srv_clientDb s' = [] \<and> hd os = Io_cancel \<and>
    [i. Client_stop i \<leftarrow> os] = map fst (srv_clientDb s) \<and>
    [i. Exchange_delete i \<leftarrow> os] = map fst (srv_clientDb s)"
proof -
  have "[i. Client_stop i \<leftarrow> concat (map (\<lambda>(i, c). [Client_stop i, Exchange_delete i]) db)] = map fst db"
    and "[i. Exchange_delete i \<leftarrow> concat (map (\<lambda>(i, c). [Client_stop i, Exchange_delete i]) db)] = map fst db"
    for db :: "(actor_id \<times> 'a) list"
    by (induction db) auto
  with assms show ?thesis by (auto simp: TcpServer_Stop_def)
qed

theorem TcpServer_Stop_releases_all_witness:
  "[i. Exchange_delete i \<leftarrow> [Io_cancel, Client_stop 4, Exchange_delete 4, Client_stop 5,
     Exchange_delete 5 :: (frame, 16 word) effect]] = map fst [(4, ()), (5, ())]"
proof -
  let ?s = "\<lparr>srv_id = 2, srv_clientDb = [(4, ()), (5, ())]\<rparr>"
  have "TcpServer_Stop True ?s = (\<lparr>srv_id = 2, srv_clientDb = []\<rparr>,
      [Io_cancel, Client_stop 4, Exchange_delete 4, Client_stop 5,
       Exchange_delete 5 :: (frame, 16 word) effect])"
    by (simp add: TcpServer_Stop_def)
  from TcpServer_Stop_releases_all [OF this] show ?thesis by simp
qed

text \<open>
  as long as no socket call throws the server keeps accepting: the completion of an accept
  starts exactly one new accept unless it was cancelled or the exchange is gone. The handler
  throws exactly when a client was accepted and is gone again before its address is read, in the
  handler itself or in the connection's \<^verbatim>\<open>Start\<close>; no accept is started then.
\<close>

lemma TcpServer_keeps_accepting:
  "(TcpServer_on_accept exch ec peer started clientId client s = Throws \<longleftrightarrow>
     exch \<and> ec = success \<and> \<not> (peer \<and> started)) \<and>
   (\<forall>s' os. TcpServer_on_accept exch ec peer started clientId client s = Done (s', os) \<longrightarrow>
     count_list os Async_accept = (if exch \<and> ec \<noteq> Some Operation_aborted then 1 else 0))"
  by (cases ec) (auto simp: TcpServer_on_accept_def TcpServer_AcceptTask_def Let_def)

theorem TcpServer_keeps_accepting_witness:
  "TcpServer_on_accept True None False True 4 () (ModbusTcpServer 0) =
     (Throws :: (unit tcp_server \<times> (frame, 16 word) effect list) outcome)"
  by (rule iffD2 [OF conjunct1 [OF TcpServer_keeps_accepting]]) simp

end
