(* ===== verification/Rtu_Slave.thy ===== *)
theory Rtu_Slave
  imports Sample_Frames Unit_Router Request_Slot
begin

text \<open>
  The actor of a serial line on which the gateway is a Modbus slave
  (\<^verbatim>\<open>src/src/transport/modbus_rtu_slave.cpp\<close>). It has the same request slot as
  a TCP connection, but serial frames carry no transaction id: the actor numbers the requests
  itself with the wrapping counter \<^verbatim>\<open>idGenerator_\<close>. Only one read is outstanding
  at a time, so the counter is not shared between handlers.
\<close>

record 't rtu_slave =
  rs_id :: actor_id
  rs_router :: router
  rs_frameType :: frame_type
  rs_idGenerator :: 't
  rs_requestInfo :: "'t message_info option"

text \<open>
  The constructor's state; it also asserts that the frame type is a serial one. Opening and
  configuring the port is in the theory of the serial options.
\<close>

definition ModbusRtuSlave :: "actor_id \<Rightarrow> router \<Rightarrow> frame_type \<Rightarrow> 't::len word rtu_slave outcome" where
  "ModbusRtuSlave defaultId router frameType =
     (if frameType = TCP then Undefined
      else Done \<lparr>rs_id = defaultId, rs_router = router, rs_frameType = frameType,
                 rs_idGenerator = 0, rs_requestInfo = None\<rparr>)"

definition RtuSlave_SetId :: "actor_id \<Rightarrow> 't rtu_slave \<Rightarrow> 't rtu_slave" where
  "RtuSlave_SetId i s = s\<lparr>rs_id := i\<rparr>"

definition RtuSlave_ResetId :: "actor_id \<Rightarrow> 't rtu_slave \<Rightarrow> 't rtu_slave" where
  "RtuSlave_ResetId defaultId s = s\<lparr>rs_id := defaultId\<rparr>"

definition RtuSlave_GetId :: "'t rtu_slave \<Rightarrow> actor_id" where
  "RtuSlave_GetId s = rs_id s"

definition RtuSlave_StartReadTask :: "'t rtu_slave \<Rightarrow> ('b, 't) effect list" where
  "RtuSlave_StartReadTask s = [Async_receive (rs_frameType s)]"

definition RtuSlave_Start :: "'t rtu_slave \<Rightarrow> 't rtu_slave \<times> ('b, 't) effect list" where
  "RtuSlave_Start s = (s, RtuSlave_StartReadTask s)"

definition RtuSlave_Stop :: "('b, 't) effect list" where
  "RtuSlave_Stop = [Io_cancel]"

definition RtuSlave_Dtor :: "('b, 't) effect list" where
  "RtuSlave_Dtor = RtuSlave_Stop @ [Io_close]"

definition RtuSlave_GetNextId :: "'t::len word rtu_slave \<Rightarrow> 't word \<times> 't word rtu_slave" where
  "RtuSlave_GetNextId s = (rs_idGenerator s + 1, s\<lparr>rs_idGenerator := rs_idGenerator s + 1\<rparr>)"

definition RtuSlave_MakeRequest :: "('b, 'u, 't::len word) modbus_lib \<Rightarrow> chrono_rep \<Rightarrow> 'b \<Rightarrow> nat \<Rightarrow>
    't word rtu_slave \<Rightarrow> ('b, 't word) modbus_message option \<times> 't word rtu_slave" where
  "RtuSlave_MakeRequest L now buffer sz s =
     (case mb_set_adu_size L sz buffer of
        None \<Rightarrow> (None, s)
      | Some b \<Rightarrow>
          if \<not> mb_check L b then (None, s)
          else let (tid, s') = RtuSlave_GetNextId s in
            (Some (ModbusMessage (ModbusMessageInfo now (rs_id s') tid) (Some b)), s'))"

definition RtuSlave_on_read :: "('b, 'u::len word, 't::len word) modbus_lib \<Rightarrow> bool \<Rightarrow> chrono_rep \<Rightarrow>
    error_code \<Rightarrow> 'b \<Rightarrow> nat \<Rightarrow> 't word rtu_slave \<Rightarrow>
    ('t word rtu_slave \<times> ('b, 't word) effect list) outcome" where
  "RtuSlave_on_read L exch now ec buffer sz s =
     (if \<not> exch then Done (s, [])
      else case ec of
        Some e \<Rightarrow>
          if e = Eof \<or> e = Connection_reset \<or> e = Operation_aborted then Done (s, [])
          else Done (s, RtuSlave_StartReadTask s)
      | None \<Rightarrow>
          (case RtuSlave_MakeRequest L now buffer sz s of
             (None, s') \<Rightarrow> Done (s', RtuSlave_StartReadTask s')
           | (Some message, s') \<Rightarrow>
               let s'' = s'\<lparr>rs_requestInfo := Some (GetModbusMessageInfo message)\<rparr> in
               and_then (defined (GetModbusBuffer message)) (\<lambda>b.
               and_then (defined (Router_Route (rs_router s'') (mb_unit_id L b))) (\<lambda>actorId.
               Done (s'', Exchange_send actorId (ModbusMsg message) # RtuSlave_StartReadTask s'')))))"

definition RtuSlave_MakeResponse :: "('b, 'u, 't) modbus_lib \<Rightarrow> ('b, 't) modbus_message \<Rightarrow>
    't rtu_slave \<Rightarrow> 'b option \<times> 't rtu_slave" where
  "RtuSlave_MakeResponse L m s =
     (let info = GetModbusMessageInfo m in
      if rs_id s \<noteq> GetSourceId info then (None, s)
      else case rs_requestInfo s of
        None \<Rightarrow> (None, s)
      | Some lastInfo \<Rightarrow>
          if GetTransactionId lastInfo \<noteq> GetTransactionId info then (None, s)
          else let s' = s\<lparr>rs_requestInfo := None\<rparr> in
            (case GetModbusBuffer m of
               None \<Rightarrow> (None, s')
             | Some b \<Rightarrow> (Some (mb_update L (mb_convert_to L (rs_frameType s') b)), s')))"

definition RtuSlave_StartWriteTask :: "('b, 'u, 't) modbus_lib \<Rightarrow> ('b, 't) modbus_message \<Rightarrow>
    't rtu_slave \<Rightarrow> 't rtu_slave \<times> ('b, 't) effect list" where
  "RtuSlave_StartWriteTask L m s =
     (case RtuSlave_MakeResponse L m s of
        (None, s') \<Rightarrow> (s', [])
      | (Some b, s') \<Rightarrow> (s', [Async_send b]))"

definition RtuSlave_on_write :: "error_code \<Rightarrow> 't rtu_slave \<Rightarrow> 't rtu_slave \<times> ('b, 't) effect list" where
  "RtuSlave_on_write ec s = (s, [])"

definition RtuSlave_Receive :: "('b, 'u, 't) modbus_lib \<Rightarrow> ('b, 't) message \<Rightarrow>
    't rtu_slave \<Rightarrow> 't rtu_slave \<times> ('b, 't) effect list" where
  "RtuSlave_Receive L message s =
     (case message of ModbusMsg m \<Rightarrow> RtuSlave_StartWriteTask L m s | _ \<Rightarrow> (s, []))"

subsection \<open>The actor as a state machine\<close>

datatype ('b, 't) rtu_slave_event =
    Slave_start
  | Slave_read bool chrono_rep error_code 'b nat
  | Slave_message "('b, 't) message"
  | Slave_written error_code
  | Slave_stop
  | Slave_set_id actor_id
  | Slave_reset_id

fun RtuSlave_step :: "('b, 'u::len word, 't::len word) modbus_lib \<Rightarrow> actor_id \<Rightarrow> 't word rtu_slave \<Rightarrow>
    ('b, 't word) rtu_slave_event \<Rightarrow> ('t word rtu_slave \<times> ('b, 't word) effect list) outcome" where
  "RtuSlave_step L defaultId s Slave_start = Done (RtuSlave_Start s)"
| "RtuSlave_step L defaultId s (Slave_read exch now ec buffer sz) =
     RtuSlave_on_read L exch now ec buffer sz s"
| "RtuSlave_step L defaultId s (Slave_message m) = Done (RtuSlave_Receive L m s)"
| "RtuSlave_step L defaultId s (Slave_written ec) = Done (RtuSlave_on_write ec s)"
| "RtuSlave_step L defaultId s Slave_stop = Done (s, RtuSlave_Stop)"
| "RtuSlave_step L defaultId s (Slave_set_id i) = Done (RtuSlave_SetId i s, [])"
| "RtuSlave_step L defaultId s Slave_reset_id = Done (RtuSlave_ResetId defaultId s, [])"

lemmas RtuSlave_defs [handler_defs] = RtuSlave_StartReadTask_def RtuSlave_Start_def
  RtuSlave_Stop_def RtuSlave_GetNextId_def RtuSlave_MakeRequest_def RtuSlave_on_read_def
  RtuSlave_MakeResponse_def RtuSlave_StartWriteTask_def RtuSlave_on_write_def
  RtuSlave_Receive_def RtuSlave_SetId_def RtuSlave_ResetId_def

text \<open>The open request of a serial slave as a slot, whatever its transaction id.\<close>

fun rtu_view :: "('b, 't) effect \<Rightarrow> unit slot_event list" where
  "rtu_view (Exchange_send a (ModbusMsg m)) = [Opened ()]"
| "rtu_view (Async_send b) = [Answered ()]"
| "rtu_view _ = []"

interpretation rtu: request_slot "RtuSlave_step L defaultId"
  "\<lambda>s. map_option (\<lambda>_. ()) (rs_requestInfo s)" rtu_view True
  for L :: "('b, 'u::len word, 't::len word) modbus_lib" and defaultId
proof
  fix s e s' os
  assume "RtuSlave_step L defaultId s e = Done (s', os)"
  then show "\<exists>cur. slot_after (map_option (\<lambda>_. ()) (rs_requestInfo s))
        (concat (map rtu_view os)) = Some cur \<and>
      (map_option (\<lambda>_. ()) (rs_requestInfo s') = None \<or>
       map_option (\<lambda>_. ()) (rs_requestInfo s') = cur)"
    by (cases e)
      (auto simp: handler_defs step_simps Let_def and_then_Done_iff
        split: if_splits option.splits message.splits)
qed

text \<open>
  Serial frames show no transaction id. What a frame answers is therefore read off the step that
  writes it: the message the slave was handed. A frame written in any other step answers nothing
  that was ever asked. The log of a run is the list of its events with their effects.
\<close>

definition RtuSlave_logged_step :: "('b, 'u::len word, 't::len word) modbus_lib \<Rightarrow> actor_id \<Rightarrow> 't word rtu_slave \<Rightarrow>
    ('b, 't word) rtu_slave_event \<Rightarrow>
    ('t word rtu_slave \<times> (('b, 't word) rtu_slave_event \<times> ('b, 't word) effect list) list) outcome" where
  "RtuSlave_logged_step L defaultId s e = and_then (RtuSlave_step L defaultId s e) (\<lambda>(s', os). Done (s', [(e, os)]))"

fun line_effect_view :: "('b, 't) rtu_slave_event \<Rightarrow> ('b, 't) effect \<Rightarrow> 't option slot_event list" where
  "line_effect_view e (Exchange_send a (ModbusMsg m)) = [Opened (Some (transactionId (modbusMessageInfo m)))]"
| "line_effect_view (Slave_message (ModbusMsg m)) (Async_send b) = [Answered (Some (transactionId (modbusMessageInfo m)))]"
| "line_effect_view e (Async_send b) = [Answered None]"
| "line_effect_view e _ = []"

fun line_view :: "('b, 't) rtu_slave_event \<times> ('b, 't) effect list \<Rightarrow> 't option slot_event list" where
  "line_view (e, os) = concat (map (line_effect_view e) os)"

interpretation line: request_slot "RtuSlave_logged_step L defaultId"
  "\<lambda>s. map_option (\<lambda>i. Some (transactionId i)) (rs_requestInfo s)" line_view True
  for L :: "('b, 'u::len word, 't::len word) modbus_lib" and defaultId
proof
  fix s e s' log
  assume "RtuSlave_logged_step L defaultId s e = Done (s', log)"
  then show "\<exists>cur. slot_after (map_option (\<lambda>i. Some (transactionId i)) (rs_requestInfo s))
        (concat (map line_view log)) = Some cur \<and>
      (map_option (\<lambda>i. Some (transactionId i)) (rs_requestInfo s') = None \<or>
       map_option (\<lambda>i. Some (transactionId i)) (rs_requestInfo s') = cur)"
    by (cases e)
      (auto simp: RtuSlave_logged_step_def handler_defs step_simps Let_def and_then_Done_iff
        split: if_splits option.splits message.splits)
qed

subsection \<open>Numbering of the requests\<close>

text \<open>The transaction ids a list of effects gives to requests, in order.\<close>

fun request_tids :: "('b, 't) effect list \<Rightarrow> 't list" where
  "request_tids [] = []"
| "request_tids (Exchange_send a (ModbusMsg m) # os) =
     transactionId (modbusMessageInfo m) # request_tids os"
| "request_tids (_ # os) = request_tids os"

lemma request_tids_append [simp]: "request_tids (xs @ ys) = request_tids xs @ request_tids ys"
  by (induction xs rule: request_tids.induct) auto

text \<open>The open request, if any, is the one numbered last.\<close>

definition rtu_slot_current :: "'t rtu_slave \<Rightarrow> bool" where
  "rtu_slot_current s \<longleftrightarrow> (\<forall>i. rs_requestInfo s = Some i \<longrightarrow> transactionId i = rs_idGenerator s)"

lemma RtuSlave_step_numbering:
  assumes "RtuSlave_step L defaultId s e = Done (s', os)" and "rtu_slot_current s"
  shows "rtu_slot_current s' \<and> (request_tids os = [] \<and> rs_idGenerator s' = rs_idGenerator s \<or>
    request_tids os = [rs_idGenerator s + 1] \<and> rs_idGenerator s' = rs_idGenerator s + 1)"
  using assms
  by (cases e)
    (auto simp: handler_defs step_simps Let_def and_then_Done_iff rtu_slot_current_def
      ModbusMessageInfo_def split: if_splits option.splits message.splits)

lemma RtuSlave_run_numbering:
  assumes "run (RtuSlave_step L defaultId) s es = Done (s', os)" and "rtu_slot_current s"
  shows "rtu_slot_current s' \<and> rs_idGenerator s' = rs_idGenerator s + of_nat (length (request_tids os)) \<and>
    request_tids os = map (\<lambda>k. rs_idGenerator s + of_nat (Suc k)) [0..<length (request_tids os)]"
  using assms
proof (induction es arbitrary: s os)
  case Nil
  then show ?case by simp
next
  case (Cons e es)
  then obtain s1 os1 os2 where one: "RtuSlave_step L defaultId s e = Done (s1, os1)"
    and rest: "run (RtuSlave_step L defaultId) s1 es = Done (s', os2)" and os: "os = os1 @ os2"
    by (auto simp: run_Cons_Done simp del: run.simps)
  from RtuSlave_step_numbering [OF one Cons.prems(2)]
  have cur: "rtu_slot_current s1" and
    num: "request_tids os1 = [] \<and> rs_idGenerator s1 = rs_idGenerator s \<or>
      request_tids os1 = [rs_idGenerator s + 1] \<and> rs_idGenerator s1 = rs_idGenerator s + 1"
    by blast+
  note IH = Cons.IH [OF rest cur]
  show ?case
  proof (cases "request_tids os1 = []")
    case True
    with num os IH show ?thesis by simp
  next
    case False
    let ?n = "length (request_tids os2)"
    from False num have tids: "request_tids os1 = [rs_idGenerator s + 1]"
      and gen: "rs_idGenerator s1 = rs_idGenerator s + 1" by auto
    from IH gen have "request_tids os2 = map (\<lambda>k. rs_idGenerator s + of_nat (Suc (Suc k))) [0..<?n]"
      by (simp add: add.assoc)
    also have "\<dots> = map (\<lambda>k. rs_idGenerator s + of_nat (Suc k)) [1..<Suc ?n]"
      by (simp add: map_Suc_upt [symmetric] del: upt_Suc)
    finally show ?thesis using tids gen IH os
      by (simp add: upt_conv_Cons add.assoc del: upt_Suc)
  qed
qed

lemma distinct_numbers:
  assumes "n < 2 ^ LENGTH('t::len)"
  shows "distinct (map (\<lambda>k. g + of_nat (Suc k) :: 't word) [0..<n])"
proof (subst distinct_map, intro conjI inj_onI)
  fix i j
  assume "i \<in> set [0..<n]" "j \<in> set [0..<n]" "g + of_nat (Suc i) = (g + of_nat (Suc j) :: 't word)"
  then have "Suc i < 2 ^ LENGTH('t)" "Suc j < 2 ^ LENGTH('t)"
    and eq: "unat (of_nat (Suc i) :: 't word) = unat (of_nat (Suc j) :: 't word)"
    using assms by (simp_all del: of_nat_Suc)
  then have "Suc i = Suc j" by (simp add: unat_of_nat del: of_nat_Suc)
  then show "i = j" by simp
qed simp

subsection \<open>Properties\<close>

text \<open>When the slave lets a response out: the conditions of \<^verbatim>\<open>MakeResponse\<close>.\<close>

definition rtu_response_fits :: "('b, 't) modbus_message \<Rightarrow> 't rtu_slave \<Rightarrow> 't message_info \<Rightarrow> 'b \<Rightarrow>
    bool" where
  "rtu_response_fits m s i b \<longleftrightarrow> rs_requestInfo s = Some i \<and> modbusBuffer m = Some b \<and>
     sourceId (modbusMessageInfo m) = rs_id s \<and>
     transactionId (modbusMessageInfo m) = transactionId i"

text \<open>
  a serial slave numbers its requests 1, 2, 3, ... modulo the width of a transaction id,
  and a response is accepted only if it answers the request numbered last. In any run of a new
  slave with fewer requests than there are transaction ids, a late response to an earlier
  request is therefore never taken for the answer to a later one.
\<close>

lemma RtuSlave_rejects_stale:
  fixes L :: "('b, 'u::len word, 't::len word) modbus_lib"
  assumes "ModbusRtuSlave defaultId r f = Done s"
    and "run (RtuSlave_step L defaultId) s es = Done (s', os)"
    and "length (request_tids os) < 2 ^ LENGTH('t)"
    and "rtu_response_fits m s' i b"
  shows "request_tids os = map (\<lambda>k. of_nat (Suc k)) [0..<length (request_tids os)] \<and>
    request_tids os \<noteq> [] \<and> transactionId (modbusMessageInfo m) = last (request_tids os) \<and>
    transactionId (modbusMessageInfo m) \<notin> set (butlast (request_tids os))"
proof -
  let ?n = "length (request_tids os)"
  have new: "rtu_slot_current s" "rs_idGenerator s = 0" "rs_requestInfo s = None"
    using assms(1) by (auto simp: ModbusRtuSlave_def rtu_slot_current_def split: if_splits)
  from RtuSlave_run_numbering [OF assms(2) new(1)] new(2)
  have cur: "rtu_slot_current s'" and gen: "rs_idGenerator s' = of_nat ?n"
    and tids: "request_tids os = map (\<lambda>k. of_nat (Suc k)) [0..<?n]" by auto
  from rtu.run_slot [OF TrueI assms(2)] new(3) assms(4)
  have hist: "slot_after None (concat (map rtu_view os)) = Some (Some ())"
    by (auto simp: rtu_response_fits_def)
  have "opened (concat (map rtu_view os)) = ?n"
    by (induction os rule: request_tids.induct) auto
  moreover from slot_after_Some [OF hist] have "opened (concat (map rtu_view os)) \<noteq> 0"
    by (auto simp: opened_def)
  ultimately have "?n \<noteq> 0" by simp
  then obtain k where k: "?n = Suc k" by (cases ?n) auto
  define f where "f = (\<lambda>k. of_nat (Suc k) :: 't word)"
  have split: "request_tids os = map f [0..<k] @ [f k]"
    using tids k by (simp add: f_def)
  have "distinct (request_tids os)"
    using distinct_numbers [OF assms(3), of 0] tids by simp
  moreover have "transactionId (modbusMessageInfo m) = f k"
    using cur gen assms(4) k by (simp add: rtu_slot_current_def rtu_response_fits_def f_def)
  ultimately show ?thesis using tids unfolding split by (simp del: of_nat_Suc)
qed

text \<open>
  C20: in every run of a new serial slave a frame is written to the line only in a step that hands
  over a response, and only directly after a request with the response's own transaction id was
  forwarded, with no other request and no other frame in between: never an unsolicited frame,
  never an answer to an older request, never two answers to one request, and never more answers
  than requests.
\<close>

theorem RtuSlave_answers_requests_once:
  assumes "ModbusRtuSlave defaultId r f = Done s"
    and "run (RtuSlave_logged_step L defaultId) s es = Done (s', log)"
  shows "(\<forall>g k h. concat (map line_view log) = g @ Answered k # h \<longrightarrow> (\<exists>g'. g = g' @ [Opened k])) \<and>
    answered (concat (map line_view log)) \<le> opened (concat (map line_view log))"
proof -
  from assms(1) have new: "map_option (\<lambda>i. Some (transactionId i)) (rs_requestInfo s) = None"
    by (auto simp: ModbusRtuSlave_def split: if_splits)
  show ?thesis
    by (intro conjI allI impI line.answers_follow_requests [OF TrueI assms(2) new]
        line.answers_bounded [OF TrueI assms(2) new])
qed

text \<open>
  C23: a response is written to the line exactly when it is addressed to this slave, a request is
  open, the transaction ids agree and it has a buffer; the frame written has the frame type of
  the line and the unit id of the response, and the slot is closed. In every other case nothing
  is written.
\<close>

theorem RtuSlave_response_frame:
  assumes "convert_types L" and "unit_id_kept L"
  shows "(\<forall>i b. rtu_response_fits m s i b \<longrightarrow>
      (\<exists>out. RtuSlave_StartWriteTask L m s = (s\<lparr>rs_requestInfo := None\<rparr>, [Async_send out]) \<and>
        mb_type L out = rs_frameType s \<and> mb_unit_id L out = mb_unit_id L b)) \<and>
    ((\<nexists>i b. rtu_response_fits m s i b) \<longrightarrow> snd (RtuSlave_StartWriteTask L m s) = [])"
  using assms
  by (auto simp: RtuSlave_StartWriteTask_def RtuSlave_MakeResponse_def step_simps Let_def
      rtu_response_fits_def convert_types_def unit_id_kept_def split: option.splits)

text \<open>A slave that has forwarded its first request, for the witnesses.\<close>

definition sample_slave :: "16 word rtu_slave" where
  "sample_slave = \<lparr>rs_id = 3, rs_router = Router TYPE(8) 7, rs_frameType = RTU,
     rs_idGenerator = 1, rs_requestInfo = Some (ModbusMessageInfo 100 3 1)\<rparr>"

definition sample_answer :: "(frame, 16 word) modbus_message" where
  "sample_answer = ModbusMessage (ModbusMessageInfo 100 3 1) (Some (sample_frame TCP 1 8))"

lemma sample_slave_fits:
  "rtu_response_fits sample_answer sample_slave (ModbusMessageInfo 100 3 1) (sample_frame TCP 1 8)"
  by (simp add: rtu_response_fits_def sample_slave_def sample_answer_def step_simps
      ModbusMessageInfo_def)

lemma sample_slave_run:
  "ModbusRtuSlave 0 (Router TYPE(8) 7) RTU = Done \<lparr>rs_id = 0, rs_router = Router TYPE(8) 7,
     rs_frameType = RTU, rs_idGenerator = (0 :: 16 word), rs_requestInfo = None\<rparr> \<and>
   run (RtuSlave_step sample_lib 0) \<lparr>rs_id = 0, rs_router = Router TYPE(8) 7,
     rs_frameType = RTU, rs_idGenerator = 0, rs_requestInfo = None\<rparr>
     [Slave_set_id 3, Slave_read True 100 None (sample_frame RTU 1 0) 9] =
   Done (sample_slave, [Exchange_send 7 (ModbusMsg (ModbusMessage (ModbusMessageInfo 100 3 1)
     (Some (sample_frame RTU 1 0)))), Async_receive RTU])"
  by (simp add: ModbusRtuSlave_def RtuSlave_defs step_simps sample_slave_def Router_Route_default
      sample_frame_def)

theorem RtuSlave_rejects_stale_witness:
  "transactionId (modbusMessageInfo sample_answer) = last [1 :: 16 word]"
  using RtuSlave_rejects_stale [OF sample_slave_run [THEN conjunct1]
      sample_slave_run [THEN conjunct2] _ sample_slave_fits]
  by (simp add: step_simps ModbusMessageInfo_def)

theorem RtuSlave_answers_requests_once_witness:
  "\<exists>s s' log. ModbusRtuSlave 0 (Router TYPE(8) 7) RTU = Done s \<and>
     run (RtuSlave_logged_step sample_lib 0) s [Slave_set_id 3, Slave_read True 100 None (sample_frame RTU 1 0) 9,
       Slave_message (ModbusMsg sample_answer)] = Done (s', log) \<and>
     concat (map line_view log) = [Opened (Some (1 :: 16 word)), Answered (Some 1)] \<and>
     (\<exists>g'. [Opened (Some 1)] = g' @ [Opened (Some (1 :: 16 word))])"
proof -
  let ?s = "\<lparr>rs_id = 0, rs_router = Router TYPE(8) 7, rs_frameType = RTU, rs_idGenerator = (0 :: 16 word), rs_requestInfo = None\<rparr>"
  have new: "ModbusRtuSlave 0 (Router TYPE(8) 7) RTU = Done ?s" using sample_slave_run by blast
  obtain s' log where run: "run (RtuSlave_logged_step sample_lib 0) ?s [Slave_set_id 3,
       Slave_read True 100 None (sample_frame RTU 1 0) 9, Slave_message (ModbusMsg sample_answer)] = Done (s', log)"
    and view: "concat (map line_view log) = [Opened (Some 1)] @ Answered (Some 1) # []"
    by (simp add: RtuSlave_logged_step_def RtuSlave_defs step_simps Router_Route_default sample_frame_def
        sample_answer_def ModbusMessageInfo_def)
  from RtuSlave_answers_requests_once [OF new run] view
  have "\<exists>g'. [Opened (Some (1 :: 16 word))] = g' @ [Opened (Some 1)]" by blast
  with new run view show ?thesis by auto
qed

theorem RtuSlave_response_frame_witness:
  "\<exists>out. RtuSlave_StartWriteTask sample_lib sample_answer sample_slave =
     (sample_slave\<lparr>rs_requestInfo := None\<rparr>, [Async_send out]) \<and> fr_type out = RTU \<and> fr_unit out = 1"
  using RtuSlave_response_frame [OF sample_lib_lawful(2,3), of sample_answer sample_slave]
    sample_slave_fits
  by (fastforce simp: sample_slave_def)

end
