(* ===== verification/Gateway.thy ===== *)
theory Gateway
  imports Gateway_Config Unit_Router Tcp_Server Rtu_Slave Rtu_Master Tcp_Client
begin

text \<open>
  How the program is put together (\<^verbatim>\<open>src/src/modbus_gateway.cpp\<close>,
  \<^verbatim>\<open>main.cpp\<close>, \<^verbatim>\<open>command_line.cpp\<close>): the master actors and
  the routing table made from the configuration, the slave actors, the start of the slaves, and
  the exit code.

  Parameters stand for the actor library and the operating system: \<open>add_id n\<close> is the id that
  the \<open>n\<close>-th \<^verbatim>\<open>exchange->Add\<close> gives (the library also calls
  \<^verbatim>\<open>SetId\<close> with it), \<open>opens\<close> says whether the port or the listening socket of a
  transport can be opened and configured, and \<open>run_loop\<close> is the event loop.
\<close>

subsection \<open>Outcomes of the start\<close>

text \<open>The start may raise, run into undefined behaviour, or not end.\<close>

datatype 'a startup = Ok 'a | Raised gateway_exception | Broken | Hangs

primrec st_bind :: "'a startup \<Rightarrow> ('a \<Rightarrow> 'b startup) \<Rightarrow> 'b startup" where
  "st_bind (Ok x) f = f x"
| "st_bind (Raised e) f = Raised e"
| "st_bind Broken f = Broken"
| "st_bind Hangs f = Hangs"

definition of_outcome :: "'a outcome \<Rightarrow> 'a startup" where
  "of_outcome x = (case x of Done y \<Rightarrow> Ok y | Throws \<Rightarrow> Raised LibraryError | Undefined \<Rightarrow> Broken)"

lemma of_outcome_simps [simp]:
  "of_outcome (Done y) = Ok y" "of_outcome Throws = Raised LibraryError" "of_outcome Undefined = Broken"
  by (simp_all add: of_outcome_def)

subsection \<open>Masters\<close>

datatype ('b, 't) master_actor = ClientActor "('b, 't) tcp_client" | RtuActor "('b, 't) rtu_master"

definition master_GetId :: "('b, 't) master_actor \<Rightarrow> actor_id" where
  "master_GetId a = (case a of ClientActor c \<Rightarrow> TcpClient_GetId c | RtuActor m \<Rightarrow> RtuMaster_GetId m)"

record ('a, 'u, 'b, 't) gw_master =
  gm_config :: "('a, 'u) transport_config"
  gm_actor :: "('b, 't) master_actor"

text \<open>A master without unit ids goes to the front of the list.\<close>

definition insert_master :: "'u master_config \<Rightarrow> ('a, 'u, 'b, 't) gw_master \<Rightarrow>
    ('a, 'u, 'b, 't) gw_master list \<Rightarrow> ('a, 'u, 'b, 't) gw_master list" where
  "insert_master mc client ms = (if unitIdSet mc = [] then client # ms else ms @ [client])"

fun MakeMasters :: "(('a, 'u) transport_config \<Rightarrow> bool) \<Rightarrow> (nat \<Rightarrow> actor_id) \<Rightarrow> actor_id \<Rightarrow> nat \<Rightarrow>
    ('a, 'u, 'b, 't::len word) gw_master list \<Rightarrow> ('a, 'u) transport_config list \<Rightarrow>
    (('a, 'u, 'b, 't word) gw_master list \<times> nat) startup" where
  "MakeMasters opens add_id defaultId n ms [] = Ok (ms, n)"
| "MakeMasters opens add_id defaultId n ms (masterConfig # rest) =
     (case masterConfig of
        TcpClientConfig mc address port \<Rightarrow>
          let tcpClient = TcpClient_SetId (add_id n) (ModbusTcpClient defaultId (mc_timeout mc)) in
          MakeMasters opens add_id defaultId (Suc n)
            (insert_master mc \<lparr>gm_config = masterConfig, gm_actor = ClientActor tcpClient\<rparr> ms) rest
      | RtuMasterConfig mc device options frameType \<Rightarrow>
          if \<not> opens masterConfig then Raised LibraryError
          else st_bind (of_outcome (ModbusRtuMaster defaultId (mc_timeout mc) frameType)) (\<lambda>rtuMaster.
            MakeMasters opens add_id defaultId (Suc n)
              (insert_master mc \<lparr>gm_config = masterConfig,
                 gm_actor = RtuActor (RtuMaster_SetId (add_id n) rtuMaster)\<rparr> ms) rest)
      | _ \<Rightarrow> Raised (LogicError ''BUG! unknown client type''))"

subsection \<open>Routing table\<close>

text \<open>
  The loop over the unit ids of one range, with its counter at the width of a unit id: whether
  it ends is a theorem.
\<close>

partial_function (option) set_range :: "'u::len word \<Rightarrow> 'u word \<Rightarrow> actor_id \<Rightarrow> router \<Rightarrow>
    router outcome option" where
  "set_range unitId e i router =
     (if unitId \<le> e
      then (case Router_Set unitId i router of None \<Rightarrow> Some Undefined
            | Some router' \<Rightarrow> set_range (unitId + 1) e i router')
      else Some (Done router))"

definition run_set_range :: "'u::len word unit_id_range \<Rightarrow> actor_id \<Rightarrow> router \<Rightarrow> router startup" where
  "run_set_range r i router =
     (case set_range (range_begin r) (range_end r) i router of None \<Rightarrow> Hangs | Some x \<Rightarrow> of_outcome x)"

fun set_ranges :: "'u::len word unit_id_range list \<Rightarrow> actor_id \<Rightarrow> router \<Rightarrow> router startup" where
  "set_ranges [] i router = Ok router"
| "set_ranges (r # rs) i router = st_bind (run_set_range r i router) (set_ranges rs i)"

fun set_masters :: "('a, 'u::len word, 'b, 't) gw_master list \<Rightarrow> router \<Rightarrow> router startup" where
  "set_masters [] router = Ok router"
| "set_masters (m # ms) router =
     (case as_MasterConfig (gm_config m) of
        None \<Rightarrow> Raised (LogicError ''BUG! cast to MasterConfig failed'')
      | Some mc \<Rightarrow> st_bind (set_ranges (unitIdSet mc) (master_GetId (gm_actor m)) router) (set_masters ms))"

definition MakeRouter :: "actor_id \<Rightarrow> ('a, 'u::len word, 'b, 't) gw_master list \<Rightarrow> router option startup" where
  "MakeRouter defaultId ms = (case ms of [] \<Rightarrow> Ok None
     | m # rest \<Rightarrow>
        (case as_MasterConfig (gm_config m) of
           None \<Rightarrow> Raised (LogicError ''BUG! cast to MasterConfig failed'')
         | Some mc \<Rightarrow>
             if unitIdSet mc = []
             then st_bind (set_masters rest (Router TYPE('u) (master_GetId (gm_actor m)))) (\<lambda>r. Ok (Some r))
             else st_bind (set_masters ms (Router TYPE('u) defaultId)) (\<lambda>r. Ok (Some r))))"

subsection \<open>Slaves\<close>

datatype ('p, 't) slave_actor = ServerActor "'p tcp_server" | SlaveActor "'t rtu_slave"

record ('a, 'u, 'p, 't) gw_slave =
  gs_config :: "('a, 'u) transport_config"
  gs_actor :: "('p, 't) slave_actor"

fun MakeSlaves :: "(('a, 'u) transport_config \<Rightarrow> bool) \<Rightarrow> (nat \<Rightarrow> actor_id) \<Rightarrow> actor_id \<Rightarrow> router \<Rightarrow> nat \<Rightarrow>
    ('a, 'u) transport_config list \<Rightarrow> (('a, 'u, 'p, 't::len word) gw_slave list) startup" where
  "MakeSlaves opens add_id defaultId router n [] = Ok []"
| "MakeSlaves opens add_id defaultId router n (slavesConfig # rest) =
     (case slavesConfig of
        TcpServerConfig address port \<Rightarrow>
          if \<not> opens slavesConfig then Raised LibraryError
          else st_bind (MakeSlaves opens add_id defaultId router (Suc n) rest) (\<lambda>slaves.
            Ok (\<lparr>gs_config = slavesConfig,
                 gs_actor = ServerActor (TcpServer_SetId (add_id n) (ModbusTcpServer defaultId))\<rparr> # slaves))
      | RtuSlaveConfig device options frameType \<Rightarrow>
          if \<not> opens slavesConfig then Raised LibraryError
          else st_bind (of_outcome (ModbusRtuSlave defaultId router frameType)) (\<lambda>rtuSlave.
            st_bind (MakeSlaves opens add_id defaultId router (Suc n) rest) (\<lambda>slaves.
            Ok (\<lparr>gs_config = slavesConfig,
                 gs_actor = SlaveActor (RtuSlave_SetId (add_id n) rtuSlave)\<rparr> # slaves)))
      | _ \<Rightarrow> Raised (LogicError ''BUG! unknown client type''))"

definition Slave_Start :: "actor_id \<Rightarrow> ('p, 't) slave_actor \<Rightarrow>
    (('p, 't) slave_actor \<times> ('b, 't) effect list) startup" where
  "Slave_Start defaultId slave = (case slave of
     ServerActor s \<Rightarrow> st_bind (of_outcome (TcpServer_Start defaultId s)) (\<lambda>(s', os). Ok (ServerActor s', os))
   | SlaveActor s \<Rightarrow> (case RtuSlave_Start s of (s', os) \<Rightarrow> Ok (SlaveActor s', os)))"

fun StartSlaves :: "actor_id \<Rightarrow> ('a, 'u, 'p, 't) gw_slave list \<Rightarrow>
    (('a, 'u, 'p, 't) gw_slave list \<times> ('b, 't) effect list) startup" where
  "StartSlaves defaultId [] = Ok ([], [])"
| "StartSlaves defaultId (slave # rest) =
     st_bind (Slave_Start defaultId (gs_actor slave)) (\<lambda>(actor, os).
     st_bind (StartSlaves defaultId rest) (\<lambda>(slaves, os').
     Ok (slave\<lparr>gs_actor := actor\<rparr> # slaves, os @ os')))"

subsection \<open>ModbusGateway and main\<close>

record ('a, 'u, 'b, 'p, 't) gateway =
  gw_masters :: "('a, 'u, 'b, 't) gw_master list"
  gw_router :: router
  gw_slaves :: "('a, 'u, 'p, 't) gw_slave list"
  gw_effects :: "('b, 't) effect list"
  gw_logLevel :: log_level
  gw_threads :: "64 word"

definition Gateway_start :: "(('a, 'u::len word) transport_config \<Rightarrow> bool) \<Rightarrow> (nat \<Rightarrow> actor_id) \<Rightarrow>
    actor_id \<Rightarrow> ('a, 'u word) config \<Rightarrow> ('a, 'u word, 'b, 'p, 't::len word) gateway startup" where
  "Gateway_start opens add_id defaultId cfg =
     st_bind (MakeMasters opens add_id defaultId 0 [] (masters cfg)) (\<lambda>(ms, n).
     if ms = [] then Raised (LogicError ''BUG! masters is empty'')
     else st_bind (MakeRouter defaultId ms) (\<lambda>routerOpt. case routerOpt of
       None \<Rightarrow> Raised (LogicError ''BUG! router is null'')
     | Some router \<Rightarrow>
         st_bind (MakeSlaves opens add_id defaultId router n (slaves cfg)) (\<lambda>ss.
         if ss = [] then Raised (LogicError ''BUG! slaves is empty'')
         else st_bind (StartSlaves defaultId ss) (\<lambda>(ss', os).
           Ok \<lparr>gw_masters = ms, gw_router = router, gw_slaves = ss', gw_effects = os,
             gw_logLevel = logLevel (configService cfg), gw_threads = threads (configService cfg)\<rparr>))))"

definition ModbusGateway :: "(('a, 'u::len word) transport_config \<Rightarrow> bool) \<Rightarrow> (nat \<Rightarrow> actor_id) \<Rightarrow>
    actor_id \<Rightarrow> (('a, 'u word, 'b, 'p, 't::len word) gateway \<Rightarrow> unit startup) \<Rightarrow>
    ('a, 'u word) config \<Rightarrow> int startup" where
  "ModbusGateway opens add_id defaultId run_loop cfg =
     st_bind (Gateway_start opens add_id defaultId cfg) (\<lambda>g. st_bind (run_loop g) (\<lambda>_. Ok 0))"

text \<open>
  The result of the option parser: how often help was asked for, and the config path. The parser
  itself is a parameter; it gets the options the constructor declares (names, description,
  whether it takes a value) and gives \<open>None\<close> when it throws.
\<close>

record command_line =
  cl_help :: nat
  cl_config :: "string option"

type_synonym option_parser = "(string \<times> string \<times> bool) list \<Rightarrow> string list \<Rightarrow> command_line option"

definition CommandLine :: "option_parser \<Rightarrow> string list \<Rightarrow> command_line option" where
  "CommandLine parse argv =
     parse [(''h,help'', ''Print usage'', False), (''c,config'', ''Config file'', True)] argv"

definition CommandLine_IsHelp :: "command_line \<Rightarrow> bool" where
  "CommandLine_IsHelp c = (cl_help c \<noteq> 0)"

definition CommandLine_GetConfigPath :: "command_line \<Rightarrow> string startup" where
  "CommandLine_GetConfigPath c = (case cl_config c of Some p \<Rightarrow> Ok p
     | None \<Rightarrow> Raised (CommandLineException ''config arg not set''))"

text \<open>
  What \<^verbatim>\<open>main\<close> prints to the error stream: the text of the exception, and the
  key and the path for an exception of the parser.
\<close>

datatype report = ParserReport "string option" string string | ExceptionReport "string option" | Help

definition report_of :: "gateway_exception \<Rightarrow> report" where
  "report_of e = (case parser_base e of
     Some b \<Rightarrow> ParserReport (what e) (GetTargetKey b) (GetFullPath b)
   | None \<Rightarrow> ExceptionReport (what e))"

text \<open>
  \<open>read_json\<close> is the parsed contents of the file at a path. The result is the exit code and what was printed.
\<close>

definition main :: "('j, 'a, 'u::len word) config_lib \<Rightarrow> (('a, 'u word) transport_config \<Rightarrow> bool) \<Rightarrow>
    (nat \<Rightarrow> actor_id) \<Rightarrow> actor_id \<Rightarrow>
    (('a, 'u word, 'b, 'p, 't::len word) gateway \<Rightarrow> unit startup) \<Rightarrow> (string \<Rightarrow> 'j option) \<Rightarrow>
    option_parser \<Rightarrow> string list \<Rightarrow> (int \<times> report option) startup" where
  "main L opens add_id defaultId run_loop read_json parse argv =
     (let body = (case CommandLine parse argv of None \<Rightarrow> Raised LibraryError
        | Some commandLine \<Rightarrow>
            if CommandLine_IsHelp commandLine then Ok (0, Some Help)
            else st_bind (CommandLine_GetConfigPath commandLine) (\<lambda>configPath.
              case Config L (read_json configPath) of Inl e \<Rightarrow> Raised e
              | Inr config \<Rightarrow>
                  (case Config_Validate config of Inl e \<Rightarrow> Raised e
                   | Inr _ \<Rightarrow> st_bind (ModbusGateway opens add_id defaultId run_loop config) (\<lambda>rc. Ok (rc, None)))))
      in case body of Raised e \<Rightarrow> Ok (1, Some (report_of e)) | _ \<Rightarrow> body)"

subsection \<open>Setting ranges\<close>

definition in_range :: "'u::linorder unit_id_range \<Rightarrow> 'u \<Rightarrow> bool" where
  "in_range r u \<longleftrightarrow> range_begin r \<le> u \<and> u \<le> range_end r"

definition serves :: "('a, 'u::linorder) transport_config \<Rightarrow> 'u \<Rightarrow> bool" where
  "serves c u = (case as_MasterConfig c of None \<Rightarrow> False
     | Some mc \<Rightarrow> list_ex (\<lambda>r. in_range r u) (unitIdSet mc))"

abbreviation table_of :: "'u::len itself \<Rightarrow> router \<Rightarrow> bool" where
  "table_of u r \<equiv> length (routeMap r) = UnitId_max u"

lemma Router_Set_defined:
  "table_of TYPE('u::len) r \<Longrightarrow> Router_Set (u :: 'u word) i r = None \<longleftrightarrow> u = - 1"
  using unat_below_max [of u] by (simp add: Router_Set_def UnitId_max_def)

lemma word_Suc_le: "(u :: 'u::len word) < v \<Longrightarrow> u + 1 \<le> k \<longleftrightarrow> u < k"
  using word_less_Suc [of u v] by (simp add: word_le_nat_alt word_less_nat_alt Suc_le_eq)

lemma set_range_defined:
  assumes "e \<noteq> - 1" and "table_of TYPE('u::len) r"
  shows "\<exists>r'. set_range (u :: 'u word) e i r = Some (Done r') \<and> table_of TYPE('u) r' \<and>
    (\<forall>k :: 'u word. Router_Route r' k = (if u \<le> k \<and> k \<le> e then Some i else Router_Route r k))"
  using assms(2)
proof (induction "Suc (unat e) - unat u" arbitrary: u r rule: less_induct)
  case less
  show ?case
  proof (cases "u \<le> e")
    case True
    with assms(1) have u: "u < - 1" using word_not_max_less [of e] by simp
    with Router_Set_defined [OF less.prems, of u i] obtain r1 where r1: "Router_Set u i r = Some r1"
      by (cases "Router_Set u i r") auto
    have "Suc (unat e) - unat (u + 1) < Suc (unat e) - unat u"
      using True word_less_Suc [OF u] by (simp add: word_le_nat_alt)
    moreover have "table_of TYPE('u) r1" using Router_Set_length [OF r1] less.prems by simp
    ultimately obtain r' where r': "set_range (u + 1) e i r1 = Some (Done r')" "table_of TYPE('u) r'"
      "\<forall>k. Router_Route r' k = (if u + 1 \<le> k \<and> k \<le> e then Some i else Router_Route r1 k)"
      using less.hyps [of "u + 1" r1] by auto
    have "Router_Route r' k = (if u \<le> k \<and> k \<le> e then Some i else Router_Route r k)" for k
      using ur.assign_then [OF r1 r'(3)] True word_Suc_le [OF u, of k]
      by (auto simp: order_le_less)
    with r1 r'(1,2) True show ?thesis by (simp add: set_range.simps [of u])
  next
    case False
    with less.prems show ?thesis by (auto simp: set_range.simps [of u])
  qed
qed

lemma set_range_overrun:
  assumes "table_of TYPE('u::len) r"
  shows "set_range (u :: 'u word) (- 1) i r = Some Undefined"
  using assms
proof (induction "unat (- 1 :: 'u word) - unat u" arbitrary: u r rule: less_induct)
  case less
  show ?case
  proof (cases "u = - 1")
    case True
    with Router_Set_defined [OF less.prems, of u i] show ?thesis by (simp add: set_range.simps [of "- 1"])
  next
    case False
    then have u: "u < - 1" using word_not_max_less by blast
    from False Router_Set_defined [OF less.prems, of u i] obtain r1 where r1: "Router_Set u i r = Some r1"
      by (cases "Router_Set u i r") auto
    have "unat (- 1 :: 'u word) - unat (u + 1) < unat (- 1 :: 'u word) - unat u"
      using u word_less_Suc [OF u] by (simp add: word_less_nat_alt)
    moreover have "table_of TYPE('u) r1" using Router_Set_length [OF r1] less.prems by simp
    ultimately have "set_range (u + 1) (- 1) i r1 = Some Undefined" using less.hyps [of "u + 1" r1] by simp
    with r1 show ?thesis by (simp add: set_range.simps [of u] word_order.extremum)
  qed
qed

lemma set_ranges_defined:
  assumes "list_all (\<lambda>r. range_end r \<noteq> - 1) rs" and "table_of TYPE('u::len) r"
  shows "\<exists>r'. set_ranges (rs :: 'u word unit_id_range list) i r = Ok r' \<and> table_of TYPE('u) r' \<and>
    (\<forall>k :: 'u word. Router_Route r' k =
      (if list_ex (\<lambda>x. in_range x k) rs then Some i else Router_Route r k))"
  using assms
proof (induction rs arbitrary: r)
  case (Cons x rs)
  then obtain r1 where r1: "set_range (range_begin x) (range_end x) i r = Some (Done r1)"
    "table_of TYPE('u) r1"
    "\<forall>k. Router_Route r1 k = (if in_range x k then Some i else Router_Route r k)"
    using set_range_defined [of "range_end x" r "range_begin x" i] by (auto simp: in_range_def)
  with Cons.IH [of r1] Cons.prems(1) obtain r' where "set_ranges rs i r1 = Ok r'" "table_of TYPE('u) r'"
    "\<forall>k. Router_Route r' k = (if list_ex (\<lambda>x. in_range x k) rs then Some i else Router_Route r1 k)"
    by auto
  with r1 show ?case by (auto simp: run_set_range_def)
qed simp

lemma set_ranges_broken:
  assumes "\<exists>x \<in> set rs. range_end x = - 1" and "table_of TYPE('u::len) r"
  shows "set_ranges (rs :: 'u word unit_id_range list) i r = Broken"
  using assms
proof (induction rs arbitrary: r)
  case (Cons x rs)
  show ?case
  proof (cases "range_end x = - 1")
    case True
    then show ?thesis
      using set_range_overrun [OF Cons.prems(2), of "range_begin x" i] by (simp add: run_set_range_def)
  next
    case False
    with set_range_defined [of "range_end x" r "range_begin x" i] Cons.prems(2) obtain r1 where
      "set_range (range_begin x) (range_end x) i r = Some (Done r1)" "table_of TYPE('u) r1" by auto
    with Cons.IH [of r1] Cons.prems(1) False show ?thesis by (simp add: run_set_range_def)
  qed
qed simp

text \<open>The master that serves a unit id: the last one in the list with a range that has it.\<close>

definition served :: "('a, 'u::linorder, 'b, 't) gw_master list \<Rightarrow> 'u \<Rightarrow> actor_id option" where
  "served ms u = (case filter (\<lambda>m. serves (gm_config m) u) ms of [] \<Rightarrow> None
     | x # xs \<Rightarrow> Some (master_GetId (gm_actor (last (x # xs)))))"

lemma served_Nil [simp]: "served [] u = None"
  by (simp add: served_def)

lemma served_Cons:
  "served (m # ms) u = (case served ms u of Some i \<Rightarrow> Some i
     | None \<Rightarrow> if serves (gm_config m) u then Some (master_GetId (gm_actor m)) else None)"
  by (auto simp: served_def split: list.split)

definition masters_ok :: "('a, 'u::len word, 'b, 't) gw_master list \<Rightarrow> bool" where
  "masters_ok ms \<longleftrightarrow> list_all (\<lambda>m. case as_MasterConfig (gm_config m) of None \<Rightarrow> False
     | Some mc \<Rightarrow> list_all (\<lambda>r. range_end r \<noteq> - 1) (unitIdSet mc)) ms"

lemma set_masters_defined:
  assumes "masters_ok ms" and "table_of TYPE('u::len) r"
  shows "\<exists>r'. set_masters (ms :: ('a, 'u word, 'b, 't) gw_master list) r = Ok r' \<and> table_of TYPE('u) r' \<and>
    (\<forall>k. Router_Route r' k = (case served ms k of Some i \<Rightarrow> Some i | None \<Rightarrow> Router_Route r k))"
  using assms
proof (induction ms arbitrary: r)
  case (Cons m ms)
  then obtain mc where mc: "as_MasterConfig (gm_config m) = Some mc"
    and ends: "list_all (\<lambda>r. range_end r \<noteq> - 1) (unitIdSet mc)" and rest: "masters_ok ms"
    by (auto simp: masters_ok_def split: option.splits)
  let ?i = "master_GetId (gm_actor m)"
  from set_ranges_defined [OF ends Cons.prems(2), of ?i] obtain r1 where
    r1: "set_ranges (unitIdSet mc) ?i r = Ok r1" "table_of TYPE('u) r1"
    "\<forall>k. Router_Route r1 k = (if serves (gm_config m) k then Some ?i else Router_Route r k)"
    using mc by (auto simp: serves_def)
  from Cons.IH [OF rest r1(2)] obtain r' where "set_masters ms r1 = Ok r'" "table_of TYPE('u) r'"
    "\<forall>k. Router_Route r' k = (case served ms k of Some i \<Rightarrow> Some i | None \<Rightarrow> Router_Route r1 k)"
    by auto
  with mc r1 show ?case by (auto simp: served_Cons split: option.split)
qed simp

text \<open>A master with a range up to the largest unit id.\<close>

definition overruns :: "('a, 'u::len word) transport_config \<Rightarrow> bool" where
  "overruns c = (case as_MasterConfig c of None \<Rightarrow> False
     | Some mc \<Rightarrow> list_ex (\<lambda>r. range_end r = - 1) (unitIdSet mc))"

abbreviation all_masters :: "('a, 'u::len word, 'b, 't) gw_master list \<Rightarrow> bool" where
  "all_masters ms \<equiv> list_all (\<lambda>m. as_MasterConfig (gm_config m) \<noteq> None) ms"

lemma masters_ok_iff: "masters_ok ms \<longleftrightarrow> all_masters ms \<and> \<not> list_ex (\<lambda>m. overruns (gm_config m)) ms"
  by (induction ms) (auto simp: masters_ok_def overruns_def list_all_iff list_ex_iff split: option.splits)

lemma set_masters_broken:
  assumes "all_masters ms" and "list_ex (\<lambda>m. overruns (gm_config m)) ms" and "table_of TYPE('u::len) r"
  shows "set_masters (ms :: ('a, 'u word, 'b, 't) gw_master list) r = Broken"
  using assms
proof (induction ms arbitrary: r)
  case (Cons m ms)
  then obtain mc where mc: "as_MasterConfig (gm_config m) = Some mc" by auto
  let ?i = "master_GetId (gm_actor m)"
  show ?case
  proof (cases "overruns (gm_config m)")
    case True
    with mc have "\<exists>x \<in> set (unitIdSet mc). range_end x = - 1" by (simp add: overruns_def list_ex_iff)
    from set_ranges_broken [OF this Cons.prems(3), of ?i] mc show ?thesis by simp
  next
    case False
    with mc have "list_all (\<lambda>r. range_end r \<noteq> - 1) (unitIdSet mc)" by (simp add: overruns_def list_all_iff list_ex_iff)
    from set_ranges_defined [OF this Cons.prems(3), of ?i] obtain r1 where
      "set_ranges (unitIdSet mc) ?i r = Ok r1" "table_of TYPE('u) r1" by blast
    with Cons.IH [of r1] Cons.prems(1,2) False mc show ?thesis by simp
  qed
qed simp

lemma default_serves_none: "is_default c \<Longrightarrow> \<not> serves c u"
  by (auto simp: is_default_def serves_def split: option.splits)

lemma MakeRouter_defined:
  assumes "masters_ok ms" and "ms \<noteq> []"
  shows "\<exists>r. MakeRouter d (ms :: ('a, 'u::len word, 'b, 't) gw_master list) = Ok (Some r) \<and>
    table_of TYPE('u) r \<and>
    (\<forall>k. k \<noteq> - 1 \<longrightarrow> Router_Route r k = Some (case served ms k of Some i \<Rightarrow> i
      | None \<Rightarrow> if is_default (gm_config (hd ms)) then master_GetId (gm_actor (hd ms)) else d))"
proof -
  from assms(2) obtain m rest where ms: "ms = m # rest" by (cases ms) auto
  with assms(1) obtain mc where mc: "as_MasterConfig (gm_config m) = Some mc" and rest: "masters_ok rest"
    by (auto simp: masters_ok_def split: option.splits)
  have new: "table_of TYPE('u) (Router TYPE('u) a)" for a by (simp add: UnitId_max_def)
  show ?thesis
  proof (cases "unitIdSet mc = []")
    case True
    then have "\<not> serves (gm_config m) k" "is_default (gm_config m)" for k
      using mc by (simp_all add: serves_def is_default_def)
    moreover obtain r where "set_masters rest (Router TYPE('u) (master_GetId (gm_actor m))) = Ok r"
      "table_of TYPE('u) r" "\<forall>k. Router_Route r k = (case served rest k of Some i \<Rightarrow> Some i
        | None \<Rightarrow> Router_Route (Router TYPE('u) (master_GetId (gm_actor m))) k)"
      using set_masters_defined [OF rest new] by blast
    ultimately show ?thesis using True mc ms
      by (auto simp: MakeRouter_def served_Cons Router_Route_default split: option.split)
  next
    case False
    then have "\<not> is_default (gm_config m)" using mc by (simp add: is_default_def)
    moreover obtain r where "set_masters ms (Router TYPE('u) d) = Ok r" "table_of TYPE('u) r"
      "\<forall>k. Router_Route r k = (case served ms k of Some i \<Rightarrow> Some i
        | None \<Rightarrow> Router_Route (Router TYPE('u) d) k)"
      using set_masters_defined [OF assms(1) new] by blast
    ultimately show ?thesis using False mc ms
      by (auto simp: MakeRouter_def Router_Route_default split: option.split)
  qed
qed

lemma MakeRouter_broken:
  assumes "all_masters ms" and "list_ex (\<lambda>m. overruns (gm_config m)) ms"
  shows "MakeRouter d (ms :: ('a, 'u::len word, 'b, 't) gw_master list) = Broken"
proof -
  from assms obtain m rest mc where ms: "ms = m # rest" and mc: "as_MasterConfig (gm_config m) = Some mc"
    by (cases ms) auto
  have new: "table_of TYPE('u) (Router TYPE('u) a)" for a by (simp add: UnitId_max_def)
  show ?thesis
  proof (cases "unitIdSet mc = []")
    case True
    with mc have "\<not> overruns (gm_config m)" by (simp add: overruns_def)
    with set_masters_broken [OF _ _ new, of rest] assms True mc ms show ?thesis by (simp add: MakeRouter_def)
  next
    case False
    with set_masters_broken [OF assms new] mc ms show ?thesis by (simp add: MakeRouter_def)
  qed
qed

subsection \<open>The masters in the list\<close>

text \<open>Only a serial master opens its port at the start; a TCP client connects when it is used.\<close>

definition port_opens :: "(('a, 'u) transport_config \<Rightarrow> bool) \<Rightarrow> ('a, 'u) transport_config \<Rightarrow> bool" where
  "port_opens opens c = (case c of RtuMasterConfig mc device options frameType \<Rightarrow> opens c | _ \<Rightarrow> True)"

lemma master_ok_config: "master_ok L c \<Longrightarrow> as_MasterConfig c \<noteq> None"
  by (auto simp: master_ok_def as_MasterConfig_def split: transport_config.splits)

lemma MakeMasters_raised:
  assumes "list_all (master_ok L) cfgs" and "\<not> list_all (port_opens opens) cfgs"
  shows "MakeMasters opens add_id d n ms cfgs = Raised LibraryError"
  using assms
proof (induction cfgs arbitrary: n ms)
  case (Cons c cfgs)
  then show ?case
    by (cases c) (auto simp: master_ok_def port_opens_def ModbusRtuMaster_def Let_def)
qed simp

lemma MakeMasters_list:
  assumes "list_all (master_ok L) cfgs" and "list_all (port_opens opens) cfgs"
  shows "\<exists>all. MakeMasters opens add_id d n ms cfgs =
      Ok (rev (filter (\<lambda>m. is_default (gm_config m)) all) @ ms @
          filter (\<lambda>m. \<not> is_default (gm_config m)) all, n + length cfgs) \<and>
    map (\<lambda>m. (gm_config m, master_GetId (gm_actor m))) all = zip cfgs (map add_id [n ..< n + length cfgs])"
  using assms
proof (induction cfgs arbitrary: n ms)
  case (Cons c cfgs)
  from Cons.prems have c: "master_ok L c" "port_opens opens c" and ok: "list_all (master_ok L) cfgs"
    "list_all (port_opens opens) cfgs" by simp_all
  from master_ok_config [OF c(1)] obtain mc where mc: "as_MasterConfig c = Some mc" by blast
  obtain a where a: "MakeMasters opens add_id d n ms (c # cfgs) = MakeMasters opens add_id d (Suc n)
      (insert_master mc \<lparr>gm_config = c, gm_actor = a\<rparr> ms) cfgs" and id: "master_GetId a = add_id n"
    using c mc
    by (auto simp: master_ok_def port_opens_def as_MasterConfig_def ModbusRtuMaster_def master_GetId_def Let_def
        TcpClient_GetId_def TcpClient_SetId_def RtuMaster_GetId_def RtuMaster_SetId_def
        split: transport_config.splits)
  let ?m = "\<lparr>gm_config = c, gm_actor = a\<rparr>"
  from Cons.IH [OF ok, of "Suc n" "insert_master mc ?m ms"] obtain all where
    all: "MakeMasters opens add_id d (Suc n) (insert_master mc ?m ms) cfgs =
      Ok (rev (filter (\<lambda>m. is_default (gm_config m)) all) @ insert_master mc ?m ms @
          filter (\<lambda>m. \<not> is_default (gm_config m)) all, Suc n + length cfgs)"
    "map (\<lambda>m. (gm_config m, master_GetId (gm_actor m))) all = zip cfgs (map add_id [Suc n ..< Suc n + length cfgs])"
    by blast
  from all(2) id have "map (\<lambda>m. (gm_config m, master_GetId (gm_actor m))) (?m # all) =
      zip (c # cfgs) (map add_id [n ..< n + length (c # cfgs)])"
    by (simp add: upt_conv_Cons del: upt_Suc)
  moreover have "is_default c \<longleftrightarrow> unitIdSet mc = []" using mc by (simp add: is_default_def)
  ultimately show ?case using a all(1)
    by (intro exI [of _ "?m # all"]) (simp add: insert_master_def del: upt_Suc)
qed simp

text \<open>
  The specification of the routing: the last master in the file with a range that has the unit
  id; if there is none, the first master without unit ids; if there is none, the default id.
\<close>

definition route_spec :: "(nat \<Rightarrow> actor_id) \<Rightarrow> actor_id \<Rightarrow> ('a, 'u::linorder) transport_config list \<Rightarrow> 'u \<Rightarrow>
    actor_id" where
  "route_spec add_id d cfgs u =
     (let ids = zip cfgs (map add_id [0 ..< length cfgs]) in
      case filter (\<lambda>(c, i). serves c u) ids of x # xs \<Rightarrow> snd (last (x # xs))
      | [] \<Rightarrow> (case filter (\<lambda>(c, i). is_default c) ids of x # xs \<Rightarrow> snd x | [] \<Rightarrow> d))"

lemma served_defaults_first:
  "served (rev (filter (\<lambda>m. is_default (gm_config m)) all) @ filter (\<lambda>m. \<not> is_default (gm_config m)) all) u =
    served all u"
proof -
  have "filter (\<lambda>m. serves (gm_config m) u) (rev (filter (\<lambda>m. is_default (gm_config m)) all)) = []"
    using default_serves_none by (auto simp: filter_empty_conv)
  moreover have "filter (\<lambda>m. serves (gm_config m) u) (filter (\<lambda>m. \<not> is_default (gm_config m)) all) =
      filter (\<lambda>m. serves (gm_config m) u) all"
    by (auto intro: filter_cong dest: default_serves_none)
  ultimately show ?thesis by (simp add: served_def)
qed

lemma route_spec_masters:
  assumes "map (\<lambda>m. (gm_config m, master_GetId (gm_actor m))) all = zip cfgs (map add_id [0 ..< length cfgs])"
  shows "route_spec add_id d cfgs u = (case served all u of Some i \<Rightarrow> i
     | None \<Rightarrow> (case filter (\<lambda>m. is_default (gm_config m)) all of [] \<Rightarrow> d
         | m # ms \<Rightarrow> master_GetId (gm_actor m)))"
  unfolding route_spec_def assms [symmetric]
  by (auto simp: served_def filter_map comp_def last_map Let_def split: list.split)

text \<open>The list of the masters of a validated configuration, and its routing.\<close>

lemma MakeMasters_validated:
  fixes cfg :: "('a, 'u::len word) config"
  assumes "masters cfg \<noteq> []" and "list_all (master_ok L) (masters cfg)" and "Config_Validate cfg = Inr ()"
    and "list_all (port_opens opens) (masters cfg)"
  shows "\<exists>all :: ('a, 'u word, 'b, 't::len word) gw_master list. MakeMasters opens add_id d 0 [] (masters cfg) =
      Ok (filter (\<lambda>m. is_default (gm_config m)) all @ filter (\<lambda>m. \<not> is_default (gm_config m)) all, length (masters cfg)) \<and>
    map (\<lambda>m. (gm_config m, master_GetId (gm_actor m))) all = zip (masters cfg) (map add_id [0 ..< length (masters cfg)]) \<and>
    map gm_config all = masters cfg \<and> length (filter (\<lambda>m. is_default (gm_config m)) all) \<le> 1"
proof -
  let ?D = "\<lambda>m :: ('a, 'u word, 'b, 't word) gw_master. is_default (gm_config m)"
  obtain all :: "('a, 'u word, 'b, 't word) gw_master list" where
    ms: "MakeMasters opens add_id d 0 [] (masters cfg) =
      Ok (rev (filter ?D all) @ filter (\<lambda>m. \<not> ?D m) all, length (masters cfg))" and
    all: "map (\<lambda>m. (gm_config m, master_GetId (gm_actor m))) all =
      zip (masters cfg) (map add_id [0 ..< length (masters cfg)])"
    using MakeMasters_list [OF assms(2,4), of add_id d 0 "[]"] by auto
  have confs: "map gm_config all = masters cfg"
    using arg_cong [OF all, of "map fst"] by (simp add: comp_def)
  then have "length (filter ?D all) = length (filter is_default (masters cfg))"
    by (metis (no_types, lifting) comp_apply filter_cong filter_map length_map)
  with default_indexes_length [of 0 "masters cfg"] assms(3) have one: "length (filter ?D all) \<le> 1"
    by (simp add: Config_Validate_def Let_def with_trace_def throw_InvalidValue_def praise_def
        split: if_splits)
  then have "rev (filter ?D all) = filter ?D all" by (cases "filter ?D all") auto
  with ms all confs one show ?thesis by auto
qed

lemma route_spec_list:
  fixes all :: "('a, 'u::len word, 'b, 't) gw_master list"
  assumes "map (\<lambda>m. (gm_config m, master_GetId (gm_actor m))) all = zip cfgs (map add_id [0 ..< length cfgs])"
    and "length (filter (\<lambda>m. is_default (gm_config m)) all) \<le> 1"
    and "filter (\<lambda>m. is_default (gm_config m)) all @ filter (\<lambda>m. \<not> is_default (gm_config m)) all = ms" and "ms \<noteq> []"
  shows "route_spec add_id d cfgs k = (case served ms k of Some i \<Rightarrow> i
    | None \<Rightarrow> if is_default (gm_config (hd ms)) then master_GetId (gm_actor (hd ms)) else d)"
proof -
  let ?D = "\<lambda>m :: ('a, 'u word, 'b, 't) gw_master. is_default (gm_config m)"
  from assms(2) have rev: "rev (filter ?D all) = filter ?D all" by (cases "filter ?D all") auto
  have "?D (hd ms) \<longleftrightarrow> filter ?D all \<noteq> []"
    using assms(3,4) by (cases "filter ?D all"; cases "filter (\<lambda>m. \<not> ?D m) all")
      (auto dest!: arg_cong [where f = set] simp: set_eq_iff)
  then show ?thesis
    using served_defaults_first [of all] rev assms(3)
    by (auto simp: route_spec_masters [OF assms(1)] split: option.split list.split)
qed

subsection \<open>Slaves\<close>

text \<open>The operation a slave starts first.\<close>

definition first_op :: "('a, 'u) transport_config \<Rightarrow> ('b, 't) effect list" where
  "first_op c = (case c of TcpServerConfig a p \<Rightarrow> [Async_accept]
     | RtuSlaveConfig dv opts f \<Rightarrow> [Async_receive f] | _ \<Rightarrow> [])"

definition slave_routes_by :: "router \<Rightarrow> ('a, 'u, 'p, 't) gw_slave \<Rightarrow> bool" where
  "slave_routes_by router s = (case gs_actor s of SlaveActor x \<Rightarrow> rs_router x = router | _ \<Rightarrow> True)"

lemma first_op_simps [simp]:
  "first_op (TcpServerConfig a p) = [Async_accept]" "first_op (RtuSlaveConfig dv opts f) = [Async_receive f]"
  by (simp_all add: first_op_def)

lemma slave_routes_by_simps [simp]:
  "slave_routes_by router \<lparr>gs_config = c, gs_actor = ServerActor s\<rparr>"
  "slave_routes_by router \<lparr>gs_config = c, gs_actor = SlaveActor x\<rparr> \<longleftrightarrow> rs_router x = router"
  by (simp_all add: slave_routes_by_def)

lemma MakeSlaves_defined:
  assumes "list_all slave_ok cfgs" and "list_all opens cfgs" and "\<forall>n. add_id n \<noteq> d"
  shows "\<exists>ss ss' :: ('a, 'u, 'p, 't word) gw_slave list. MakeSlaves opens add_id d router n cfgs = Ok ss \<and>
    StartSlaves d ss = Ok (ss', concat (map first_op cfgs) :: ('b, 't::len word) effect list) \<and>
    map gs_config ss = cfgs \<and> map gs_config ss' = cfgs \<and> list_all (slave_routes_by router) ss'"
  using assms(1,2)
proof (induction cfgs arbitrary: n)
  case (Cons c cfgs)
  then have c: "slave_ok c" "opens c" by simp_all
  obtain ss ss' :: "('a, 'u, 'p, 't word) gw_slave list" where "MakeSlaves opens add_id d router (Suc n) cfgs = Ok ss"
    "StartSlaves d ss = Ok (ss', concat (map first_op cfgs) :: ('b, 't word) effect list)"
    "map gs_config ss = cfgs" "map gs_config ss' = cfgs" "list_all (slave_routes_by router) ss'"
    using Cons.IH [of "Suc n"] Cons.prems by auto
  then show ?case using c assms(3)
    by (cases c)
      (auto simp: slave_ok_def Slave_Start_def TcpServer_Start_def TcpServer_SetId_def
        TcpServer_AcceptTask_def ModbusRtuSlave_def RtuSlave_Start_def RtuSlave_StartReadTask_def
        RtuSlave_SetId_def)
qed simp

lemma MakeSlaves_raised:
  assumes "list_all slave_ok cfgs" and "\<not> list_all opens cfgs"
  shows "MakeSlaves opens add_id d router n cfgs = Raised LibraryError"
  using assms
proof (induction cfgs arbitrary: n)
  case (Cons c cfgs)
  then show ?case by (cases c) (auto simp: slave_ok_def ModbusRtuSlave_def)
qed simp

subsection \<open>Properties\<close>

text \<open>
  C38: the loop that enters one range of unit ids in the table always ends, at the width of a
  unit id and with its wrap-around; it ends in undefined behaviour exactly if the range goes up
  to the largest value of the type, which the table has no entry for, and otherwise enters
  exactly the ids of the range.
\<close>

theorem set_range_ends:
  assumes "length (routeMap r) = UnitId_max TYPE('u::len)" and "u \<le> (e :: 'u word)"
  shows "if e = - 1 then set_range u e i r = Some Undefined
    else \<exists>r'. set_range u e i r = Some (Done r') \<and>
      Router_Route r' k = (if u \<le> k \<and> k \<le> e then Some i else Router_Route r k)"
  using set_range_overrun [OF assms(1), of u i] set_range_defined [of e r u i] assms(1) by auto

theorem set_range_ends_witness:
  "set_range (250 :: 8 word) 255 9 (Router TYPE(8) 7) = Some Undefined \<and>
   (\<exists>r'. set_range (250 :: 8 word) 254 9 (Router TYPE(8) 7) = Some (Done r') \<and>
      Router_Route r' (252 :: 8 word) = Some 9 \<and> Router_Route r' (249 :: 8 word) = Some 7)"
proof -
  have max: "(255 :: 8 word) = - 1" by simp
  have def: "Router_Route (Router TYPE(8) 7) (249 :: 8 word) = Some 7"
    by (subst Router_Route_default) simp
  have len: "length (routeMap (Router TYPE(8) 7)) = UnitId_max TYPE(8)" by (simp add: UnitId_max_def)
  from set_range_ends [OF len, of 250 255 9] set_range_ends [OF len, of 250 254 9 252]
    set_range_ends [OF len, of 250 254 9 249] def
  show ?thesis by (auto simp: word_le_nat_alt)
qed

text \<open>
  C12: what becomes of a configuration that was read and validated, when the exchange gives no
  actor the default id. If the port of a serial master cannot be opened, the start fails with
  the library's exception. Otherwise, if a master has a range up to the largest value of a unit
  id, filling the table is undefined behaviour: it writes behind the end of the table. Otherwise,
  if a slave cannot be opened, the start fails with the library's exception. Otherwise the gateway
  starts; its table routes every unit id but the largest value as specified (the last master whose
  ranges have it, else the master without ranges, else the default id) and has no entry for the
  largest value; every serial slave uses that table, and each slave has started its first
  operation, in the order of the file. So no \<^verbatim>\<open>BUG!\<close> branch is ever taken.
\<close>

theorem Gateway_routes:
  assumes "Config L parsed = Inr cfg" and "Config_Validate cfg = Inr ()" and "\<forall>n. add_id n \<noteq> d"
  shows "let start = Gateway_start opens add_id d cfg :: ('a, 'u::len word, 'b, 'p, 't::len word) gateway startup in
    if \<not> list_all (port_opens opens) (masters cfg) then start = Raised LibraryError
    else if list_ex overruns (masters cfg) then start = Broken
    else if \<not> list_all opens (slaves cfg) then start = Raised LibraryError
    else \<exists>g. start = Ok g \<and>
      (\<forall>u. Router_Route (gw_router g) u = (if u = - 1 then None else Some (route_spec add_id d (masters cfg) u))) \<and>
      map gs_config (gw_slaves g) = slaves cfg \<and> list_all (slave_routes_by (gw_router g)) (gw_slaves g) \<and>
      gw_effects g = concat (map first_op (slaves cfg))"
proof (cases "list_all (port_opens opens) (masters cfg)")
  case False
  with Config_ok [OF assms(1)] have "MakeMasters opens add_id d 0 [] (masters cfg) =
      (Raised LibraryError :: (('a, 'u word, 'b, 't word) gw_master list \<times> nat) startup)"
    by (intro MakeMasters_raised [of L]) (simp_all add: config_ok_def)
  with False show ?thesis by (simp add: Gateway_start_def)
next
  case ports: True
  let ?D = "\<lambda>m :: ('a, 'u word, 'b, 't word) gw_master. is_default (gm_config m)"
  from Config_ok [OF assms(1)] have ok: "masters cfg \<noteq> []" "list_all (master_ok L) (masters cfg)"
    "slaves cfg \<noteq> []" "list_all slave_ok (slaves cfg)" by (simp_all add: config_ok_def)
  from MakeMasters_validated [OF ok(1,2) assms(2) ports]
  obtain all :: "('a, 'u word, 'b, 't word) gw_master list" where
    ms: "MakeMasters opens add_id d 0 [] (masters cfg) =
      Ok (filter ?D all @ filter (\<lambda>m. \<not> ?D m) all, length (masters cfg))"
    and all: "map (\<lambda>m. (gm_config m, master_GetId (gm_actor m))) all =
      zip (masters cfg) (map add_id [0 ..< length (masters cfg)])"
    and confs: "map gm_config all = masters cfg" and one: "length (filter ?D all) \<le> 1" by blast
  let ?ms = "filter ?D all @ filter (\<lambda>m. \<not> ?D m) all"
  have set: "set ?ms = set all" by auto
  from confs ok(1) have "all \<noteq> []" by auto
  with set have ne: "?ms \<noteq> []" by (metis set_empty)
  have configs: "all_masters ?ms"
    using ok(2) master_ok_config [of L] unfolding confs [symmetric] list_all_iff set by auto
  have overrun: "list_ex (\<lambda>m. overruns (gm_config m)) ?ms \<longleftrightarrow> list_ex overruns (masters cfg)"
    unfolding confs [symmetric] list_ex_iff set by auto
  show ?thesis
  proof (cases "list_ex overruns (masters cfg)")
    case True
    with overrun have "MakeRouter d ?ms = Broken" by (intro MakeRouter_broken [OF configs]) simp
    with True ports ms ne show ?thesis by (simp add: Gateway_start_def)
  next
    case fits: False
    with configs overrun have "masters_ok ?ms" by (simp add: masters_ok_iff)
    from MakeRouter_defined [OF this ne, of d] obtain r where
      r: "MakeRouter d ?ms = Ok (Some r)" and len: "table_of TYPE('u) r" and
      route: "\<forall>k. k \<noteq> - 1 \<longrightarrow> Router_Route r k = Some (case served ?ms k of Some i \<Rightarrow> i
        | None \<Rightarrow> if ?D (hd ?ms) then master_GetId (gm_actor (hd ?ms)) else d)" by blast
    show ?thesis
    proof (cases "list_all opens (slaves cfg)")
      case False
      then have "MakeSlaves opens add_id d r (length (masters cfg)) (slaves cfg) =
          (Raised LibraryError :: ('a, 'u word, 'p, 't word) gw_slave list startup)"
        by (rule MakeSlaves_raised [OF ok(4)])
      with False ports fits ms r ne show ?thesis by (simp add: Gateway_start_def)
    next
      case True
      have spec: "Router_Route r k = (if k = - 1 then None else Some (route_spec add_id d (masters cfg) k))" for k
        using Router_Route_None_iff [OF len, of k] route_spec_list [OF all one refl ne, of d k] route by auto
      obtain ss ss' :: "('a, 'u word, 'p, 't word) gw_slave list" where
        "MakeSlaves opens add_id d r (length (masters cfg)) (slaves cfg) = Ok ss"
        "StartSlaves d ss = Ok (ss', concat (map first_op (slaves cfg)) :: ('b, 't word) effect list)"
        "map gs_config ss = slaves cfg" "map gs_config ss' = slaves cfg" "list_all (slave_routes_by r) ss'"
        using MakeSlaves_defined [OF ok(4) True assms(3), where router = r and n = "length (masters cfg)"] by blast
      moreover have "ss \<noteq> []" using calculation(3) ok(3) by auto
      ultimately show ?thesis using ms r ne spec ports fits True by (auto simp: Gateway_start_def)
    qed
  qed
qed

theorem Gateway_routes_witness:
  "\<exists>(cfg :: (nat, 8 word) config) (g :: (nat, 8 word, frame, unit, 16 word) gateway).
     Config sample_config_lib (Some (sample_document (JArr [sample_range 9]))) = Inr cfg \<and>
     Gateway_start (\<lambda>c. True) Suc 0 cfg = Ok g \<and>
     Router_Route (gw_router g) (5 :: 8 word) = Some 1 \<and> Router_Route (gw_router g) (10 :: 8 word) = Some 0 \<and>
     Router_Route (gw_router g) (255 :: 8 word) = None"
proof -
  let ?m = "TcpClientConfig \<lparr>mc_timeout = - 1, unitIdSet = [\<lparr>range_begin = 1, range_end = 9 :: 8 word\<rparr>]\<rparr> (1 :: nat) 502"
  let ?cfg = "\<lparr>configService = ConfigService_default, slaves = [TcpServerConfig 0 503], masters = [?m]\<rparr>"
  have "Config_Validate ?cfg = Inr ()" by (simp add: Config_Validate_def)
  moreover have "\<not> overruns ?m" by (simp add: overruns_def as_MasterConfig_def)
  ultimately have "\<exists>g :: (nat, 8 word, frame, unit, 16 word) gateway. Gateway_start (\<lambda>c. True) Suc 0 ?cfg = Ok g \<and>
      (\<forall>u. Router_Route (gw_router g) u = (if u = - 1 then None else Some (route_spec Suc 0 [?m] u)))"
    using Gateway_routes [where opens = "\<lambda>c. True" and add_id = Suc and d = 0, OF sample_good,
        where ?'b = frame and ?'p = unit and ?'t = 16]
    by (auto simp: port_opens_def Let_def simp del: One_nat_def)
  then obtain g :: "(nat, 8 word, frame, unit, 16 word) gateway" where
    g: "Gateway_start (\<lambda>c. True) Suc 0 ?cfg = Ok g"
    "\<forall>u. Router_Route (gw_router g) u = (if u = - 1 then None else Some (route_spec Suc 0 [?m] u))" by blast
  have "route_spec Suc 0 [?m] 5 = 1" and "route_spec Suc 0 [?m] 10 = 0"
    by (simp_all add: route_spec_def serves_def as_MasterConfig_def is_default_def in_range_def
        word_le_nat_alt)
  with g sample_good show ?thesis by (intro exI [of _ ?cfg] exI [of _ g]) simp
qed

text \<open>
  What \<^verbatim>\<open>main\<close> gets from the command line and the file: the request for help, a
  validated configuration, or the exception that is raised instead.
\<close>

definition asks_help :: "option_parser \<Rightarrow> string list \<Rightarrow> bool" where
  "asks_help parse argv \<longleftrightarrow> (\<exists>c. CommandLine parse argv = Some c \<and> CommandLine_IsHelp c)"

inductive gets_path :: "option_parser \<Rightarrow> string list \<Rightarrow> string option \<Rightarrow> bool" for parse argv where
  "CommandLine parse argv = Some c \<Longrightarrow> \<not> CommandLine_IsHelp c \<Longrightarrow> gets_path parse argv (cl_config c)"

inductive gets_config :: "('j, 'a, 'u::len word) config_lib \<Rightarrow> (string \<Rightarrow> 'j option) \<Rightarrow> option_parser \<Rightarrow>
    string list \<Rightarrow> ('a, 'u word) config \<Rightarrow> bool" for L read_json parse argv where
  "gets_path parse argv (Some path) \<Longrightarrow> Config L (read_json path) = Inr cfg \<Longrightarrow> Config_Validate cfg = Inr () \<Longrightarrow>
    gets_config L read_json parse argv cfg"

inductive gets_no_config :: "('j, 'a, 'u::len word) config_lib \<Rightarrow> (string \<Rightarrow> 'j option) \<Rightarrow> option_parser \<Rightarrow>
    string list \<Rightarrow> gateway_exception \<Rightarrow> bool" for L read_json parse argv where
  bad_options: "CommandLine parse argv = None \<Longrightarrow> gets_no_config L read_json parse argv LibraryError"
| no_path: "gets_path parse argv None \<Longrightarrow>
    gets_no_config L read_json parse argv (CommandLineException ''config arg not set'')"
| unreadable: "gets_path parse argv (Some path) \<Longrightarrow> Config L (read_json path) = Inl e \<Longrightarrow>
    gets_no_config L read_json parse argv e"
| invalid: "gets_path parse argv (Some path) \<Longrightarrow> Config L (read_json path) = Inr cfg \<Longrightarrow>
    Config_Validate cfg = Inl e \<Longrightarrow> gets_no_config L read_json parse argv e"

lemmas gets_simps = asks_help_def gets_path.simps gets_config.simps gets_no_config.simps

text \<open>What \<^verbatim>\<open>main\<close> makes of the start and the loop.\<close>

fun exit_of :: "unit startup \<Rightarrow> (int \<times> report option) startup" where
  "exit_of (Ok u) = Ok (0, None)"
| "exit_of (Raised e) = Ok (1, Some (report_of e))"
| "exit_of Broken = Broken"
| "exit_of Hangs = Hangs"

lemma exit_of_bind:
  "(let body = st_bind (st_bind x (\<lambda>g. st_bind (f g) (\<lambda>_. Ok 0))) (\<lambda>rc. Ok (rc, None))
    in case body of Raised e \<Rightarrow> Ok (1, Some (report_of e)) | _ \<Rightarrow> body) = exit_of (st_bind x f)"
proof (cases x)
  case (Ok g)
  then show ?thesis by (cases "f g") simp_all
qed simp_all

lemma main_gets:
  "CommandLine parse argv = Some c \<Longrightarrow> \<not> CommandLine_IsHelp c \<Longrightarrow> cl_config c = Some path \<Longrightarrow>
    Config L (read_json path) = Inr cfg \<Longrightarrow> Config_Validate cfg = Inr u \<Longrightarrow>
    main L opens add_id d run_loop read_json parse argv = exit_of (st_bind (Gateway_start opens add_id d cfg) run_loop)"
  using exit_of_bind [of "Gateway_start opens add_id d cfg" run_loop]
  by (simp add: main_def CommandLine_GetConfigPath_def ModbusGateway_def)

lemma gets_cases:
  fixes L :: "('j, 'a, 'u::len word) config_lib" and opens :: "('a, 'u word) transport_config \<Rightarrow> bool"
    and run_loop :: "('a, 'u word, 'b, 'p, 't::len word) gateway \<Rightarrow> unit startup"
  obtains (asked) "asks_help parse argv" "\<And>cfg. \<not> gets_config L read_json parse argv cfg"
      "\<And>e. \<not> gets_no_config L read_json parse argv e"
      "main L opens add_id d run_loop read_json parse argv = Ok (0, Some Help)"
  | (config) cfg where "\<not> asks_help parse argv" "\<And>c. gets_config L read_json parse argv c \<longleftrightarrow> c = cfg"
      "\<And>e. \<not> gets_no_config L read_json parse argv e"
      "main L opens add_id d run_loop read_json parse argv = exit_of (st_bind (Gateway_start opens add_id d cfg) run_loop)"
  | (none) e where "\<not> asks_help parse argv" "\<And>cfg. \<not> gets_config L read_json parse argv cfg"
      "\<And>x. gets_no_config L read_json parse argv x \<longleftrightarrow> x = e"
      "main L opens add_id d run_loop read_json parse argv = Ok (1, Some (report_of e))"
proof (cases "CommandLine parse argv")
  case None
  then show thesis by (intro none [of LibraryError]) (auto simp: gets_simps main_def)
next
  case (Some c)
  show thesis
  proof (cases "CommandLine_IsHelp c")
    case True
    with Some show thesis by (intro asked) (auto simp: gets_simps main_def)
  next
    case no_help: False
    show thesis
    proof (cases "cl_config c")
      case None
      with Some no_help show thesis
        by (intro none [of "CommandLineException ''config arg not set''"])
          (auto simp: gets_simps main_def CommandLine_GetConfigPath_def)
    next
      case path: (Some path)
      show thesis
      proof (cases "Config L (read_json path)")
        case (Inl e)
        with Some no_help path show thesis
          by (intro none [of e]) (auto simp: gets_simps main_def CommandLine_GetConfigPath_def)
      next
        case (Inr cfg)
        show thesis
        proof (cases "Config_Validate cfg")
          case (Inl e)
          with \<open>Config L (read_json path) = Inr cfg\<close> Some no_help path show thesis
            by (intro none [of e]) (auto simp: gets_simps main_def CommandLine_GetConfigPath_def)
        next
          case valid: (Inr u)
          from main_gets [where L = L and read_json = read_json and cfg = cfg, OF Some no_help path Inr valid, of opens add_id d run_loop]
            Inr Some no_help path valid
          show thesis by (intro config [of cfg]) (auto simp: gets_simps)
        qed
      qed
    qed
  qed
qed

text \<open>The start raises no exception of the parser, and those of the configuration have a path from its root.\<close>

lemma parser_base_none: "parser_base LibraryError = None" "parser_base (LogicError t) = None"
  by (simp_all add: parser_base_def)

lemma st_bind_Raised: "st_bind x f = Raised e \<longleftrightarrow> x = Raised e \<or> (\<exists>z. x = Ok z \<and> f z = Raised e)"
  by (cases x) auto

lemma of_outcome_Raised: "of_outcome x = Raised e \<longleftrightarrow> x = Throws \<and> e = LibraryError"
  by (cases x) auto

lemma MakeMasters_raises: "MakeMasters opens add_id d n ms cfgs = Raised e \<Longrightarrow> parser_base e = None"
proof (induction cfgs arbitrary: n ms)
  case (Cons c cfgs)
  then show ?case
    by (cases c) (auto simp: Let_def parser_base_none st_bind_Raised of_outcome_Raised split: if_splits)
qed simp

lemma set_ranges_raises: "set_ranges rs i r = Raised e \<Longrightarrow> parser_base e = None"
  by (induction rs arbitrary: r)
    (auto simp: run_set_range_def st_bind_Raised of_outcome_Raised parser_base_none split: option.splits)

lemma set_masters_raises: "set_masters ms r = Raised e \<Longrightarrow> parser_base e = None"
  by (induction ms arbitrary: r)
    (auto simp: st_bind_Raised parser_base_none dest: set_ranges_raises split: option.splits)

lemma MakeRouter_raises: "MakeRouter d ms = Raised e \<Longrightarrow> parser_base e = None"
  by (cases ms) (auto simp: MakeRouter_def st_bind_Raised parser_base_none dest: set_ranges_raises set_masters_raises
      split: option.splits if_splits)

lemma MakeSlaves_raises: "MakeSlaves opens add_id d router n cfgs = Raised e \<Longrightarrow> parser_base e = None"
proof (induction cfgs arbitrary: n)
  case (Cons c cfgs)
  then show ?case
    by (cases c) (auto simp: parser_base_none st_bind_Raised of_outcome_Raised split: if_splits)
qed simp

lemma StartSlaves_raises: "StartSlaves d ss = Raised e \<Longrightarrow> parser_base e = None"
  by (induction ss arbitrary: e)
    (auto simp: st_bind_Raised of_outcome_Raised Slave_Start_def parser_base_none split: slave_actor.splits prod.splits)

lemma Gateway_start_raises: "Gateway_start opens add_id d cfg = Raised e \<Longrightarrow> parser_base e = None"
  by (auto simp: Gateway_start_def st_bind_Raised split: if_splits option.splits
      simp: parser_base_none dest: MakeMasters_raises MakeRouter_raises MakeSlaves_raises StartSlaves_raises)

lemma gets_no_config_path:
  assumes "gets_no_config L read_json parse argv e" and "parser_base e = Some b"
  shows "\<exists>ks. GetFullPath b = TracePath_GetPath (''config'' # ks @ [GetTargetKey b])"
  using assms(1)
proof cases
  case (invalid path cfg)
  then have "b = \<lparr>ex_path = ''config.masters'', ex_key = ''masters''\<rparr>"
    using assms(2) by (auto simp: Config_Validate_def Let_def with_trace_def throw_InvalidValue_def praise_def
        parser_base_def ParserException_def TracePath_Push_def TracePath_GetPath_def keys_masters_def split: if_splits)
  then show ?thesis by (intro exI [of _ "[]"]) (simp add: GetFullPath_def GetTargetKey_def TracePath_GetPath_def)
qed (use assms(2) Config_error_path in \<open>auto simp: parser_base_def\<close>)

text \<open>
  C40: which exit code and which report \<^verbatim>\<open>main\<close> gives, for every command line, file and
  library: 0 and the help when help was asked for; 0 and nothing exactly when the configuration
  was read and validated, the gateway started and the loop returned; and 1 with the report of
  the exception exactly when one was raised in the command line, in reading or validating
  the configuration (then nothing was started: the transports, the exchange and the loop have
  no part in it), in the start or in the loop. No exception leaves it, and while the loop raises no
  exception of the parser, a report with a path names a path from the root of the
  configuration to the key it reports.
\<close>

theorem main_reports:
  fixes L :: "('j, 'a, 'u::len word) config_lib" and opens :: "('a, 'u word) transport_config \<Rightarrow> bool"
    and run_loop :: "('a, 'u word, 'b, 'p, 't::len word) gateway \<Rightarrow> unit startup"
  shows "(main L opens add_id d run_loop read_json parse argv = Ok (rc, rep) \<longleftrightarrow>
      rc = 0 \<and> rep = Some Help \<and> asks_help parse argv \<or>
      rc = 0 \<and> rep = None \<and> (\<exists>cfg. gets_config L read_json parse argv cfg \<and>
        st_bind (Gateway_start opens add_id d cfg) run_loop = Ok ()) \<or>
      rc = 1 \<and> (\<exists>e. rep = Some (report_of e) \<and> (gets_no_config L read_json parse argv e \<or>
        (\<exists>cfg. gets_config L read_json parse argv cfg \<and> st_bind (Gateway_start opens add_id d cfg) run_loop = Raised e)))) \<and>
    main L opens add_id d run_loop read_json parse argv \<noteq> Raised e \<and>
    ((\<forall>g e. run_loop g = Raised e \<longrightarrow> parser_base e = None) \<longrightarrow>
      main L opens add_id d run_loop read_json parse argv = Ok (code, Some (ParserReport w key path)) \<longrightarrow>
      (\<exists>ks. path = TracePath_GetPath (''config'' # ks @ [key])))"
proof (cases rule: gets_cases [of parse argv L read_json opens add_id d run_loop])
  case asked
  then show ?thesis by auto
next
  case (config cfg)
  show ?thesis
  proof (cases "Gateway_start opens add_id d cfg :: ('a, 'u word, 'b, 'p, 't word) gateway startup")
    case (Ok g)
    with config show ?thesis by (cases "run_loop g") (auto simp: report_of_def split: option.splits)
  next
    case (Raised x)
    from Gateway_start_raises [OF Raised] config Raised show ?thesis by (auto simp: report_of_def)
  qed (use config in simp_all)
next
  case (none x)
  have "\<exists>ks. path = TracePath_GetPath (''config'' # ks @ [key])" if "report_of x = ParserReport w key path"
    using that gets_no_config_path [of L read_json parse argv x] none(3)
    by (auto simp: report_of_def split: option.splits)
  with none show ?thesis by auto
qed

theorem main_reports_witness:
  "\<exists>path ks. main sample_config_lib (\<lambda>c. True) Suc 0
     (\<lambda>g :: (nat, 8 word, frame, unit, 16 word) gateway. Ok ())
     (\<lambda>path. Some (sample_document (JArr [sample_range 300])))
     (\<lambda>options argv. Some \<lparr>cl_help = 0, cl_config = Some (argv ! 2)\<rparr>) [''modbus_gateway'', ''-c'', ''gw.json''] =
   Ok (1, Some (ParserReport (Some ''invalid value'') ''begin'' path)) \<and> path = ''config.masters.0.unit_id.0.begin'' \<and>
   path = TracePath_GetPath (''config'' # ks @ [''begin''])"
proof -
  let ?run = "main sample_config_lib (\<lambda>c. True) Suc 0 (\<lambda>g :: (nat, 8 word, frame, unit, 16 word) gateway. Ok ())
     (\<lambda>path. Some (sample_document (JArr [sample_range 300])))
     (\<lambda>options argv. Some \<lparr>cl_help = 0, cl_config = Some (argv ! 2)\<rparr>) [''modbus_gateway'', ''-c'', ''gw.json'']"
  have run: "?run = Ok (1, Some (ParserReport (Some ''invalid value'') ''begin'' ''config.masters.0.unit_id.0.begin''))"
    using sample_bad
    by (simp add: main_def CommandLine_def CommandLine_IsHelp_def CommandLine_GetConfigPath_def report_of_def
        parser_base_def what_def GetTargetKey_def GetFullPath_def)
  from main_reports [THEN conjunct2, THEN conjunct2, rule_format, OF _ run]
  obtain ks where "''config.masters.0.unit_id.0.begin'' = TracePath_GetPath (''config'' # ks @ [''begin''])" by auto
  with run show ?thesis by blast
qed

end
