(* ===== verification/System.thy ===== *)
theory System
  imports Gateway
begin

text \<open>
  Properties that span the components: the path of one request through the gateway, from the
  frame a TCP client of the gateway sends to the frame it gets back, through the connection
  actor, the routing table and a master actor of either kind. Between the steps any time may
  pass; the messages are handed over unchanged by the exchange.
\<close>

subsection \<open>A request is accepted, routed and answered\<close>

text \<open>The message a connection makes of a frame it accepts.\<close>

definition request_of :: "('b, 'u, 't) modbus_lib \<Rightarrow> chrono_rep \<Rightarrow> 'b \<Rightarrow> 't tcp_connection \<Rightarrow>
    ('b, 't) modbus_message" where
  "request_of L now rq c = ModbusMessage (ModbusMessageInfo now (conn_id c) (tcp_get_tid L rq)) (Some rq)"

lemma connection_forwards:
  assumes "mb_set_adu_size L sz buffer = Some rq" and "tcp_check L rq"
    and "Router_Route (conn_router c) (mb_unit_id L rq) = Some a"
  shows "TcpConnection_on_receive L True now success buffer sz c =
    Done (c\<lparr>conn_requestInfo := Some (ModbusMessageInfo now (conn_id c) (tcp_get_tid L rq))\<rparr>,
      [Exchange_send a (ModbusMsg (request_of L now rq c)), Async_receive TCP])"
  using assms by (simp add: handler_defs step_simps request_of_def Let_def)

lemma connection_answers:
  assumes "sourceId i = conn_id c"
  shows "TcpConnection_Receive L (ModbusMsg (ModbusMessage i (Some rp))) (c\<lparr>conn_requestInfo := Some i\<rparr>) =
    (c\<lparr>conn_requestInfo := None\<rparr>,
     [Async_send (tcp_set_tid L (transactionId i) (tcp_update L (mb_convert_to L TCP rp)))])"
  using assms by (simp add: handler_defs step_simps Let_def)

lemma rtu_accepts:
  assumes "rm_currentMessage s = None" and "lq_items (rm_messageQueue s) = []"
    and "\<not> message_expired now (rm_timeout s) m" and "modbusBuffer m = Some b"
  shows "RtuMaster_Receive L now (ModbusMsg m) s =
    Done (rm_take L m b [] (s\<lparr>rm_messageQueue := LimitQueue_Push m (rm_messageQueue s)\<rparr>),
      [Async_send (rm_frame L s b)])"
  using assms
  by (simp add: RtuMaster_Receive_def RtuMaster_MessageProcess_def RtuMaster_QueueProcess_eq rm_frame_def)

lemma client_accepts:
  assumes "tc_state s = Connected" and "tc_currentMessage s = None" and "lq_items (tc_messageQueue s) = []"
    and "\<not> message_expired now (tc_timeout s) m" and "modbusBuffer m = Some b"
  shows "TcpClient_Receive L now (ModbusMsg m) s =
    Done (tc_take L m b [] (s\<lparr>tc_messageQueue := LimitQueue_Push m (tc_messageQueue s)\<rparr>),
      [Async_send (tc_frame L s b)])"
  using assms
  by (simp add: TcpClient_Receive_def TcpClient_MessageProcess_def TcpClient_QueueProcess_eq tc_frame_def
      sample_queue_simps)

lemma rtu_answers:
  assumes "rm_currentMessage s = Some c" and "lq_items (rm_messageQueue s) = []"
    and "mb_set_adu_size L sz buffer = Some rp" and "mb_check L rp"
  shows "RtuMaster_on_read L True now success buffer sz s =
    Done (s\<lparr>rm_currentMessage := None, rm_messageQueue := (rm_messageQueue s)\<lparr>lq_items := []\<rparr>\<rparr>,
      [Timer_cancel, Exchange_send (sourceId (modbusMessageInfo (cur_message c)))
        (ModbusMsg (ModbusMessage (modbusMessageInfo (cur_message c)) (Some rp)))])"
  using assms by (simp add: RtuMaster_on_read_def RtuMaster_MakeResponse_def RtuMaster_QueueProcess_eq step_simps)

lemma client_answers:
  assumes "tc_currentMessage s = Some c" and "lq_items (tc_messageQueue s) = []"
    and "mb_set_adu_size L sz buffer = Some rp" and "tcp_check L rp" and "tcp_get_tid L rp = cur_id c"
  shows "TcpClient_on_receive L True now success is_open buffer sz s =
    Done (s\<lparr>tc_currentMessage := None, tc_state := Connected\<rparr>,
      [Timer_cancel, Exchange_send (sourceId (modbusMessageInfo (cur_message c)))
        (ModbusMsg (ModbusMessage (modbusMessageInfo (cur_message c)) (Some rp)))])"
  using assms by (simp add: TcpClient_on_receive_def TcpClient_MakeResponse_def TcpClient_QueueProcess_eq step_simps)

subsection \<open>Properties\<close>

text \<open>
  a request that reaches an idle serial master in time is written to the line as a frame of
  the line's type for the same unit; when an answer comes that passes the size and frame checks,
  the client that sent the request, and no other, gets a Modbus TCP frame with the transaction
  id of its request and the unit id of the answer, and connection and master are idle again.
\<close>

lemma roundtrip_tcp_to_serial:
  assumes "tid_readback L" and "convert_types L" and "unit_id_kept L"
    and "mb_set_adu_size L sz buffer = Some rq" and "tcp_check L rq"
    and "Router_Route (conn_router c) (mb_unit_id L rq) = Some a"
    and "rm_currentMessage s = None" and "lq_items (rm_messageQueue s) = []"
    and "\<not> message_expired now' (rm_timeout s) (request_of L now rq c)"
    and "mb_set_adu_size L rsz rbuffer = Some rp" and "mb_check L rp"
  shows "\<exists>s2 out reply wire s1 c1 m.
    TcpConnection_on_receive L True now success buffer sz c =
      Done (c1, [Exchange_send a (ModbusMsg m), Async_receive TCP]) \<and>
    RtuMaster_Receive L now' (ModbusMsg m) s = Done (s1, [Async_send wire]) \<and>
    mb_type L wire = rm_frameType s \<and> mb_unit_id L wire = mb_unit_id L rq \<and>
    RtuMaster_on_write success s1 = (s1, [Async_wait (rm_timeout s), Async_receive (rm_frameType s)]) \<and>
    RtuMaster_on_read L True now'' success rbuffer rsz s1 =
      Done (s2, [Timer_cancel, Exchange_send (conn_id c) (ModbusMsg reply)]) \<and>
    TcpConnection_Receive L (ModbusMsg reply) c1 = (c1\<lparr>conn_requestInfo := None\<rparr>, [Async_send out]) \<and>
    mb_type L out = TCP \<and> tcp_get_tid L out = tcp_get_tid L rq \<and> mb_unit_id L out = mb_unit_id L rp \<and>
    rm_currentMessage s2 = None"
proof -
  let ?i = "ModbusMessageInfo now (conn_id c) (tcp_get_tid L rq)"
  let ?m = "request_of L now rq c" and ?c1 = "c\<lparr>conn_requestInfo := Some ?i\<rparr>"
  let ?s1 = "rm_take L ?m rq [] (s\<lparr>rm_messageQueue := LimitQueue_Push ?m (rm_messageQueue s)\<rparr>)"
  let ?wire = "rm_frame L s rq"
  let ?out = "tcp_set_tid L (tcp_get_tid L rq) (tcp_update L (mb_convert_to L TCP rp))"
  have "modbusBuffer ?m = Some rq" and info: "modbusMessageInfo ?m = ?i"
    by (simp_all add: request_of_def step_simps)
  note forward = connection_forwards [OF assms(4-6)]
  note accept = rtu_accepts [OF assms(7-9) \<open>modbusBuffer ?m = Some rq\<close>]
  note answer = rtu_answers [of ?s1, OF _ _ assms(10,11)]
  have returned: "TcpConnection_Receive L (ModbusMsg (ModbusMessage ?i (Some rp))) ?c1 =
      (?c1\<lparr>conn_requestInfo := None\<rparr>, [Async_send ?out])"
    by (simp add: connection_answers ModbusMessageInfo_def)
  have "mb_type L ?wire = rm_frameType s" "mb_unit_id L ?wire = mb_unit_id L rq" "mb_type L ?out = TCP"
    "tcp_get_tid L ?out = tcp_get_tid L rq" "mb_unit_id L ?out = mb_unit_id L rp"
    using assms(1-3) by (simp_all add: rm_frame_def convert_types_def unit_id_kept_def tid_readback_def)
  moreover have "RtuMaster_on_write success ?s1 =
      (?s1, [Async_wait (rm_timeout s), Async_receive (rm_frameType s)])"
    by (simp add: RtuMaster_small_defs)
  moreover have "sourceId ?i = conn_id c" by (simp add: ModbusMessageInfo_def)
  ultimately show ?thesis using forward accept answer returned info
    by (intro exI [of _ ?m] exI [of _ ?c1] exI [of _ ?s1] exI [of _ ?wire]
        exI [of _ "ModbusMessage ?i (Some rp)"] exI [of _ ?out]
        exI [of _ "?s1\<lparr>rm_currentMessage := None, rm_messageQueue := (rm_messageQueue ?s1)\<lparr>lq_items := []\<rparr>\<rparr>"])
      (simp add: rm_take_def)
qed

text \<open>
  the same for a request routed to a connected TCP client: it is sent with the client's own
  next transaction id, and the answer that carries this id goes back with the transaction id of
  the original request.
\<close>

lemma roundtrip_tcp_to_tcp:
  assumes "tid_readback L" and "convert_types L" and "unit_id_kept L"
    and "mb_set_adu_size L sz buffer = Some rq" and "tcp_check L rq"
    and "Router_Route (conn_router c) (mb_unit_id L rq) = Some a"
    and "tc_state s = Connected" and "tc_currentMessage s = None" and "lq_items (tc_messageQueue s) = []"
    and "\<not> message_expired now' (tc_timeout s) (request_of L now rq c)"
    and "mb_set_adu_size L rsz rbuffer = Some rp" and "tcp_check L rp"
    and "tcp_get_tid L rp = tc_transactionIdGenerator s + 1"
  shows "\<exists>s2 out reply wire s1 c1 m.
    TcpConnection_on_receive L True now success buffer sz c =
      Done (c1, [Exchange_send a (ModbusMsg m), Async_receive TCP]) \<and>
    TcpClient_Receive L now' (ModbusMsg m) s = Done (s1, [Async_send wire]) \<and>
    mb_type L wire = TCP \<and> mb_unit_id L wire = mb_unit_id L rq \<and>
    tcp_get_tid L wire = tc_transactionIdGenerator s + 1 \<and>
    TcpClient_on_send success is_open s1 = (s1, [Async_wait (tc_timeout s), Async_receive TCP]) \<and>
    TcpClient_on_receive L True now'' success is_open rbuffer rsz s1 =
      Done (s2, [Timer_cancel, Exchange_send (conn_id c) (ModbusMsg reply)]) \<and>
    TcpConnection_Receive L (ModbusMsg reply) c1 = (c1\<lparr>conn_requestInfo := None\<rparr>, [Async_send out]) \<and>
    mb_type L out = TCP \<and> tcp_get_tid L out = tcp_get_tid L rq \<and> mb_unit_id L out = mb_unit_id L rp \<and>
    tc_currentMessage s2 = None \<and> tc_state s2 = Connected"
proof -
  let ?i = "ModbusMessageInfo now (conn_id c) (tcp_get_tid L rq)"
  let ?m = "request_of L now rq c" and ?c1 = "c\<lparr>conn_requestInfo := Some ?i\<rparr>"
  let ?s1 = "tc_take L ?m rq [] (s\<lparr>tc_messageQueue := LimitQueue_Push ?m (tc_messageQueue s)\<rparr>)"
  let ?wire = "tc_frame L s rq"
  let ?out = "tcp_set_tid L (tcp_get_tid L rq) (tcp_update L (mb_convert_to L TCP rp))"
  have "modbusBuffer ?m = Some rq" and info: "modbusMessageInfo ?m = ?i"
    by (simp_all add: request_of_def step_simps)
  note forward = connection_forwards [OF assms(4-6)]
  note accept = client_accepts [OF assms(7-10) \<open>modbusBuffer ?m = Some rq\<close>]
  let ?s2 = "?s1\<lparr>tc_currentMessage := None, tc_state := Connected\<rparr>"
  have answer: "TcpClient_on_receive L True now'' success is_open rbuffer rsz ?s1 = Done (?s2,
      [Timer_cancel, Exchange_send (conn_id c) (ModbusMsg (ModbusMessage ?i (Some rp)))])"
  proof -
    obtain cc where "tc_currentMessage ?s1 = Some cc" "modbusMessageInfo (cur_message cc) = ?i"
      "cur_id cc = tc_transactionIdGenerator s + 1"
      using info by (simp add: tc_take_def)
    moreover have "lq_items (tc_messageQueue ?s1) = []" by (simp add: tc_take_def)
    ultimately show ?thesis using client_answers [OF _ _ assms(11,12), of ?s1] assms(13)
      by (simp add: ModbusMessageInfo_def)
  qed
  have returned: "TcpConnection_Receive L (ModbusMsg (ModbusMessage ?i (Some rp))) ?c1 =
      (?c1\<lparr>conn_requestInfo := None\<rparr>, [Async_send ?out])"
    by (simp add: connection_answers ModbusMessageInfo_def)
  have "mb_type L ?wire = TCP" "mb_unit_id L ?wire = mb_unit_id L rq"
    "tcp_get_tid L ?wire = tc_transactionIdGenerator s + 1" "mb_type L ?out = TCP"
    "tcp_get_tid L ?out = tcp_get_tid L rq" "mb_unit_id L ?out = mb_unit_id L rp"
    using assms(1-3) by (simp_all add: tc_frame_def convert_types_def unit_id_kept_def tid_readback_def)
  moreover have "TcpClient_on_send success is_open ?s1 =
      (?s1, [Async_wait (tc_timeout s), Async_receive TCP])"
    by (simp add: TcpClient_small_defs tc_take_def)
  ultimately show ?thesis using forward accept answer returned
    by (intro exI [of _ ?m] exI [of _ ?c1] exI [of _ ?s1] exI [of _ ?wire]
        exI [of _ "ModbusMessage ?i (Some rp)"] exI [of _ ?out]
        exI [of _ ?s2]) simp
qed

subsection \<open>Concrete round trips\<close>

definition sample_connection :: "16 word tcp_connection" where
  "sample_connection = \<lparr>conn_id = 3, conn_serverId = 2, conn_router = Router TYPE(8) 7, conn_requestInfo = None\<rparr>"

lemma sample_connection_simps [simp]:
  "conn_id sample_connection = 3"
  "Router_Route (conn_router sample_connection) (1 :: 8 word) = Some 7"
  by (simp_all add: sample_connection_def Router_Route_default)

lemma request_of_fresh: "\<not> message_expired 0 1000 (request_of L 0 rq c)"
  by (simp add: request_of_def step_simps message_expired_def TimeoutReached_def
      milliseconds_to_nanoseconds_def ModbusMessageInfo_def)

theorem roundtrip_tcp_to_serial_witness:
  "\<exists>c1 m out. TcpConnection_on_receive sample_lib True 0 None (sample_frame TCP 1 5) 9 sample_connection =
      Done (c1, [Exchange_send 7 (ModbusMsg m), Async_receive TCP]) \<and>
    fr_type out = TCP \<and> fr_tid out = 5 \<and>
    (\<exists>reply. TcpConnection_Receive sample_lib (ModbusMsg reply) c1 =
      (c1\<lparr>conn_requestInfo := None\<rparr>, [Async_send out]))"
proof -
  let ?rq = "(sample_frame TCP 1 5)\<lparr>fr_size := 9\<rparr>" and ?rp = "(sample_frame RTU 1 0)\<lparr>fr_size := 9\<rparr>"
  have fresh: "\<not> message_expired 0 (rm_timeout sample_master) (request_of sample_lib 0 ?rq sample_connection)"
    using request_of_fresh by (simp add: sample_master_def)
  have idle: "rm_currentMessage sample_master = None" "lq_items (rm_messageQueue sample_master) = []"
    by (simp_all add: sample_master_def LimitQueue_default_def)
  from roundtrip_tcp_to_serial [OF sample_lib_lawful, of 9 "sample_frame TCP 1 5" ?rq sample_connection 7
      sample_master 0 0 9 "sample_frame RTU 1 0" ?rp 0] fresh idle
  show ?thesis by simp blast
qed

theorem roundtrip_tcp_to_tcp_witness:
  "\<exists>c1 m out. TcpConnection_on_receive sample_lib True 0 None (sample_frame TCP 1 5) 9 sample_connection =
      Done (c1, [Exchange_send 7 (ModbusMsg m), Async_receive TCP]) \<and>
    fr_type out = TCP \<and> fr_tid out = 5 \<and>
    (\<exists>reply. TcpConnection_Receive sample_lib (ModbusMsg reply) c1 =
      (c1\<lparr>conn_requestInfo := None\<rparr>, [Async_send out]))"
proof -
  let ?rq = "(sample_frame TCP 1 5)\<lparr>fr_size := 9\<rparr>" and ?rp = "(sample_frame TCP 1 1)\<lparr>fr_size := 9\<rparr>"
  let ?s = "sample_client\<lparr>tc_state := Connected\<rparr>"
  have fresh: "\<not> message_expired 0 (tc_timeout ?s) (request_of sample_lib 0 ?rq sample_connection)"
    using request_of_fresh by simp
  from roundtrip_tcp_to_tcp [OF sample_lib_lawful, of 9 "sample_frame TCP 1 5" ?rq sample_connection 7
      ?s 0 0 9 "sample_frame TCP 1 1" ?rp True 0] fresh
  show ?thesis by simp blast
qed

end
