(* ===== verification/Network.thy ===== *)
theory Network
  imports "HOL-Library.Multiset" System
begin

text \<open>
  The actors of the gateway together. The slave-side actors (connections and serial slaves) come
  and go under ids the exchange gives them; the master-side actors exist as long as the gateway.
  A message one actor sends to another is in transit until the exchange delivers it, in any
  order, or loses it (the result of \<^verbatim>\<open>exchange->Send\<close> is only logged). The handlers are
  those of the actors' own theories; only the requests and responses
  (\<^verbatim>\<open>ModbusMessage\<close>) are modelled, not the notification of the TCP server that a
  client left.
\<close>

subsection \<open>The slave side\<close>

datatype 't slave_node = Connection_node "'t tcp_connection" | Serial_slave_node "'t rtu_slave"

datatype ('b, 't) slave_event = Connection_event "('b, 't) conn_event" | Serial_slave_event "('b, 't) rtu_slave_event"

fun slave_step :: "('b, 'u::len word, 't::len word) modbus_lib \<Rightarrow> actor_id \<Rightarrow> 't word slave_node \<Rightarrow>
    ('b, 't word) slave_event \<Rightarrow> ('t word slave_node \<times> ('b, 't word) effect list) outcome" where
  "slave_step L defaultId (Connection_node c) (Connection_event e) =
     and_then (TcpConnection_step L defaultId c e) (\<lambda>(c', os). Done (Connection_node c', os))"
| "slave_step L defaultId (Serial_slave_node s) (Serial_slave_event e) =
     and_then (RtuSlave_step L defaultId s e) (\<lambda>(s', os). Done (Serial_slave_node s', os))"
| "slave_step L defaultId _ _ = Undefined"

fun slave_id :: "'t slave_node \<Rightarrow> actor_id" where
  "slave_id (Connection_node c) = conn_id c"
| "slave_id (Serial_slave_node s) = rs_id s"

fun slave_router :: "'t slave_node \<Rightarrow> router" where
  "slave_router (Connection_node c) = conn_router c"
| "slave_router (Serial_slave_node s) = rs_router s"

text \<open>An event that is not a message and does not change the actor's id.\<close>

fun slave_local :: "('b, 't) slave_event \<Rightarrow> bool" where
  "slave_local (Connection_event (Conn_message m)) = False"
| "slave_local (Connection_event (Conn_set_id i)) = False"
| "slave_local (Connection_event Conn_reset_id) = False"
| "slave_local (Serial_slave_event (Slave_message m)) = False"
| "slave_local (Serial_slave_event (Slave_set_id i)) = False"
| "slave_local (Serial_slave_event Slave_reset_id) = False"
| "slave_local _ = True"

definition slave_message :: "'t slave_node \<Rightarrow> ('b, 't) modbus_message \<Rightarrow> ('b, 't) slave_event" where
  "slave_message s m = (case s of Connection_node c \<Rightarrow> Connection_event (Conn_message (ModbusMsg m))
     | Serial_slave_node s \<Rightarrow> Serial_slave_event (Slave_message (ModbusMsg m)))"

text \<open>The messages a list of effects sends.\<close>

fun sends :: "('b, 't) effect list \<Rightarrow> (actor_id \<times> ('b, 't) modbus_message) list" where
  "sends [] = []"
| "sends (Exchange_send a (ModbusMsg m) # os) = (a, m) # sends os"
| "sends (_ # os) = sends os"

lemma sends_append [simp]: "sends (xs @ ys) = sends xs @ sends ys"
  by (induction xs rule: sends.induct) auto

lemma replies_sends: "replies os = map (\<lambda>(a, m). (a, modbusMessageInfo m)) (sends os)"
  by (induction os rule: sends.induct) auto

text \<open>
  A local step of a slave-side actor keeps its id and its router, and every message it sends is
  a request of its own, with a buffer, to an actor its router names.
\<close>

definition request_from :: "'t slave_node \<Rightarrow> 'u::len word itself \<Rightarrow> actor_id \<times> ('b, 't) modbus_message \<Rightarrow> bool" where
  "request_from s T = (\<lambda>(r, m). sourceId (modbusMessageInfo m) = slave_id s \<and> modbusBuffer m \<noteq> None \<and>
     (\<exists>u :: 'u word. Router_Route (slave_router s) u = Some r))"

lemma slave_step_local:
  assumes "slave_step (L :: ('b, 'u::len word, 't::len word) modbus_lib) defaultId s e = Done (s', os)"
    and "slave_local e"
  shows "slave_id s' = slave_id s \<and> slave_router s' = slave_router s \<and>
    list_all (request_from s TYPE('u word)) (sends os)"
proof (cases "(L, defaultId, s, e)" rule: slave_step.cases)
  case (1 L' d c e')
  with assms show ?thesis
    by (cases e') (auto simp: handler_defs step_simps Let_def and_then_Done_iff request_from_def
        ModbusMessageInfo_def split: option.splits if_splits)
next
  case (2 L' d c e')
  with assms show ?thesis
    by (cases e') (auto simp: handler_defs step_simps Let_def and_then_Done_iff request_from_def
        ModbusMessageInfo_def split: option.splits if_splits)
qed (use assms in simp_all)

text \<open>Receiving a message keeps them too and sends none.\<close>

lemma slave_step_message:
  assumes "slave_step L defaultId s (slave_message s m) = Done (s', os)"
  shows "slave_id s' = slave_id s \<and> slave_router s' = slave_router s \<and> sends os = []"
  using assms
  by (cases s) (auto simp: slave_message_def handler_defs step_simps Let_def split: option.splits if_splits)

subsection \<open>The master side\<close>

datatype ('b, 't) master_event = Serial_master_event "('b, 't) rtu_master_event"
  | Client_event "('b, 't) tcp_client_event"

fun master_step :: "('b, 'u, 't::len word) modbus_lib \<Rightarrow> actor_id \<Rightarrow> ('b, 't word) master_actor \<Rightarrow>
    ('b, 't word) master_event \<Rightarrow> (('b, 't word) master_actor \<times> ('b, 't word) effect list) outcome" where
  "master_step L defaultId (RtuActor s) (Serial_master_event e) =
     and_then (RtuMaster_step L defaultId s e) (\<lambda>(s', os). Done (RtuActor s', os))"
| "master_step L defaultId (ClientActor s) (Client_event e) =
     and_then (TcpClient_step L defaultId s e) (\<lambda>(s', os). Done (ClientActor s', os))"
| "master_step L defaultId _ _ = Undefined"

fun master_pipeline :: "('b, 't) master_actor \<Rightarrow> (actor_id \<times> 't message_info) list" where
  "master_pipeline (RtuActor s) = rm_pipeline s"
| "master_pipeline (ClientActor s) = tc_pipeline s"

fun master_arrivals :: "('b, 't) master_event \<Rightarrow> (actor_id \<times> 't message_info) list" where
  "master_arrivals (Serial_master_event e) = rm_arrivals e"
| "master_arrivals (Client_event e) = tc_arrivals e"

fun master_buffers_ok :: "('b, 't) master_actor \<Rightarrow> bool" where
  "master_buffers_ok (RtuActor s) = rm_buffers_ok s"
| "master_buffers_ok (ClientActor s) = tc_buffers_ok s"

fun master_wf :: "('b, 't) master_actor \<Rightarrow> bool" where
  "master_wf (RtuActor s) = rm_wf s"
| "master_wf (ClientActor s) = tc_wf s"

lemma master_buffers_ok_wf: "master_buffers_ok m \<Longrightarrow> master_wf m"
  by (cases m) (simp_all add: rm_buffers_ok_def tc_buffers_ok_def)

fun master_local :: "('b, 't) master_event \<Rightarrow> bool" where
  "master_local (Serial_master_event (Master_message now m)) = False"
| "master_local (Client_event (Client_message now m)) = False"
| "master_local _ = True"

text \<open>An event of the kind the actor handles.\<close>

fun event_fits :: "('b, 't) master_actor \<Rightarrow> ('b, 't) master_event \<Rightarrow> bool" where
  "event_fits (RtuActor s) (Serial_master_event e) = True"
| "event_fits (ClientActor s) (Client_event e) = True"
| "event_fits _ _ = False"

definition master_message :: "chrono_rep \<Rightarrow> ('b, 't) master_actor \<Rightarrow> ('b, 't) modbus_message \<Rightarrow>
    ('b, 't) master_event" where
  "master_message now s m = (case s of RtuActor c \<Rightarrow> Serial_master_event (Master_message now (ModbusMsg m))
     | ClientActor s \<Rightarrow> Client_event (Client_message now (ModbusMsg m)))"

lemma master_message_simps [simp]:
  "master_arrivals (master_message now s m) = [addressed (modbusMessageInfo m)]"
  "event_fits s (master_message now s m)"
  by (cases s; simp add: master_message_def)+

lemma master_local_arrivals: "master_local e \<Longrightarrow> master_arrivals e = []"
  by (cases e rule: master_local.cases) auto

text \<open>The two kinds of master meet one contract.\<close>

interpretation ms: message_pipeline "master_step L defaultId" master_pipeline master_arrivals replies master_wf
  for L :: "('b, 'u, 't::len word) modbus_lib" and defaultId
proof
  fix s e s' os
  assume wf: "master_wf s" and step: "master_step L defaultId s e = Done (s', os)"
  show "master_wf s' \<and> subseq (replies os @ master_pipeline s') (master_pipeline s @ master_arrivals e)"
  proof (cases "(L, defaultId, s, e)" rule: master_step.cases)
    case (1 L' d x e')
    with step obtain x' where "RtuMaster_step L defaultId x e' = Done (x', os)"
      and "s' = RtuActor x'" by (auto simp: and_then_Done_iff)
    with 1 wf rm.step_pipeline [of x L defaultId e' x' os] show ?thesis by simp
  next
    case (2 L' d x e')
    with step obtain x' where "TcpClient_step L defaultId x e' = Done (x', os)"
      and "s' = ClientActor x'" by (auto simp: and_then_Done_iff)
    with 2 wf tc.step_pipeline [of x L defaultId e' x' os] show ?thesis by simp
  qed (use step in simp_all)
qed simp_all

text \<open>
  With buffers in all requests a step of the right kind is never undefined, and the requests
  kept in the queue have buffers again.
\<close>

lemma master_step_defined:
  assumes "master_buffers_ok s" and "event_fits s e"
    and "master_local e \<or> (\<exists>now m. e = master_message now s m \<and> modbusBuffer m \<noteq> None)"
  shows "master_step L defaultId s e \<noteq> Undefined \<and>
    (\<forall>s' os. master_step L defaultId s e = Done (s', os) \<longrightarrow> master_buffers_ok s')"
proof (cases s)
  case (RtuActor x)
  with assms(2) obtain e' where e: "e = Serial_master_event e'" by (cases e) auto
  have "rm_event_ok e'"
    using assms(3) by (cases e' rule: rm_event_ok.cases) (auto simp: e RtuActor master_message_def)
  with assms(1) RtuActor RtuMaster_step_defined [of x e' L defaultId]
  show ?thesis by (auto simp: e)
next
  case (ClientActor x)
  with assms(2) obtain e' where e: "e = Client_event e'" by (cases e) auto
  have "tc_event_ok e'"
    using assms(3) by (cases e' rule: tc_event_ok.cases) (auto simp: e ClientActor master_message_def)
  with assms(1) ClientActor TcpClient_step_defined [of x e' L defaultId]
  show ?thesis by (auto simp: e)
qed

lemma subseq_mset_subset: "subseq xs ys \<Longrightarrow> mset xs \<subseteq># mset ys"
proof (induction rule: list_emb.induct)
  case (list_emb_Cons xs ys y)
  then show ?case by (simp add: subset_mset.le_supI2 subset_mset.order_trans)
qed simp_all

text \<open>What a master sends are replies, each to the source of the request it answers.\<close>

lemma master_answers:
  assumes "master_wf s" and "master_step L defaultId s e = Done (s', os)"
  shows "mset (replies os) + mset (master_pipeline s') \<subseteq># mset (master_pipeline s) + mset (master_arrivals e)"
  using ms.step_pipeline [OF assms] subseq_mset_subset by fastforce

subsection \<open>The network\<close>

text \<open>
  \<open>net_issued\<close>, \<open>net_answered\<close> and \<open>net_delivered\<close> are not part of the program: they record
  which requests slave-side actors sent, which of them masters replied to, and which replies
  reached an actor, each with multiplicity.
\<close>

record ('b, 't) network =
  net_masters :: "(actor_id \<times> ('b, 't) master_actor) list"
  net_slaves :: "actor_id \<Rightarrow> 't slave_node option"
  net_mail :: "(actor_id \<times> ('b, 't) modbus_message) multiset"
  net_issued :: "(actor_id \<times> 't message_info) multiset"
  net_answered :: "(actor_id \<times> 't message_info) multiset"
  net_delivered :: "(actor_id \<times> 't message_info) multiset"

definition master_ids :: "('b, 't) network \<Rightarrow> actor_id set" where
  "master_ids N = fst ` set (net_masters N)"

text \<open>The requests of a list of effects, as they are recorded.\<close>

definition requests_in :: "('b, 't) effect list \<Rightarrow> (actor_id \<times> 't message_info) multiset" where
  "requests_in os = image_mset (\<lambda>(r, m). addressed (modbusMessageInfo m)) (mset (sends os))"

definition slave_acts :: "actor_id \<Rightarrow> 't slave_node \<Rightarrow> ('b, 't) effect list \<Rightarrow> ('b, 't) network \<Rightarrow> ('b, 't) network" where
  "slave_acts a s os N = N\<lparr>net_slaves := (net_slaves N)(a \<mapsto> s), net_mail := net_mail N + mset (sends os),
     net_issued := net_issued N + requests_in os\<rparr>"

definition master_acts :: "(actor_id \<times> ('b, 't) master_actor) list \<Rightarrow> ('b, 't) effect list \<Rightarrow> ('b, 't) network \<Rightarrow>
    ('b, 't) network" where
  "master_acts ms os N = N\<lparr>net_masters := ms, net_mail := net_mail N + mset (sends os),
     net_answered := net_answered N + mset (replies os)\<rparr>"

definition take_mail :: "actor_id \<Rightarrow> ('b, 't) modbus_message \<Rightarrow> ('b, 't) network \<Rightarrow> ('b, 't) network" where
  "take_mail a m N = N\<lparr>net_mail := net_mail N - {#(a, m)#}\<rparr>"

definition deliver_to_slave :: "actor_id \<Rightarrow> ('b, 't) modbus_message \<Rightarrow> ('b, 't) network \<Rightarrow> ('b, 't) network" where
  "deliver_to_slave a m N = (take_mail a m N)\<lparr>net_delivered := net_delivered N + {#(a, modbusMessageInfo m)#}\<rparr>"

text \<open>
  A slave-side actor that may join is registered under a free id and has a routing table of
  masters, in which unit ids nobody serves have the default id (of no actor).
\<close>

definition routes_to_masters :: "'u::len word itself \<Rightarrow> actor_id \<Rightarrow> actor_id set \<Rightarrow> router \<Rightarrow> bool" where
  "routes_to_masters T defaultId ids r \<longleftrightarrow>
     (\<forall>(u :: 'u word) a. Router_Route r u = Some a \<longrightarrow> a = defaultId \<or> a \<in> ids)"

definition may_join :: "'u::len word itself \<Rightarrow> actor_id \<Rightarrow> ('b, 't) network \<Rightarrow> actor_id \<Rightarrow> 't slave_node \<Rightarrow> bool" where
  "may_join T defaultId N a s \<longleftrightarrow> net_slaves N a = None \<and> a \<notin> master_ids N \<and> a \<noteq> defaultId \<and>
     slave_id s = a \<and> routes_to_masters T defaultId (master_ids N) (slave_router s)"

inductive net_step :: "('b, 'u::len word, 't::len word) modbus_lib \<Rightarrow> actor_id \<Rightarrow>
    ('b, 't word) network \<Rightarrow> ('b, 't word) network \<Rightarrow> bool"
  for L defaultId where
  slave_local: "net_slaves N a = Some s \<Longrightarrow> slave_local e \<Longrightarrow> slave_step L defaultId s e = Done (s', os) \<Longrightarrow>
    net_step L defaultId N (slave_acts a s' os N)"
| slave_receives: "net_slaves N a = Some s \<Longrightarrow> (a, m) \<in># net_mail N \<Longrightarrow>
    slave_step L defaultId s (slave_message s m) = Done (s', os) \<Longrightarrow>
    net_step L defaultId N (slave_acts a s' os (deliver_to_slave a m N))"
| master_local: "net_masters N = xs @ (r, s) # ys \<Longrightarrow> master_local e \<Longrightarrow> event_fits s e \<Longrightarrow>
    master_step L defaultId s e = Done (s', os) \<Longrightarrow>
    net_step L defaultId N (master_acts (xs @ (r, s') # ys) os N)"
| master_receives: "net_masters N = xs @ (r, s) # ys \<Longrightarrow> (r, m) \<in># net_mail N \<Longrightarrow>
    master_step L defaultId s (master_message now s m) = Done (s', os) \<Longrightarrow>
    net_step L defaultId N (master_acts (xs @ (r, s') # ys) os (take_mail r m N))"
| lose: "(a, m) \<in># net_mail N \<Longrightarrow> net_step L defaultId N (take_mail a m N)"
| join: "may_join TYPE('u word) defaultId N a s \<Longrightarrow> net_step L defaultId N (N\<lparr>net_slaves := (net_slaves N)(a \<mapsto> s)\<rparr>)"
| leave: "net_step L defaultId N (N\<lparr>net_slaves := (net_slaves N)(a := None)\<rparr>)"

text \<open>The gateway after its masters were made: nobody connected and nothing sent.\<close>

definition net_start :: "('b, 't) network \<Rightarrow> bool" where
  "net_start N \<longleftrightarrow> list_all (\<lambda>(r, s). master_buffers_ok s \<and> master_pipeline s = []) (net_masters N) \<and>
     net_slaves N = (\<lambda>a. None) \<and> net_mail N = {#} \<and> net_issued N = {#} \<and> net_answered N = {#} \<and>
     net_delivered N = {#}"

inductive net_reach :: "('b, 'u::len word, 't::len word) modbus_lib \<Rightarrow> actor_id \<Rightarrow>
    ('b, 't word) network \<Rightarrow> bool"
  for L defaultId where
  net_started: "net_start N \<Longrightarrow> net_reach L defaultId N"
| net_continues: "net_reach L defaultId N \<Longrightarrow> net_step L defaultId N N' \<Longrightarrow> net_reach L defaultId N'"

subsection \<open>The invariant\<close>

text \<open>What masters still have to answer, and the two kinds of messages in transit.\<close>

definition net_pending :: "('b, 't) network \<Rightarrow> (actor_id \<times> 't message_info) multiset" where
  "net_pending N = (\<Sum>(r, s) \<leftarrow> net_masters N. mset (master_pipeline s))"

definition requests_sent :: "('b, 't) network \<Rightarrow> (actor_id \<times> 't message_info) multiset" where
  "requests_sent N = image_mset (\<lambda>(r, m). addressed (modbusMessageInfo m))
     (filter_mset (\<lambda>(r, m). r \<in> master_ids N) (net_mail N))"

definition replies_sent :: "actor_id \<Rightarrow> ('b, 't) network \<Rightarrow> (actor_id \<times> 't message_info) multiset" where
  "replies_sent d N = image_mset (\<lambda>(a, m). (a, modbusMessageInfo m))
     (filter_mset (\<lambda>(a, m). a \<notin> master_ids N \<and> a \<noteq> d) (net_mail N))"

definition slaves_ok :: "'u::len word itself \<Rightarrow> actor_id \<Rightarrow> ('b, 't) network \<Rightarrow> bool" where
  "slaves_ok T d N \<longleftrightarrow> (\<forall>a s. net_slaves N a = Some s \<longrightarrow> slave_id s = a \<and> a \<notin> master_ids N \<and> a \<noteq> d \<and>
     routes_to_masters T d (master_ids N) (slave_router s))"

definition net_inv :: "'u::len word itself \<Rightarrow> actor_id \<Rightarrow> ('b, 't) network \<Rightarrow> bool" where
  "net_inv T d N \<longleftrightarrow> slaves_ok T d N \<and> list_all (\<lambda>(r, s). master_buffers_ok s) (net_masters N) \<and>
     (\<forall>(r, m) \<in># net_mail N. r \<in> master_ids N \<longrightarrow> modbusBuffer m \<noteq> None) \<and>
     (\<forall>(a, i) \<in># net_issued N. a = sourceId i \<and> a \<notin> master_ids N \<and> a \<noteq> d) \<and>
     net_answered N + net_pending N + requests_sent N \<subseteq># net_issued N \<and>
     net_delivered N + replies_sent d N \<subseteq># net_answered N"

lemma net_invD:
  assumes "net_inv T d N"
  shows "slaves_ok T d N" and "list_all (\<lambda>(r, s). master_buffers_ok s) (net_masters N)"
    and "\<forall>(r, m) \<in># net_mail N. r \<in> master_ids N \<longrightarrow> modbusBuffer m \<noteq> None"
    and "\<forall>(a, i) \<in># net_issued N. a = sourceId i \<and> a \<notin> master_ids N \<and> a \<noteq> d"
    and "net_answered N + net_pending N + requests_sent N \<subseteq># net_issued N"
    and "net_delivered N + replies_sent d N \<subseteq># net_answered N"
  using assms unfolding net_inv_def by blast+

lemma sent_add:
  "requests_sent (N\<lparr>net_mail := A + B\<rparr>) = requests_sent (N\<lparr>net_mail := A\<rparr>) + requests_sent (N\<lparr>net_mail := B\<rparr>)"
  "replies_sent d (N\<lparr>net_mail := A + B\<rparr>) = replies_sent d (N\<lparr>net_mail := A\<rparr>) + replies_sent d (N\<lparr>net_mail := B\<rparr>)"
  by (simp_all add: requests_sent_def replies_sent_def master_ids_def)

text \<open>The mail of a network only counts with the ids of its masters.\<close>

lemma sent_cong:
  assumes "master_ids N = master_ids N'" and "net_mail N = net_mail N'"
  shows "requests_sent N = requests_sent N'" "replies_sent d N = replies_sent d N'"
  using assms by (simp_all add: requests_sent_def replies_sent_def)

text \<open>Mail to masters and to nobody, and mail to slave-side actors.\<close>

lemma requests_only:
  assumes "\<forall>(r, m) \<in># A. r = d \<or> r \<in> master_ids N"
  shows "requests_sent (N\<lparr>net_mail := A\<rparr>) \<subseteq># image_mset (\<lambda>(r, m). addressed (modbusMessageInfo m)) A"
    and "replies_sent d (N\<lparr>net_mail := A\<rparr>) = {#}"
proof -
  have "filter_mset (\<lambda>(r, m). r \<notin> master_ids N \<and> r \<noteq> d) A = filter_mset (\<lambda>_. False) A"
    by (rule filter_mset_cong [OF refl]) (use assms in auto)
  then show "replies_sent d (N\<lparr>net_mail := A\<rparr>) = {#}"
    by (simp add: replies_sent_def master_ids_def)
  show "requests_sent (N\<lparr>net_mail := A\<rparr>) \<subseteq># image_mset (\<lambda>(r, m). addressed (modbusMessageInfo m)) A"
    by (simp add: requests_sent_def image_mset_subseteq_mono)
qed

lemma replies_only:
  assumes "\<forall>(a, m) \<in># A. a \<notin> master_ids N \<and> a \<noteq> d"
  shows "requests_sent (N\<lparr>net_mail := A\<rparr>) = {#}"
    and "replies_sent d (N\<lparr>net_mail := A\<rparr>) = image_mset (\<lambda>(a, m). (a, modbusMessageInfo m)) A"
proof -
  have "filter_mset (\<lambda>(r, m). r \<in> master_ids N) A = filter_mset (\<lambda>_. False) A"
    and "filter_mset (\<lambda>(r, m). r \<notin> master_ids N \<and> r \<noteq> d) A = filter_mset (\<lambda>_. True) A"
    by (rule filter_mset_cong [OF refl]; use assms in auto)+
  then show "requests_sent (N\<lparr>net_mail := A\<rparr>) = {#}"
    and "replies_sent d (N\<lparr>net_mail := A\<rparr>) = image_mset (\<lambda>(a, m). (a, modbusMessageInfo m)) A"
    by (simp_all add: requests_sent_def replies_sent_def master_ids_def)
qed

text \<open>Taking a message out of transit.\<close>

lemma take_mail_sent:
  assumes "(a, m) \<in># net_mail N"
  shows "a \<in> master_ids N \<Longrightarrow> requests_sent N = add_mset (addressed (modbusMessageInfo m)) (requests_sent (take_mail a m N))"
    and "a \<in> master_ids N \<Longrightarrow> replies_sent d (take_mail a m N) = replies_sent d N"
    and "a \<notin> master_ids N \<Longrightarrow> requests_sent (take_mail a m N) = requests_sent N"
    and "a \<notin> master_ids N \<Longrightarrow> a \<noteq> d \<Longrightarrow> replies_sent d N = add_mset (a, modbusMessageInfo m) (replies_sent d (take_mail a m N))"
    and "a = d \<Longrightarrow> replies_sent d (take_mail a m N) = replies_sent d N"
proof -
  from assms obtain A where A: "net_mail N = add_mset (a, m) A" by (blast dest: multi_member_split)
  have ids: "master_ids (take_mail a m N) = master_ids N" by (simp add: take_mail_def master_ids_def)
  show "a \<in> master_ids N \<Longrightarrow> requests_sent N = add_mset (addressed (modbusMessageInfo m)) (requests_sent (take_mail a m N))"
    and "a \<in> master_ids N \<Longrightarrow> replies_sent d (take_mail a m N) = replies_sent d N"
    and "a \<notin> master_ids N \<Longrightarrow> requests_sent (take_mail a m N) = requests_sent N"
    and "a \<notin> master_ids N \<Longrightarrow> a \<noteq> d \<Longrightarrow> replies_sent d N = add_mset (a, modbusMessageInfo m) (replies_sent d (take_mail a m N))"
    and "a = d \<Longrightarrow> replies_sent d (take_mail a m N) = replies_sent d N"
    by (simp_all add: requests_sent_def replies_sent_def ids) (simp_all add: A take_mail_def master_ids_def)
qed

lemma take_mail_simps [simp]:
  "net_masters (take_mail a m N) = net_masters N" "net_slaves (take_mail a m N) = net_slaves N"
  "net_issued (take_mail a m N) = net_issued N" "net_answered (take_mail a m N) = net_answered N"
  "net_delivered (take_mail a m N) = net_delivered N" "master_ids (take_mail a m N) = master_ids N"
  "net_pending (take_mail a m N) = net_pending N" "slaves_ok T d (take_mail a m N) = slaves_ok T d N"
  by (simp_all add: take_mail_def master_ids_def net_pending_def slaves_ok_def)

text \<open>Losing a message.\<close>

lemma net_inv_take:
  assumes "net_inv T d N" and "(a, m) \<in># net_mail N"
  shows "net_inv T d (take_mail a m N)"
proof -
  have "requests_sent (take_mail a m N) \<subseteq># requests_sent N \<and> replies_sent d (take_mail a m N) \<subseteq># replies_sent d N"
  proof (cases "a \<in> master_ids N")
    case True
    then show ?thesis using take_mail_sent(1,2) [OF assms(2)] by simp
  next
    case False
    then show ?thesis using take_mail_sent(3-5) [OF assms(2)] by (cases "a = d") simp_all
  qed
  then have fewer: "requests_sent (take_mail a m N) \<subseteq># requests_sent N"
    and less: "replies_sent d (take_mail a m N) \<subseteq># replies_sent d N" by blast+
  have "net_answered N + net_pending N + requests_sent (take_mail a m N) \<subseteq># net_issued N"
    by (rule subset_mset.order_trans [OF subset_mset.add_left_mono net_invD(5) [OF assms(1)]]) (rule fewer)
  moreover have "net_delivered N + replies_sent d (take_mail a m N) \<subseteq># net_answered N"
    by (rule subset_mset.order_trans [OF subset_mset.add_left_mono net_invD(6) [OF assms(1)]]) (rule less)
  moreover have "set_mset (net_mail (take_mail a m N)) \<subseteq> set_mset (net_mail N)"
    by (auto simp: take_mail_def dest: in_diffD)
  then have "\<forall>(r, m) \<in># net_mail (take_mail a m N). r \<in> master_ids N \<longrightarrow> modbusBuffer m \<noteq> None"
    using net_invD(3) [OF assms(1)] by blast
  ultimately show ?thesis using assms(1) by (simp add: net_inv_def)
qed

text \<open>Delivering a message to a slave-side actor records it.\<close>

lemma net_inv_deliver:
  assumes "net_inv T d N" and "(a, m) \<in># net_mail N" and "a \<notin> master_ids N" and "a \<noteq> d"
  shows "net_inv T d (deliver_to_slave a m N)"
proof -
  let ?N = "take_mail a m N" and ?D = "deliver_to_slave a m N"
  have inv: "net_inv T d ?N" by (rule net_inv_take [OF assms(1,2)])
  have ids: "master_ids ?D = master_ids N" by (simp add: deliver_to_slave_def master_ids_def take_mail_def)
  have sent: "requests_sent ?D = requests_sent ?N" "replies_sent d ?D = replies_sent d ?N"
    by (rule sent_cong; simp add: deliver_to_slave_def master_ids_def take_mail_def)+
  have "net_delivered ?D = add_mset (a, modbusMessageInfo m) (net_delivered N)"
    by (simp add: deliver_to_slave_def)
  then have "net_delivered ?D + replies_sent d ?D = net_delivered N + replies_sent d N"
    using take_mail_sent(4) [OF assms(2,3,4)] by (simp add: sent)
  moreover have "net_answered ?D = net_answered N" by (simp add: deliver_to_slave_def)
  ultimately have "net_delivered ?D + replies_sent d ?D \<subseteq># net_answered ?D"
    using net_invD(6) [OF assms(1)] by simp
  moreover have "net_answered ?D + net_pending ?D + requests_sent ?D \<subseteq># net_issued ?D"
    using net_invD(5) [OF inv] unfolding sent by (simp add: deliver_to_slave_def net_pending_def)
  moreover have "slaves_ok T d ?D"
    using net_invD(1) [OF inv] by (simp add: slaves_ok_def deliver_to_slave_def ids)
      (simp add: deliver_to_slave_def master_ids_def take_mail_def)
  ultimately show ?thesis using net_invD(2-4) [OF inv]
    by (simp add: net_inv_def ids) (simp add: deliver_to_slave_def)
qed

text \<open>A step of a slave-side actor.\<close>

lemma slave_acts_simps [simp]:
  "net_masters (slave_acts a s os N) = net_masters N" "net_answered (slave_acts a s os N) = net_answered N"
  "net_delivered (slave_acts a s os N) = net_delivered N" "master_ids (slave_acts a s os N) = master_ids N"
  "net_pending (slave_acts a s os N) = net_pending N"
  by (simp_all add: slave_acts_def master_ids_def net_pending_def)

lemma net_inv_slave:
  fixes N :: "('b, 't) network"
  assumes inv: "net_inv TYPE('u::len word) d N" and node: "net_slaves N a = Some s"
    and same: "slave_id s' = slave_id s" "slave_router s' = slave_router s"
    and requests: "list_all (request_from s TYPE('u word)) (sends os)"
  shows "net_inv TYPE('u word) d (slave_acts a s' os N)"
proof -
  let ?N = "slave_acts a s' os N"
  from net_invD(1) [OF inv] node have id: "slave_id s = a" "a \<notin> master_ids N"
    "a \<noteq> d" and route: "routes_to_masters TYPE('u word) d (master_ids N) (slave_router s)"
    by (auto simp: slaves_ok_def)
  have each: "(r = d \<or> r \<in> master_ids N) \<and> modbusBuffer m \<noteq> None \<and> sourceId (modbusMessageInfo m) = a"
    if "(r, m) \<in> set (sends os)" for r m
    using bspec [OF requests [unfolded list_all_iff] that] id(1) route
    by (auto simp: request_from_def routes_to_masters_def)
  have to_masters: "\<forall>(r, m) \<in># mset (sends os). r = d \<or> r \<in> master_ids N" using each by auto
  have sent: "requests_sent ?N \<subseteq># requests_sent N + requests_in os" "replies_sent d ?N = replies_sent d N"
  proof -
    have "master_ids ?N = master_ids (N\<lparr>net_mail := net_mail N + mset (sends os)\<rparr>)"
      and "net_mail ?N = net_mail (N\<lparr>net_mail := net_mail N + mset (sends os)\<rparr>)"
      by (simp_all add: slave_acts_def master_ids_def)
    note cong = sent_cong [OF this]
    show "requests_sent ?N \<subseteq># requests_sent N + requests_in os" "replies_sent d ?N = replies_sent d N"
      unfolding cong sent_add requests_in_def
      using requests_only [OF to_masters] by simp_all
  qed
  have issued: "net_issued ?N = net_issued N + requests_in os" by (simp add: slave_acts_def)
  have "net_answered ?N + net_pending ?N + requests_sent ?N \<subseteq>#
      (net_answered N + net_pending N + requests_sent N) + requests_in os"
    using sent(1) by (simp add: add.assoc)
  also have "\<dots> \<subseteq># net_issued ?N"
    using net_invD(5) [OF inv] by (simp add: issued)
  finally have "net_answered ?N + net_pending ?N + requests_sent ?N \<subseteq># net_issued ?N" .
  moreover have "net_delivered ?N + replies_sent d ?N \<subseteq># net_answered ?N"
    using net_invD(6) [OF inv] by (simp add: sent)
  moreover have "slaves_ok TYPE('u word) d ?N"
    using net_invD(1) [OF inv] same id route
    by (auto simp: slaves_ok_def slave_acts_def master_ids_def routes_to_masters_def)
  moreover have "\<forall>(r, m) \<in># net_mail ?N. r \<in> master_ids ?N \<longrightarrow> modbusBuffer m \<noteq> None"
    using net_invD(3) [OF inv] each by (fastforce simp: slave_acts_def master_ids_def)
  moreover have "\<forall>(b, i) \<in># net_issued ?N. b = sourceId i \<and> b \<notin> master_ids ?N \<and> b \<noteq> d"
    using net_invD(4) [OF inv] each id(2,3) by (fastforce simp: issued requests_in_def addressed_def)
  ultimately show ?thesis using net_invD(2) [OF inv] by (simp add: net_inv_def)
qed

text \<open>A step of a master-side actor.\<close>

lemma net_inv_master:
  fixes N :: "('b, 't) network"
  assumes inv: "net_inv T d N" and node: "net_masters N = xs @ (r, s) # ys"
    and pipe: "mset (replies os) + mset (master_pipeline s') \<subseteq># mset (master_pipeline s) + extra"
    and ok: "master_buffers_ok s'"
    and brings: "net_answered N + net_pending N + requests_sent N + extra \<subseteq># net_issued N"
  shows "net_inv T d (master_acts (xs @ (r, s') # ys) os N)"
proof -
  let ?N = "master_acts (xs @ (r, s') # ys) os N"
  define rest where "rest = (\<Sum>(r, s) \<leftarrow> xs @ ys. mset (master_pipeline s))"
  have ids: "master_ids ?N = master_ids N" using node by (auto simp: master_acts_def master_ids_def)
  have pend: "net_pending N = mset (master_pipeline s) + rest" "net_pending ?N = mset (master_pipeline s') + rest"
    using node by (simp_all add: net_pending_def master_acts_def rest_def)
  have answered: "net_answered ?N = net_answered N + mset (replies os)"
    and issued: "net_issued ?N = net_issued N" by (simp_all add: master_acts_def)
  have all: "net_answered ?N + net_pending ?N + requests_sent N \<subseteq># net_issued N"
  proof -
    have "net_answered ?N + net_pending ?N + requests_sent N =
        (net_answered N + rest + requests_sent N) + (mset (replies os) + mset (master_pipeline s'))"
      by (simp add: answered pend)
    also have "\<dots> \<subseteq># (net_answered N + rest + requests_sent N) + (mset (master_pipeline s) + extra)"
      using pipe by (rule subset_mset.add_left_mono)
    also have "\<dots> = net_answered N + net_pending N + requests_sent N + extra" by (simp add: pend)
    also note brings
    finally show ?thesis .
  qed
  then have "net_answered ?N \<subseteq># net_issued N"
    by (rule subset_mset.order_trans [rotated]) simp
  then have "mset (replies os) \<subseteq># net_issued N"
    by (rule subset_mset.order_trans [rotated]) (simp add: answered)
  then have "\<forall>(a, i) \<in> set (replies os). a \<notin> master_ids N \<and> a \<noteq> d"
    using net_invD(4) [OF inv] by (fastforce dest: mset_subset_eqD)
  then have away: "\<forall>(a, m) \<in># mset (sends os). a \<notin> master_ids N \<and> a \<noteq> d"
    by (fastforce simp: replies_sends)
  have sent: "requests_sent ?N = requests_sent N" "replies_sent d ?N = replies_sent d N + mset (replies os)"
  proof -
    have "master_ids ?N = master_ids (N\<lparr>net_mail := net_mail N + mset (sends os)\<rparr>)"
      and "net_mail ?N = net_mail (N\<lparr>net_mail := net_mail N + mset (sends os)\<rparr>)"
      using ids by (simp_all add: master_acts_def) (simp add: master_ids_def)
    note cong = sent_cong [OF this]
    show "requests_sent ?N = requests_sent N" "replies_sent d ?N = replies_sent d N + mset (replies os)"
      unfolding cong sent_add replies_only [OF away] by (simp_all add: replies_sends)
  qed
  have "net_answered ?N + net_pending ?N + requests_sent ?N \<subseteq># net_issued ?N"
    using all by (simp only: sent issued)
  moreover have "net_delivered ?N + replies_sent d ?N \<subseteq># net_answered ?N"
    using net_invD(6) [OF inv] by (simp add: sent answered) (simp add: master_acts_def)
  moreover have "slaves_ok T d ?N"
    using net_invD(1) [OF inv] unfolding slaves_ok_def ids by (simp add: master_acts_def)
  moreover have "list_all (\<lambda>(r, s). master_buffers_ok s) (net_masters ?N)"
    using net_invD(2) [OF inv] node ok by (simp add: master_acts_def)
  moreover have "\<forall>(r, m) \<in># net_mail ?N. r \<in> master_ids ?N \<longrightarrow> modbusBuffer m \<noteq> None"
    using net_invD(3) [OF inv] away unfolding ids by (fastforce simp: master_acts_def)
  moreover have "\<forall>(a, i) \<in># net_issued ?N. a = sourceId i \<and> a \<notin> master_ids ?N \<and> a \<noteq> d"
    using net_invD(4) [OF inv] unfolding ids issued .
  ultimately show ?thesis by (simp add: net_inv_def)
qed

lemma master_actor_inv:
  assumes "net_inv T d N" and "net_masters N = xs @ (r, s) # ys"
  shows "master_buffers_ok s" "master_wf s" "r \<in> master_ids N"
  using net_invD(2) [OF assms(1)] assms(2) master_buffers_ok_wf [of s] by (simp_all add: master_ids_def)

lemma net_step_inv:
  assumes "net_step (L :: ('b, 'u::len word, 't::len word) modbus_lib) defaultId N N'"
    and inv: "net_inv TYPE('u word) defaultId N"
  shows "net_inv TYPE('u word) defaultId N'"
  using assms(1)
proof cases
  case (slave_local a s e s' os)
  with slave_step_local [OF slave_local(4,3)] inv show ?thesis
    by (auto intro: net_inv_slave)
next
  case (slave_receives a s m s' os)
  from slave_step_message [OF slave_receives(4)]
  have kept: "slave_id s' = slave_id s" "slave_router s' = slave_router s" "sends os = []" by blast+
  from net_invD(1) [OF inv] slave_receives(2) have "a \<notin> master_ids N" and "a \<noteq> defaultId" by (auto simp: slaves_ok_def)
  then have "net_inv TYPE('u word) defaultId (deliver_to_slave a m N)"
    by (rule net_inv_deliver [OF inv slave_receives(3)])
  moreover have "net_slaves (deliver_to_slave a m N) a = Some s"
    using slave_receives(2) by (simp add: deliver_to_slave_def)
  ultimately show ?thesis
    unfolding slave_receives(1) using kept by (intro net_inv_slave) simp_all
next
  case (master_local xs r s e ys s' os)
  from master_actor_inv [OF inv master_local(2)] have ok: "master_buffers_ok s" and wf: "master_wf s" by blast+
  have "mset (replies os) + mset (master_pipeline s') \<subseteq># mset (master_pipeline s) + {#}"
    using master_answers [OF wf master_local(5)] master_local_arrivals [OF master_local(3)] by simp
  moreover have "master_buffers_ok s'"
    using master_step_defined [OF ok master_local(4)] master_local(3,5) by blast
  ultimately show ?thesis
    unfolding master_local(1) using net_invD(5) [OF inv]
    by (intro net_inv_master [OF inv master_local(2), where extra = "{#}"]) simp_all
next
  case (master_receives xs r s ys m now s' os)
  let ?N = "take_mail r m N"
  have inv': "net_inv TYPE('u word) defaultId ?N" by (rule net_inv_take [OF inv master_receives(3)])
  from master_actor_inv [OF inv master_receives(2)] have ok: "master_buffers_ok s" and wf: "master_wf s"
    and r: "r \<in> master_ids N" by blast+
  with net_invD(3) [OF inv] master_receives(3) have buffer: "modbusBuffer m \<noteq> None" by blast
  have "mset (replies os) + mset (master_pipeline s') \<subseteq>#
      mset (master_pipeline s) + {#addressed (modbusMessageInfo m)#}"
    using master_answers [OF wf master_receives(4)] by simp
  moreover have "master_buffers_ok s'"
    using master_step_defined [OF ok, of "master_message now s m" L defaultId] buffer master_receives(4)
    by fastforce
  moreover have "net_answered ?N + net_pending ?N + requests_sent ?N +
      {#addressed (modbusMessageInfo m)#} \<subseteq># net_issued ?N"
    using net_invD(5) [OF inv] take_mail_sent(1) [OF master_receives(3) r] by simp
  moreover have "net_masters ?N = xs @ (r, s) # ys" using master_receives(2) by simp
  ultimately show ?thesis
    unfolding master_receives(1) by (intro net_inv_master [OF inv'])
next
  case (lose a m)
  then show ?thesis using net_inv_take [OF inv] by simp
next
  case (join a s)
  let ?N = "N\<lparr>net_slaves := (net_slaves N)(a \<mapsto> s)\<rparr>"
  have ids: "master_ids ?N = master_ids N" by (simp add: master_ids_def)
  have "requests_sent ?N = requests_sent N" "replies_sent defaultId ?N = replies_sent defaultId N"
    by (rule sent_cong; simp add: master_ids_def)+
  moreover have "slaves_ok TYPE('u word) defaultId ?N"
    using net_invD(1) [OF inv] join(2) unfolding slaves_ok_def may_join_def ids by simp
  ultimately show ?thesis using inv join(1) by (simp add: net_inv_def ids) (simp add: net_pending_def)
next
  case (leave a)
  let ?N = "N\<lparr>net_slaves := (net_slaves N)(a := None)\<rparr>"
  have ids: "master_ids ?N = master_ids N" by (simp add: master_ids_def)
  have "requests_sent ?N = requests_sent N" "replies_sent defaultId ?N = replies_sent defaultId N"
    by (rule sent_cong; simp add: master_ids_def)+
  moreover have "slaves_ok TYPE('u word) defaultId ?N"
    using net_invD(1) [OF inv] unfolding slaves_ok_def ids by simp
  ultimately show ?thesis using inv leave by (simp add: net_inv_def ids) (simp add: net_pending_def)
qed

lemma net_start_inv: "net_start (N :: ('b, 't) network) \<Longrightarrow> net_inv T d N"
proof -
  assume start: "net_start N"
  then have each: "\<forall>(r, s) \<in> set (net_masters N). master_buffers_ok s \<and> master_pipeline s = []"
    by (simp add: net_start_def list_all_iff)
  have "(\<Sum>(r, s) \<leftarrow> ms. mset (master_pipeline s)) = {#}"
    if "\<forall>(r, s) \<in> set ms. master_buffers_ok s \<and> master_pipeline s = []"
    for ms :: "(actor_id \<times> ('b, 't) master_actor) list"
    using that by (induction ms) auto
  from this [OF each] have "net_pending N = {#}" by (simp add: net_pending_def)
  with start show ?thesis
    by (auto simp: net_start_def net_inv_def slaves_ok_def requests_sent_def replies_sent_def list_all_iff)
qed

lemma net_reach_inv:
  "net_reach (L :: ('b, 'u::len word, 't::len word) modbus_lib) defaultId N \<Longrightarrow> net_inv TYPE('u word) defaultId N"
  by (induction rule: net_reach.induct) (auto intro: net_start_inv net_step_inv)

subsection \<open>The network of a started gateway\<close>

definition network_of :: "('a, 'u, 'b, 'p, 't) gateway \<Rightarrow> ('b, 't) network" where
  "network_of g = \<lparr>net_masters = map (\<lambda>m. (master_GetId (gm_actor m), gm_actor m)) (gw_masters g),
     net_slaves = (\<lambda>a. None), net_mail = {#}, net_issued = {#}, net_answered = {#}, net_delivered = {#}\<rparr>"

text \<open>A master as its constructor leaves it, whatever id it was given.\<close>

definition fresh_master :: "('b, 't) master_actor \<Rightarrow> bool" where
  "fresh_master s \<longleftrightarrow> master_buffers_ok s \<and> master_pipeline s = []"

lemma fresh_masters:
  "fresh_master (ClientActor (TcpClient_SetId i (ModbusTcpClient d t)))"
  "ModbusRtuMaster d t f = Done s \<Longrightarrow> fresh_master (RtuActor (RtuMaster_SetId i s))"
  by (auto simp: fresh_master_def TcpClient_SetId_def ModbusTcpClient_def tc_buffers_ok_def tc_wf_def
      tc_pipeline_def pipeline_of_def queue_infos_def RtuMaster_SetId_def ModbusRtuMaster_def
      rm_buffers_ok_def rm_wf_def rm_pipeline_def split: if_splits)

lemma MakeMasters_fresh:
  assumes "MakeMasters opens add_id d n ms cfgs = Ok (ms', n')"
    and "list_all (\<lambda>m. fresh_master (gm_actor m)) ms"
  shows "list_all (\<lambda>m. fresh_master (gm_actor m)) ms'"
  using assms
proof (induction opens add_id d n ms cfgs rule: MakeMasters.induct)
  case (1 opens add_id d n ms)
  then show ?case by simp
next
  case (2 opens add_id d n ms c rest)
  show ?case
  proof (cases c)
    case (TcpClientConfig mc address port)
    with 2 show ?thesis by (auto simp: Let_def insert_master_def fresh_masters)
  next
    case (RtuMasterConfig mc device options frameType)
    with 2 show ?thesis
      by (cases "ModbusRtuMaster d (mc_timeout mc) frameType :: ('c, 'd word) rtu_master outcome")
        (auto simp: insert_master_def fresh_masters split: if_splits)
  qed (use 2 in simp_all)
qed

lemma st_bind_Ok: "st_bind x f = Ok y \<longleftrightarrow> (\<exists>z. x = Ok z \<and> f z = Ok y)"
  by (cases x) auto

lemma gateway_net_start:
  assumes "Gateway_start opens add_id d cfg = Ok g"
  shows "net_start (network_of g)"
proof -
  from assms obtain n where "MakeMasters opens add_id d 0 [] (masters cfg) = Ok (gw_masters g, n)"
    by (auto simp: Gateway_start_def st_bind_Ok split: if_splits option.splits)
  from MakeMasters_fresh [OF this] show ?thesis
    by (auto simp: net_start_def network_of_def fresh_master_def list_all_iff)
qed

subsection \<open>The routing table of a started gateway\<close>

text \<open>Entering ranges and masters in a table keeps its size and its entries' type.\<close>

definition table_typed :: "'u::len word itself \<Rightarrow> actor_id \<Rightarrow> actor_id set \<Rightarrow> router \<Rightarrow> bool" where
  "table_typed T defaultId ids r \<longleftrightarrow> table_of TYPE('u) r \<and> routes_to_masters T defaultId ids r"

lemma set_range_typed:
  assumes "set_range (u :: 'u::len word) e i r = Some (Done r')" and "table_typed TYPE('u word) d ids r" and "i \<in> ids"
  shows "table_typed TYPE('u word) d ids r'"
proof -
  from assms(2) have t: "table_of TYPE('u) r" by (simp add: table_typed_def)
  with assms(1) set_range_overrun [OF t, of u i] have "e \<noteq> - 1" by auto
  from set_range_defined [OF this t, of u i] assms(1)
  have "table_of TYPE('u) r'" and "\<forall>k :: 'u word. Router_Route r' k = (if u \<le> k \<and> k \<le> e then Some i else Router_Route r k)"
    by auto
  with assms(2,3) show ?thesis by (auto simp: table_typed_def routes_to_masters_def)
qed

lemma set_ranges_typed:
  assumes "set_ranges (rs :: 'u::len word unit_id_range list) i r = Ok r'" and "table_typed TYPE('u word) d ids r"
    and "i \<in> ids"
  shows "table_typed TYPE('u word) d ids r'"
  using assms(1,2)
proof (induction rs arbitrary: r)
  case Nil
  then show ?case by simp
next
  case (Cons x rs)
  then obtain r1 where one: "run_set_range x i r = Ok r1" and rest: "set_ranges rs i r1 = Ok r'"
    by (auto simp: st_bind_Ok)
  from one have "set_range (range_begin x) (range_end x) i r = Some (Done r1)"
    by (auto simp: run_set_range_def of_outcome_def split: option.splits outcome.splits)
  from Cons.IH [OF rest set_range_typed [OF this Cons.prems(2) assms(3)]] show ?case .
qed

lemma set_masters_typed:
  assumes "set_masters (ms :: ('a, 'u::len word, 'b, 't) gw_master list) r = Ok r'"
    and "table_typed TYPE('u word) d ids r" and "(\<lambda>m. master_GetId (gm_actor m)) ` set ms \<subseteq> ids"
  shows "table_typed TYPE('u word) d ids r'"
  using assms
proof (induction ms arbitrary: r)
  case Nil
  then show ?case by simp
next
  case (Cons m ms)
  then obtain mc :: "'u word master_config" and r1 where one: "set_ranges (unitIdSet mc) (master_GetId (gm_actor m)) r = Ok r1"
    and rest: "set_masters ms r1 = Ok r'" by (auto simp: st_bind_Ok split: option.splits)
  from Cons.prems(3) have "master_GetId (gm_actor m) \<in> ids" by simp
  from Cons.IH [OF rest set_ranges_typed [OF one Cons.prems(2) this]] Cons.prems(3) show ?case by simp
qed

lemma Router_typed: "i = d \<or> i \<in> ids \<Longrightarrow> table_typed TYPE('u::len word) d ids (Router TYPE('u) i)"
  by (auto simp: table_typed_def routes_to_masters_def Router_Route_default UnitId_max_def split: if_splits)

lemma MakeRouter_typed:
  assumes "MakeRouter d (ms :: ('a, 'u::len word, 'b, 't) gw_master list) = Ok (Some r)"
  shows "table_typed TYPE('u word) d ((\<lambda>m. master_GetId (gm_actor m)) ` set ms) r"
proof (cases ms)
  case Nil
  with assms show ?thesis by (simp add: MakeRouter_def)
next
  case (Cons m rest)
  with assms obtain i ms' where "set_masters ms' (Router TYPE('u) i) = Ok r" and "set ms' \<subseteq> set ms"
    and "i = d \<or> i \<in> (\<lambda>m. master_GetId (gm_actor m)) ` set ms"
    by (auto simp: MakeRouter_def st_bind_Ok simp del: set_masters.simps split: option.splits if_splits)
  then show ?thesis by (intro set_masters_typed [OF _ Router_typed]) auto
qed

lemma gateway_router:
  assumes "Gateway_start opens add_id d cfg = Ok g"
  shows "MakeRouter d (gw_masters g) = Ok (Some (gw_router g))"
  using assms by (auto simp: Gateway_start_def st_bind_Ok split: if_splits option.splits)

subsection \<open>A concrete network, for the witnesses\<close>

text \<open>Two serial masters, 7 and 8; unit 2 is routed to 8 and every other one to 7.\<close>

definition net_conn :: "16 word message_info option \<Rightarrow> 16 word slave_node" where
  "net_conn i = Connection_node \<lparr>conn_id = 3, conn_serverId = 2,
     conn_router = \<lparr>routeMap = (replicate 255 7)[2 := 8]\<rparr>, conn_requestInfo = i\<rparr>"

definition net_masters0 :: "(actor_id \<times> (frame, 16 word) master_actor) list" where
  "net_masters0 = [(7, RtuActor sample_master), (8, RtuActor sample_master)]"

definition net0 :: "(frame, 16 word) network" where
  "net0 = \<lparr>net_masters = net_masters0, net_slaves = (\<lambda>a. None), net_mail = {#}, net_issued = {#},
     net_answered = {#}, net_delivered = {#}\<rparr>"

abbreviation net_info :: "16 word message_info" where
  "net_info \<equiv> ModbusMessageInfo 0 3 5"

definition net_request :: "8 word \<Rightarrow> (frame, 16 word) modbus_message" where
  "net_request u = ModbusMessage net_info (Some (sample_frame TCP u 5))"

definition net_reply :: "8 word \<Rightarrow> (frame, 16 word) modbus_message" where
  "net_reply u = ModbusMessage net_info (Some (sample_frame RTU u 0))"

definition net_busy :: "(frame, 16 word) master_actor" where
  "net_busy = RtuActor (rm_take sample_lib (net_request 1) (sample_frame TCP 1 5) []
     (sample_master\<lparr>rm_messageQueue := LimitQueue_Push (net_request 1) LimitQueue_default\<rparr>))"

text \<open>The steps of the actors in it.\<close>

lemma sample_frame_size [simp]: "(sample_frame f u t)\<lparr>fr_size := 9\<rparr> = sample_frame f u t"
  by (simp add: sample_frame_def)

lemma net_conn_reads:
  assumes "u = 1 \<or> u = 2"
  shows "slave_step sample_lib 0 (net_conn None) (Connection_event (Conn_receive True 0 None (sample_frame TCP u 5) 9)) =
    Done (net_conn (Some net_info),
      [Exchange_send (if u = 1 then 7 else 8) (ModbusMsg (net_request u)), Async_receive TCP])"
  using assms
  by (auto simp: net_conn_def TcpConnection_defs step_simps net_request_def Router_Route_def)

lemma net_master_takes:
  "\<exists>wire. master_step sample_lib 0 (RtuActor sample_master) (master_message 0 (RtuActor sample_master) (net_request 1)) =
    Done (net_busy, [Async_send wire])"
  using rtu_accepts [of sample_master 0 "net_request 1" "sample_frame TCP 1 5" sample_lib]
  by (simp add: master_message_def net_busy_def net_request_def step_simps sample_master_def
      message_expired_def TimeoutReached_def milliseconds_to_nanoseconds_def ModbusMessageInfo_def
      LimitQueue_default_def)

lemma net_master_replies:
  "\<exists>idle. master_step sample_lib 0 net_busy (Serial_master_event (Master_read True 0 None (sample_frame RTU 1 0) 9)) =
    Done (idle, [Timer_cancel, Exchange_send 3 (ModbusMsg (net_reply 1))])"
  by (simp add: net_busy_def RtuMaster_on_read_def RtuMaster_MakeResponse_def RtuMaster_QueueProcess_eq
      step_simps net_request_def net_reply_def ModbusMessageInfo_def)

lemma net_conn_answers:
  "slave_step sample_lib 0 (net_conn (Some net_info)) (slave_message (net_conn (Some net_info)) (net_reply u)) =
    Done (net_conn None, [Async_send ((sample_frame TCP u 5))])"
  by (simp add: net_conn_def slave_message_def TcpConnection_defs step_simps net_reply_def
      ModbusMessageInfo_def sample_frame_def)

lemma net_may_join:
  assumes "net_slaves N 3 = None" and "master_ids N = {7, 8}"
  shows "may_join TYPE(8 word) 0 N 3 (net_conn None)"
  using assms
  by (auto simp: may_join_def net_conn_def routes_to_masters_def Router_Route_def nth_list_update split: if_splits)

text \<open>A connection joins, sends a request, and master 7 takes it and answers.\<close>

lemma net_reads:
  assumes "net_reach sample_lib 0 N" and "net_slaves N 3 = Some (net_conn None)" and "u = 1 \<or> u = 2"
  shows "net_reach sample_lib 0 (slave_acts 3 (net_conn (Some net_info))
    [Exchange_send (if u = 1 then 7 else 8) (ModbusMsg (net_request u)), Async_receive TCP] N)"
  by (rule net_continues [OF assms(1)], rule net_step.slave_local [OF assms(2) _ net_conn_reads [OF assms(3)]]) simp

lemma net_taken:
  "\<exists>N. net_reach sample_lib 0 N \<and> net_masters N = [(7, net_busy), (8, RtuActor sample_master)] \<and>
    net_slaves N = [3 \<mapsto> net_conn (Some net_info)] \<and> net_mail N = {#} \<and> net_delivered N = {#}"
proof -
  have "master_buffers_ok (RtuActor sample_master)" and "master_pipeline (RtuActor sample_master) = []"
    by (simp_all add: sample_master_def rm_buffers_ok_def rm_wf_def rm_pipeline_def LimitQueue_default_def
        LimitQueue_invar_def)
  then have "net_start net0" by (simp add: net_start_def net0_def net_masters0_def)
  then have "net_reach sample_lib 0 net0" by (rule net_started)
  moreover have "may_join TYPE(8 word) 0 net0 3 (net_conn None)"
    by (rule net_may_join) (auto simp: net0_def net_masters0_def master_ids_def)
  ultimately have "net_reach sample_lib 0 (net0\<lparr>net_slaves := (net_slaves net0)(3 \<mapsto> net_conn None)\<rparr>)"
    by (intro net_continues [OF _ join])
  from net_reads [OF this, of 1] have r: "net_reach sample_lib 0
    (slave_acts 3 (net_conn (Some net_info)) [Exchange_send 7 (ModbusMsg (net_request 1)), Async_receive TCP]
      (net0\<lparr>net_slaves := (net_slaves net0)(3 \<mapsto> net_conn None)\<rparr>))" (is "net_reach _ _ ?N") by simp
  obtain wire where w: "master_step sample_lib 0 (RtuActor sample_master)
      (master_message 0 (RtuActor sample_master) (net_request 1)) = Done (net_busy, [Async_send wire])"
    using net_master_takes by blast
  have "net_masters ?N = [] @ (7, RtuActor sample_master) # [(8, RtuActor sample_master)]"
    and "(7, net_request 1) \<in># net_mail ?N"
    by (simp_all add: slave_acts_def net0_def net_masters0_def)
  from net_continues [OF r master_receives [OF this w]] show ?thesis
    by (intro exI, intro conjI, assumption)
      (simp_all add: master_acts_def take_mail_def slave_acts_def net0_def)
qed

text \<open>Master 7 answers once the reply arrives on its line.\<close>

lemma net_master_answers:
  assumes "net_reach sample_lib 0 N" and "net_masters N = [(7, net_busy), (8, m8)]"
  shows "\<exists>idle. net_reach sample_lib 0 (master_acts [(7, idle), (8, m8)]
    [Timer_cancel, Exchange_send 3 (ModbusMsg (net_reply 1))] N)"
proof -
  obtain idle where "master_step sample_lib 0 net_busy (Serial_master_event
      (Master_read True 0 None (sample_frame RTU 1 0) 9)) = Done (idle, [Timer_cancel, Exchange_send 3 (ModbusMsg (net_reply 1))])"
    using net_master_replies by blast
  moreover have "net_masters N = [] @ (7, net_busy) # [(8, m8)]" using assms(2) by simp
  moreover have "event_fits net_busy (Serial_master_event (Master_read True 0 None (sample_frame RTU 1 0) 9))"
    by (simp add: net_busy_def)
  ultimately have "net_step sample_lib 0 N (master_acts ([] @ (7, idle) # [(8, m8)])
      [Timer_cancel, Exchange_send 3 (ModbusMsg (net_reply 1))] N)"
    by (intro net_step.master_local) simp_all
  with assms(1) show ?thesis by (auto intro: net_continues)
qed

subsection \<open>Properties\<close>

text \<open>
  C9: in every state the gateway can reach, with connections and serial slaves joining, leaving
  and reusing ids, with messages delivered in any order, delayed or lost, and operations
  completing with any result, every reply that was delivered is the reply of one master to one
  request, no request is replied to more often than it was sent, and a reply reaches only an
  actor with the id its request came from.
\<close>

theorem Network_answers_once:
  assumes "net_reach L defaultId N"
  shows "net_delivered N \<subseteq># net_answered N \<and> net_answered N \<subseteq># net_issued N \<and>
    (\<forall>(a, i) \<in># net_delivered N. a = sourceId i)"
proof -
  note inv = net_reach_inv [OF assms]
  have "net_delivered N \<subseteq># net_answered N"
    by (rule subset_mset.order_trans [OF _ net_invD(6) [OF inv]]) simp
  moreover have "net_answered N \<subseteq># net_issued N"
    by (rule subset_mset.order_trans [OF _ net_invD(5) [OF inv]]) (simp add: add.assoc)
  ultimately have "set_mset (net_delivered N) \<subseteq> set_mset (net_issued N)"
    using set_mset_mono subset_mset.order_trans by blast
  with \<open>net_delivered N \<subseteq># net_answered N\<close> \<open>net_answered N \<subseteq># net_issued N\<close> net_invD(4) [OF inv]
  show ?thesis by blast
qed

theorem Network_answers_once_witness:
  "\<exists>N. net_reach sample_lib 0 N \<and> net_delivered N = {#(3, net_info)#} \<and> net_delivered N \<subseteq># net_issued N"
proof -
  obtain N where N: "net_reach sample_lib 0 N" "net_masters N = [(7, net_busy), (8, RtuActor sample_master)]"
    "net_slaves N = [3 \<mapsto> net_conn (Some net_info)]" "net_mail N = {#}" "net_delivered N = {#}"
    using net_taken by blast
  obtain idle where r: "net_reach sample_lib 0 (master_acts [(7, idle), (8, RtuActor sample_master)]
      [Timer_cancel, Exchange_send 3 (ModbusMsg (net_reply 1))] N)" (is "net_reach _ _ ?M")
    using net_master_answers [OF N(1,2)] by blast
  have "net_slaves ?M 3 = Some (net_conn (Some net_info))" and "(3, net_reply 1) \<in># net_mail ?M"
    using N by (simp_all add: master_acts_def)
  from net_continues [OF r slave_receives [OF this net_conn_answers]]
  have reach: "net_reach sample_lib 0 (slave_acts 3 (net_conn None) [Async_send (sample_frame TCP 1 5)]
      (deliver_to_slave 3 (net_reply 1) ?M))" (is "net_reach _ _ ?K") .
  have "net_delivered ?K = {#(3, net_info)#}"
    using N(5) by (simp add: deliver_to_slave_def take_mail_def master_acts_def net_reply_def step_simps)
  moreover from Network_answers_once [OF reach] have "net_delivered ?K \<subseteq># net_issued ?K"
    by (blast intro: subset_mset.order_trans)
  ultimately show ?thesis using reach by blast
qed

text \<open>
  no master of a started gateway ever runs into undefined behaviour, whatever the traffic:
  in every reachable state each of its handlers is defined for the completion of any operation
  and for every request in transit to it, because the slave-side actors only send requests with
  a buffer.
\<close>

lemma Gateway_masters_never_undefined:
  fixes L :: "('b, 'u::len word, 't::len word) modbus_lib"
  assumes "Gateway_start opens add_id d cfg = Ok (g :: ('a, 'u word, 'b, 'p, 't word) gateway)"
    and "rtranclp (net_step L d) (network_of g) N" and "(r, s) \<in> set (net_masters N)" and "event_fits s e"
    and "master_local e \<or> (\<exists>now m. e = master_message now s m \<and> (r, m) \<in># net_mail N)"
  shows "master_step L d s e \<noteq> Undefined"
proof -
  from assms(2) have "net_reach L d N"
    by (induction rule: rtranclp_induct)
      (auto intro: net_started [OF gateway_net_start [OF assms(1)]] net_continues)
  from net_reach_inv [OF this] have inv: "net_inv TYPE('u word) d N" .
  from assms(3) obtain xs ys where N: "net_masters N = xs @ (r, s) # ys" by (meson split_list)
  note node = master_actor_inv [OF inv N]
  have "master_local e \<or> (\<exists>now m. e = master_message now s m \<and> modbusBuffer m \<noteq> None)"
    using assms(5) net_invD(3) [OF inv] node(3) by blast
  from master_step_defined [OF node(1) assms(4) this] show ?thesis by blast
qed

theorem Gateway_masters_never_undefined_witness:
  "\<exists>(g :: (nat, 8 word, frame, unit, 16 word) gateway) r s.
    (r, s) \<in> set (net_masters (network_of g)) \<and>
    master_step sample_lib 0 s (Client_event (Client_sent None True)) \<noteq> Undefined"
proof -
  let ?m = "TcpClientConfig \<lparr>mc_timeout = 1, unitIdSet = []\<rparr> (1 :: nat) 502 :: (nat, 8 word) transport_config"
  let ?cfg = "\<lparr>configService = ConfigService_default, slaves = [TcpServerConfig 0 503], masters = [?m]\<rparr>"
  obtain g :: "(nat, 8 word, frame, unit, 16 word) gateway" where g: "Gateway_start (\<lambda>c. True) Suc 0 ?cfg = Ok g"
    and ms: "gw_masters g = [\<lparr>gm_config = ?m, gm_actor = ClientActor (TcpClient_SetId 1 (ModbusTcpClient 0 1))\<rparr>]"
    by (simp add: Gateway_start_def insert_master_def MakeRouter_def as_MasterConfig_def Slave_Start_def
        TcpServer_Start_def TcpServer_SetId_def ModbusTcpServer_def Let_def)
  let ?s = "ClientActor (TcpClient_SetId 1 (ModbusTcpClient 0 1)) :: (frame, 16 word) master_actor"
  have "(master_GetId ?s, ?s) \<in> set (net_masters (network_of g))" by (simp add: network_of_def ms)
  moreover from Gateway_masters_never_undefined [OF g rtranclp.rtrancl_refl this,
      of "Client_event (Client_sent None True)" sample_lib]
  have "master_step sample_lib 0 ?s (Client_event (Client_sent None True)) \<noteq> Undefined" by simp
  ultimately show ?thesis by blast
qed

text \<open>
  C30: when ids of closed connections are used again, a client can get the answer to somebody
  else's request. There is a reachable state in which a connection waits for the answer to its
  request for unit 2, which is still on its way to the master, while the answer of unit 1 to a
  request of the previous connection with the same id and transaction id is in transit; it fits
  the open request, and is written to the client.
\<close>

theorem Network_stale_reply:
  "\<exists>N s i. net_reach sample_lib 0 N \<and> net_slaves N 3 = Some s \<and> s = net_conn (Some i) \<and>
     (8, ModbusMessage i (Some (sample_frame TCP 2 5))) \<in># net_mail N \<and>
     (\<exists>m out. (3, m) \<in># net_mail N \<and>
        slave_step sample_lib 0 s (slave_message s m) = Done (net_conn None, [Async_send out]) \<and>
        fr_unit out = 1 \<and> fr_tid out = 5)"
proof -
  obtain N where N: "net_reach sample_lib 0 N" "net_masters N = [(7, net_busy), (8, RtuActor sample_master)]"
    "net_slaves N = [3 \<mapsto> net_conn (Some net_info)]" "net_mail N = {#}"
    using net_taken by blast
  let ?gone = "N\<lparr>net_slaves := (net_slaves N)(3 := None)\<rparr>"
  let ?next = "?gone\<lparr>net_slaves := (net_slaves ?gone)(3 \<mapsto> net_conn None)\<rparr>"
  have "may_join TYPE(8 word) 0 ?gone 3 (net_conn None)"
    by (rule net_may_join) (use N(2) in \<open>auto simp: master_ids_def\<close>)
  from net_continues [OF net_continues [OF N(1) leave] join [OF this]]
  have "net_reach sample_lib 0 ?next" .
  from net_reads [OF this, of 2] have r: "net_reach sample_lib 0 (slave_acts 3 (net_conn (Some net_info))
      [Exchange_send 8 (ModbusMsg (net_request 2)), Async_receive TCP] ?next)" (is "net_reach _ _ ?M") by simp
  obtain idle where reach: "net_reach sample_lib 0 (master_acts [(7, idle), (8, RtuActor sample_master)]
      [Timer_cancel, Exchange_send 3 (ModbusMsg (net_reply 1))] ?M)" (is "net_reach _ _ ?K")
    using net_master_answers [OF r] N(2) by (auto simp: slave_acts_def)
  have mail: "net_mail ?K = {#(8, net_request 2), (3, net_reply 1)#}" and
    slave: "net_slaves ?K 3 = Some (net_conn (Some net_info))"
    using N(4) by (simp_all add: master_acts_def slave_acts_def)
  show ?thesis
    using reach slave mail net_conn_answers [of 1]
    by (intro exI [of _ ?K] exI [of _ "net_conn (Some net_info)"] exI [of _ net_info] conjI
        exI [of _ "net_reply 1"] exI [of _ "sample_frame TCP 1 5"]) (simp_all add: net_request_def)
qed

text \<open>
  the routing table of a started gateway is well-formed: it has one entry less than there
  are unit ids, and a unit id with an entry is routed to the id of one of the gateway's masters
  or to the default id.
\<close>

lemma Gateway_table_typed:
  assumes "Gateway_start opens add_id d cfg = Ok (g :: ('a, 'u::len word, 'b, 'p, 't::len word) gateway)"
  shows "length (routeMap (gw_router g)) = 2 ^ LENGTH('u) - 1 \<and>
    (case Router_Route (gw_router g) (u :: 'u word) of None \<Rightarrow> u = - 1
     | Some a \<Rightarrow> a = d \<or> a \<in> master_ids (network_of g))"
proof -
  have "master_ids (network_of g) = (\<lambda>m. master_GetId (gm_actor m)) ` set (gw_masters g)"
    by (simp add: master_ids_def network_of_def image_image)
  with MakeRouter_typed [OF gateway_router [OF assms]]
  have typed: "table_typed TYPE('u word) d (master_ids (network_of g)) (gw_router g)" by simp
  then show ?thesis
    using Router_Route_None_iff [of "gw_router g" u]
    by (auto simp: table_typed_def routes_to_masters_def UnitId_max_def split: option.split)
qed

theorem Gateway_table_typed_witness:
  "\<exists>g :: (nat, 8 word, frame, unit, 16 word) gateway.
    length (routeMap (gw_router g)) = 255 \<and> Router_Route (gw_router g) (5 :: 8 word) \<noteq> None"
proof -
  let ?m = "TcpClientConfig \<lparr>mc_timeout = 1, unitIdSet = []\<rparr> (1 :: nat) 502 :: (nat, 8 word) transport_config"
  let ?cfg = "\<lparr>configService = ConfigService_default, slaves = [TcpServerConfig 0 503], masters = [?m]\<rparr>"
  obtain g :: "(nat, 8 word, frame, unit, 16 word) gateway" where g: "Gateway_start (\<lambda>c. True) Suc 0 ?cfg = Ok g"
    by (simp add: Gateway_start_def insert_master_def MakeRouter_def as_MasterConfig_def Slave_Start_def
        TcpServer_Start_def TcpServer_SetId_def ModbusTcpServer_def Let_def)
  from Gateway_table_typed [OF g, of 5] show ?thesis
    by (intro exI [of _ g]) (auto split: option.splits)
qed

end
