(* ===== verification/Event_Loop.thy ===== *)
theory Event_Loop
  imports Network
begin

text \<open>
  The gateway while its event loop runs: every actor of the program in one state, and one step
  for each completion the loop dispatches (\<^verbatim>\<open>ModbusGateway\<close> in
  \<^verbatim>\<open>modbus_gateway.cpp\<close>, from the registration of the signal handler to the return
  of \<^verbatim>\<open>context->run()\<close>). The handlers are those of the actors' theories; here
  their effects are carried out: messages are put in transit, connections are registered with
  and removed from the exchange, and a read is outstanding from the effect that starts it to its
  completion. The network of the theory \<open>Network\<close> is an abstraction of it.
\<close>

subsection \<open>The signal handler\<close>

text \<open>
  Whether the context was stopped, and whether the wait for a signal is outstanding: the
  handler does not wait again.
\<close>

record io_context =
  ctx_stopped :: bool
  ctx_signal_wait :: bool

definition SignalSet_start :: io_context where
  "SignalSet_start = \<lparr>ctx_stopped = False, ctx_signal_wait = True\<rparr>"

definition SignalSet_on_wait :: "error_code \<Rightarrow> io_context \<Rightarrow> io_context" where
  "SignalSet_on_wait ec context = (case ec of
     Some e \<Rightarrow> context\<lparr>ctx_signal_wait := False\<rparr>
   | None \<Rightarrow> context\<lparr>ctx_signal_wait := False, ctx_stopped := True\<rparr>)"

subsection \<open>The running gateway\<close>

text \<open>
  \<open>lv_slaves\<close> holds the connections and the serial slaves by the id the exchange knows them
  under; the tables of the servers hold the ids of their connections. \<open>lv_mail\<close> are the
  messages in transit with their destination, \<open>lv_reading\<close> the actors with a read outstanding,
  \<open>lv_wire\<close> the frames whose writes were started so far, in order, each with the actor that
  writes it.
\<close>

record ('b, 't) live =
  lv_masters :: "(actor_id \<times> ('b, 't) master_actor) list"
  lv_servers :: "(actor_id \<times> unit tcp_server) list"
  lv_slaves :: "actor_id \<Rightarrow> 't slave_node option"
  lv_router :: router
  lv_mail :: "(actor_id \<times> ('b, 't) message) list"
  lv_reading :: "actor_id set"
  lv_wire :: "(actor_id \<times> 'b) list"
  lv_context :: io_context

text \<open>A connection as the server creates it and the exchange registers it.\<close>

definition new_connection :: "actor_id \<Rightarrow> actor_id \<Rightarrow> router \<Rightarrow> actor_id \<Rightarrow> 't slave_node" where
  "new_connection defaultId serverId router clientId =
     Connection_node (TcpConnection_SetId clientId (ModbusTcpConnection defaultId serverId router))"

text \<open>
  The effects of a handler of actor \<open>who\<close>. The \<^verbatim>\<open>Start\<close> of a new connection starts
  its first read.
\<close>

fun apply_effects :: "actor_id \<Rightarrow> actor_id \<Rightarrow> ('b, 't) effect list \<Rightarrow> ('b, 't) live \<Rightarrow> ('b, 't) live" where
  "apply_effects defaultId who [] G = G"
| "apply_effects defaultId who (Exchange_send a m # os) G =
     apply_effects defaultId who os (G\<lparr>lv_mail := lv_mail G @ [(a, m)]\<rparr>)"
| "apply_effects defaultId who (Exchange_add a # os) G =
     apply_effects defaultId who os
       (G\<lparr>lv_slaves := (lv_slaves G)(a \<mapsto> new_connection defaultId who (lv_router G) a)\<rparr>)"
| "apply_effects defaultId who (Exchange_delete a # os) G =
     apply_effects defaultId who os
       (G\<lparr>lv_slaves := (lv_slaves G)(a := None), lv_reading := lv_reading G - {a}\<rparr>)"
| "apply_effects defaultId who (Client_start a # os) G =
     apply_effects defaultId who os (G\<lparr>lv_reading := insert a (lv_reading G)\<rparr>)"
| "apply_effects defaultId who (Async_receive f # os) G =
     apply_effects defaultId who os (G\<lparr>lv_reading := insert who (lv_reading G)\<rparr>)"
| "apply_effects defaultId who (Async_send b # os) G =
     apply_effects defaultId who os (G\<lparr>lv_wire := lv_wire G @ [(who, b)]\<rparr>)"
| "apply_effects defaultId who (_ # os) G = apply_effects defaultId who os G"

text \<open>Ids the exchange may hand out.\<close>

definition free_id :: "actor_id \<Rightarrow> ('b, 't) live \<Rightarrow> actor_id \<Rightarrow> bool" where
  "free_id defaultId G a \<longleftrightarrow> a \<noteq> defaultId \<and> lv_slaves G a = None \<and>
     a \<notin> fst ` set (lv_masters G) \<and> a \<notin> fst ` set (lv_servers G)"

subsection \<open>Steps\<close>

text \<open>
  The completion of an accept (with what \<open>TcpServer_on_accept\<close> asks of it), of a read and of a
  write of a slave-side actor, of an operation of a master, the delivery of the \<open>n\<close>-th message in
  transit, and the completion of the wait for a signal. An event that does not apply (no such
  actor, no read outstanding, an id that is taken) is skipped.
\<close>

datatype ('b, 't) gateway_event =
    Accepted actor_id error_code bool bool actor_id
  | Received actor_id chrono_rep error_code 'b nat
  | Written actor_id error_code
  | Master_completed actor_id "('b, 't) master_event"
  | Delivered chrono_rep nat
  | Signalled error_code

definition node_received :: "'t slave_node \<Rightarrow> chrono_rep \<Rightarrow> error_code \<Rightarrow> 'b \<Rightarrow> nat \<Rightarrow> ('b, 't) slave_event" where
  "node_received n now ec buffer sz = (case n of
     Connection_node c \<Rightarrow> Connection_event (Conn_receive True now ec buffer sz)
   | Serial_slave_node s \<Rightarrow> Serial_slave_event (Slave_read True now ec buffer sz))"

definition node_written :: "'t slave_node \<Rightarrow> error_code \<Rightarrow> ('b, 't) slave_event" where
  "node_written n ec = (case n of Connection_node c \<Rightarrow> Connection_event (Conn_sent ec)
   | Serial_slave_node s \<Rightarrow> Serial_slave_event (Slave_written ec))"

definition node_message :: "'t slave_node \<Rightarrow> ('b, 't) message \<Rightarrow> ('b, 't) slave_event" where
  "node_message n m = (case n of Connection_node c \<Rightarrow> Connection_event (Conn_message m)
   | Serial_slave_node s \<Rightarrow> Serial_slave_event (Slave_message m))"

definition actor_message :: "chrono_rep \<Rightarrow> ('b, 't) master_actor \<Rightarrow> ('b, 't) message \<Rightarrow> ('b, 't) master_event" where
  "actor_message now s m = (case s of RtuActor x \<Rightarrow> Serial_master_event (Master_message now m)
   | ClientActor x \<Rightarrow> Client_event (Client_message now m))"

text \<open>The completions of a master's operations; the exchange is alive while the loop runs.\<close>

fun master_completion :: "('b, 't) master_event \<Rightarrow> bool" where
  "master_completion (Serial_master_event (Master_written ec)) = True"
| "master_completion (Serial_master_event (Master_waited ec)) = True"
| "master_completion (Serial_master_event (Master_read exch now ec buffer sz)) = exch"
| "master_completion (Client_event (Client_connected now ec known)) = True"
| "master_completion (Client_event (Client_sent ec is_open)) = True"
| "master_completion (Client_event (Client_waited ec)) = True"
| "master_completion (Client_event (Client_received exch now ec is_open buffer sz)) = exch"
| "master_completion _ = False"

definition slave_acts_live :: "('b, 'u::len word, 't::len word) modbus_lib \<Rightarrow> actor_id \<Rightarrow> actor_id \<Rightarrow>
    't word slave_node \<Rightarrow> ('b, 't word) slave_event \<Rightarrow> ('b, 't word) live \<Rightarrow> ('b, 't word) live outcome" where
  "slave_acts_live L defaultId a n e G =
     and_then (slave_step L defaultId n e) (\<lambda>(n', os).
     Done (apply_effects defaultId a os (G\<lparr>lv_slaves := (lv_slaves G)(a \<mapsto> n')\<rparr>)))"

definition master_acts_live :: "('b, 'u, 't::len word) modbus_lib \<Rightarrow> actor_id \<Rightarrow> actor_id \<Rightarrow>
    ('b, 't word) master_actor \<Rightarrow> ('b, 't word) master_event \<Rightarrow> ('b, 't word) live \<Rightarrow> ('b, 't word) live outcome" where
  "master_acts_live L defaultId r s e G =
     and_then (master_step L defaultId s e) (\<lambda>(s', os).
     Done (apply_effects defaultId r os (G\<lparr>lv_masters := AList.update r s' (lv_masters G)\<rparr>)))"

definition server_acts_live :: "actor_id \<Rightarrow> actor_id \<Rightarrow> unit tcp_server \<Rightarrow> ('b, 't, unit) server_event \<Rightarrow>
    ('b, 't) live \<Rightarrow> ('b, 't) live outcome" where
  "server_acts_live defaultId v s e G =
     and_then (TcpServer_step defaultId s e) (\<lambda>(s', os).
     Done (apply_effects defaultId v os (G\<lparr>lv_servers := AList.update v s' (lv_servers G)\<rparr>)))"

definition deliver :: "('b, 'u::len word, 't::len word) modbus_lib \<Rightarrow> actor_id \<Rightarrow> chrono_rep \<Rightarrow>
    actor_id \<times> ('b, 't word) message \<Rightarrow> ('b, 't word) live \<Rightarrow> ('b, 't word) live outcome" where
  "deliver L defaultId now letter G = (case letter of (a, m) \<Rightarrow>
     (case map_of (lv_masters G) a of
        Some s \<Rightarrow> master_acts_live L defaultId a s (actor_message now s m) G
      | None \<Rightarrow> (case map_of (lv_servers G) a of
          Some s \<Rightarrow> server_acts_live defaultId a s (Server_message m) G
        | None \<Rightarrow> (case lv_slaves G a of
            Some n \<Rightarrow> slave_acts_live L defaultId a n (node_message n m) G
          | None \<Rightarrow> Done G))))"

fun gateway_step :: "('b, 'u::len word, 't::len word) modbus_lib \<Rightarrow> actor_id \<Rightarrow> ('b, 't word) live \<Rightarrow>
    ('b, 't word) gateway_event \<Rightarrow> ('b, 't word) live outcome" where
  "gateway_step L defaultId G (Accepted v ec peer started clientId) =
     (case map_of (lv_servers G) v of
        Some s \<Rightarrow> if free_id defaultId G clientId
          then server_acts_live defaultId v s (Server_accept ec peer started clientId ()) G else Done G
      | None \<Rightarrow> Done G)"
| "gateway_step L defaultId G (Received a now ec buffer sz) =
     (case lv_slaves G a of
        Some n \<Rightarrow> if a \<in> lv_reading G
          then slave_acts_live L defaultId a n (node_received n now ec buffer sz)
                 (G\<lparr>lv_reading := lv_reading G - {a}\<rparr>) else Done G
      | None \<Rightarrow> Done G)"
| "gateway_step L defaultId G (Written a ec) =
     (case lv_slaves G a of
        Some n \<Rightarrow> slave_acts_live L defaultId a n (node_written n ec) G
      | None \<Rightarrow> Done G)"
| "gateway_step L defaultId G (Master_completed r e) =
     (case map_of (lv_masters G) r of
        Some s \<Rightarrow> if master_completion e \<and> event_fits s e
          then master_acts_live L defaultId r s e G else Done G
      | None \<Rightarrow> Done G)"
| "gateway_step L defaultId G (Delivered now i) =
     (if i < length (lv_mail G)
      then deliver L defaultId now (lv_mail G ! i)
             (G\<lparr>lv_mail := take i (lv_mail G) @ drop (Suc i) (lv_mail G)\<rparr>)
      else Done G)"
| "gateway_step L defaultId G (Signalled ec) =
     (if ctx_signal_wait (lv_context G)
      then Done (G\<lparr>lv_context := SignalSet_on_wait ec (lv_context G)\<rparr>) else Done G)"

subsection \<open>The loop\<close>

text \<open>
  How far \<^verbatim>\<open>context->run()\<close> gets over a list of completions: it waits for more
  (the work guard keeps it from returning), it returned because the context was stopped, an
  exception left it, or a handler was undefined.
\<close>

datatype 's loop_end = Waiting 's | Returned 's | Escaped | Crashed

fun event_loop :: "('b, 'u::len word, 't::len word) modbus_lib \<Rightarrow> actor_id \<Rightarrow> ('b, 't word) live \<Rightarrow>
    ('b, 't word) gateway_event list \<Rightarrow> ('b, 't word) live loop_end" where
  "event_loop L defaultId G events =
     (if ctx_stopped (lv_context G) then Returned G
      else case events of [] \<Rightarrow> Waiting G
        | e # es \<Rightarrow> (case gateway_step L defaultId G e of
            Done G' \<Rightarrow> event_loop L defaultId G' es | Throws \<Rightarrow> Escaped | Undefined \<Rightarrow> Crashed))"

declare event_loop.simps [simp del]

lemma event_loop_simps [simp]:
  "event_loop L d G [] = (if ctx_stopped (lv_context G) then Returned G else Waiting G)"
  "event_loop L d G (e # es) = (if ctx_stopped (lv_context G) then Returned G
     else case gateway_step L d G e of
       Done G' \<Rightarrow> event_loop L d G' es | Throws \<Rightarrow> Escaped | Undefined \<Rightarrow> Crashed)"
  by (simp_all add: event_loop.simps)

text \<open>The state the loop starts from, and what \<^verbatim>\<open>ModbusGateway\<close> sees of the loop.\<close>

definition serial_lines :: "('a, 'u, 'p, 't) gw_slave list \<Rightarrow> (actor_id \<times> 't slave_node) list" where
  "serial_lines ss = concat (map (\<lambda>s. case gs_actor s of
     SlaveActor x \<Rightarrow> [(RtuSlave_GetId x, Serial_slave_node x)] | ServerActor x \<Rightarrow> []) ss)"

definition servers_of :: "('a, 'u, 'p, 't) gw_slave list \<Rightarrow> (actor_id \<times> 'p tcp_server) list" where
  "servers_of ss = concat (map (\<lambda>s. case gs_actor s of
     ServerActor x \<Rightarrow> [(TcpServer_GetId x, x)] | SlaveActor x \<Rightarrow> []) ss)"

definition live_of :: "('a, 'u, 'b, unit, 't) gateway \<Rightarrow> ('b, 't) live" where
  "live_of g = \<lparr>lv_masters = map (\<lambda>m. (master_GetId (gm_actor m), gm_actor m)) (gw_masters g),
     lv_servers = servers_of (gw_slaves g), lv_slaves = map_of (serial_lines (gw_slaves g)),
     lv_router = gw_router g, lv_mail = [], lv_reading = fst ` set (serial_lines (gw_slaves g)),
     lv_wire = [], lv_context = SignalSet_start\<rparr>"

definition context_run :: "('b, 'u::len word, 't::len word) modbus_lib \<Rightarrow> actor_id \<Rightarrow> ('b, 't word) gateway_event list \<Rightarrow>
    ('a, 'u word, 'b, unit, 't word) gateway \<Rightarrow> unit startup" where
  "context_run L defaultId events g = (case event_loop L defaultId (live_of g) events of
     Waiting G \<Rightarrow> Hangs | Returned G \<Rightarrow> Ok () | Escaped \<Rightarrow> Raised LibraryError | Crashed \<Rightarrow> Broken)"

end
