(* ===== verification/Loop_Steps.thy ===== *)
theory Loop_Steps
  imports Event_Loop
begin

text \<open>
  What the steps of the running gateway preserve: each is a step of the network or none
  (\<open>gateway_step_simulates\<close>), and the servers own and watch exactly the connections the
  exchange knows (\<open>gateway_step_inv\<close>).
\<close>

subsection \<open>The effects of a handler\<close>

lemma apply_effects_frame [simp]:
  "lv_masters (apply_effects d w os G) = lv_masters G" "lv_servers (apply_effects d w os G) = lv_servers G"
  "lv_router (apply_effects d w os G) = lv_router G" "lv_context (apply_effects d w os G) = lv_context G"
  by (induction d w os G rule: apply_effects.induct) simp_all

text \<open>The letters a list of effects sends, and the Modbus messages among letters.\<close>

fun letters :: "('b, 't) effect list \<Rightarrow> (actor_id \<times> ('b, 't) message) list" where
  "letters [] = []"
| "letters (Exchange_send a m # os) = (a, m) # letters os"
| "letters (_ # os) = letters os"

fun modbus_part :: "(actor_id \<times> ('b, 't) message) list \<Rightarrow> (actor_id \<times> ('b, 't) modbus_message) list" where
  "modbus_part [] = []"
| "modbus_part ((a, ModbusMsg m) # xs) = (a, m) # modbus_part xs"
| "modbus_part (_ # xs) = modbus_part xs"

lemma modbus_part_append [simp]: "modbus_part (xs @ ys) = modbus_part xs @ modbus_part ys"
  by (induction xs rule: modbus_part.induct) auto

lemma letters_append [simp]: "letters (xs @ ys) = letters xs @ letters ys"
  by (induction xs rule: letters.induct) auto

lemma modbus_part_letters: "modbus_part (letters os) = sends os"
  by (induction os rule: sends.induct) auto

lemma apply_effects_mail: "lv_mail (apply_effects d w os G) = lv_mail G @ letters os"
  by (induction d w os G rule: apply_effects.induct) simp_all

text \<open>Only the server registers and removes actors, and starts them.\<close>

fun registers :: "('b, 't) effect \<Rightarrow> bool" where
  "registers (Exchange_add a) = True"
| "registers (Exchange_delete a) = True"
| "registers (Client_start a) = True"
| "registers _ = False"

lemma apply_effects_slaves:
  "list_all (\<lambda>e. \<not> registers e) os \<Longrightarrow> lv_slaves (apply_effects d w os G) = lv_slaves G"
  by (induction d w os G rule: apply_effects.induct) simp_all

lemma apply_effects_reading:
  "list_all (\<lambda>e. \<not> registers e) os \<Longrightarrow> lv_reading (apply_effects d w os G) =
    lv_reading G \<union> (if \<exists>f. Async_receive f \<in> set os then {w} else {})"
  by (induction d w os G rule: apply_effects.induct) auto

lemma slave_step_registers:
  assumes "slave_step L d n e = Done (n', os)"
  shows "list_all (\<lambda>e. \<not> registers e) os"
proof (cases "(L, d, n, e)" rule: slave_step.cases)
  case (1 L' d' c e')
  with assms show ?thesis
    by (cases e') (auto simp: handler_defs step_simps Let_def and_then_Done_iff split: option.splits if_splits message.splits)
next
  case (2 L' d' c e')
  with assms show ?thesis
    by (cases e') (auto simp: handler_defs step_simps Let_def and_then_Done_iff split: option.splits if_splits message.splits)
qed (use assms in simp_all)

text \<open>Masters send only Modbus messages.\<close>

fun plain :: "('b, 't) effect \<Rightarrow> bool" where
  "plain (Exchange_send a (ModbusMsg m)) = True"
| "plain (Exchange_send a m) = False"
| "plain e = (\<not> registers e)"

lemma plain_letters: "list_all plain os \<Longrightarrow> letters os = map (\<lambda>(a, m). (a, ModbusMsg m)) (sends os)"
  by (induction os rule: sends.induct) simp_all

lemma plain_registers: "list_all plain os \<Longrightarrow> list_all (\<lambda>e. \<not> registers e) os"
proof -
  have "plain e \<Longrightarrow> \<not> registers e" for e :: "('a, 'b) effect" by (cases e rule: plain.cases) simp_all
  then show "list_all plain os \<Longrightarrow> list_all (\<lambda>e. \<not> registers e) os" by (auto simp: list_all_iff)
qed

lemma RtuMaster_QueueProcess_plain:
  "RtuMaster_QueueProcessUnsafe L now s = Done (s', os) \<Longrightarrow> list_all plain os"
  by (erule RtuMaster_QueueProcess_cases) simp_all

lemma TcpClient_QueueProcess_plain:
  "TcpClient_QueueProcessUnsafe L now s = Done (s', os) \<Longrightarrow> list_all plain os"
  by (erule TcpClient_QueueProcess_cases) simp_all

lemma RtuMaster_step_plain:
  assumes "RtuMaster_step L d s e = Done (s', os)"
  shows "list_all plain os"
proof (cases e)
  case (Master_message now m)
  with assms show ?thesis
    by (cases m) (auto simp: RtuMaster_Receive_def RtuMaster_MessageProcess_def intro: RtuMaster_QueueProcess_plain)
next
  case (Master_read exch now ec buffer sz)
  with assms show ?thesis
    by (auto simp: RtuMaster_on_read_def and_then_Done_iff Let_def
        dest!: RtuMaster_QueueProcess_plain split: if_splits option.splits prod.splits)
qed (use assms in \<open>auto simp: handler_defs split: option.splits\<close>)

lemma TcpClient_step_plain:
  assumes "TcpClient_step L d s e = Done (s', os)"
  shows "list_all plain os"
proof (cases e)
  case (Client_message now m)
  with assms show ?thesis
    by (cases m) (auto simp: TcpClient_Receive_def TcpClient_MessageProcess_def intro: TcpClient_QueueProcess_plain)
next
  case (Client_connected now ec known)
  with assms show ?thesis
    by (auto simp: TcpClient_on_connect_def Let_def intro: TcpClient_QueueProcess_plain split: option.splits if_splits)
next
  case (Client_received exch now ec is_open buffer sz)
  with assms have "TcpClient_on_receive L exch now ec is_open buffer sz s = Done (s', os)" by simp
  then show ?thesis
  proof (cases rule: TcpClient_on_receive_cases)
    case (failed e os1)
    then have "set os1 \<subseteq> {Io_shutdown, Io_close}" by (blast dest: TcpClient_fail_None)
    then have "list_all plain os1" by (auto simp: list_all_iff)
    with failed show ?thesis by simp
  next
    case (reply r s1 os1)
    then show ?thesis by (auto dest: TcpClient_QueueProcess_plain split: option.splits)
  qed simp
qed (use assms in \<open>auto simp: handler_defs TcpClient_fail_def Let_def split: option.splits if_splits\<close>)

lemma master_step_plain:
  "master_step L d s e = Done (s', os) \<Longrightarrow> list_all plain os"
  by (cases "(L, d, s, e)" rule: master_step.cases)
    (auto simp: and_then_Done_iff dest: RtuMaster_step_plain TcpClient_step_plain)

subsection \<open>The network as an abstraction\<close>

definition abstracts :: "('b, 't) network \<Rightarrow> ('b, 't) live \<Rightarrow> bool" where
  "abstracts N G \<longleftrightarrow> net_masters N = lv_masters G \<and> net_slaves N = lv_slaves G \<and>
     net_mail N = mset (modbus_part (lv_mail G))"

lemma update_split:
  "map_of xs k = Some v \<Longrightarrow> \<exists>ys zs. xs = ys @ (k, v) # zs \<and> AList.update k w xs = ys @ (k, w) # zs"
proof (induction xs)
  case (Cons x xs)
  then show ?case
  proof (cases "fst x = k")
    case True
    with Cons.prems show ?thesis by (intro exI [of _ "[]"] exI [of _ xs]) (cases x, auto)
  next
    case False
    with Cons.prems obtain ys zs where "xs = ys @ (k, v) # zs" and "AList.update k w xs = ys @ (k, w) # zs"
      using Cons.IH by (cases x) auto
    with False show ?thesis by (intro exI [of _ "x # ys"] exI [of _ zs]) (cases x, auto)
  qed
qed simp

lemma update_known_keys:
  assumes "map_of xs k = Some v"
  shows "fst ` set (AList.update k w xs) = fst ` set xs"
proof -
  from update_split [OF assms, of w] obtain ys zs where
    a: "xs = ys @ (k, v) # zs" and b: "AList.update k w xs = ys @ (k, w) # zs" by blast
  show ?thesis unfolding b by (simp add: a)
qed

lemma update_same:
  assumes "map_of xs k = Some v"
  shows "AList.update k v xs = xs"
  using update_split [OF assms, of v] by auto

text \<open>The steps of one actor are steps of the network.\<close>

lemma slave_acts_simulates:
  assumes "slave_acts_live L d a n e G = Done G'" and "abstracts N G" and "lv_slaves G a = Some n" and "slave_local e"
  shows "\<exists>N'. net_step L d N N' \<and> abstracts N' G'"
proof -
  from assms(1) obtain n' os where step: "slave_step L d n e = Done (n', os)"
    and G': "G' = apply_effects d a os (G\<lparr>lv_slaves := (lv_slaves G)(a \<mapsto> n')\<rparr>)"
    by (auto simp: slave_acts_live_def and_then_Done_iff)
  from assms(2,3) have "net_slaves N a = Some n" by (simp add: abstracts_def)
  from slave_local [OF this assms(4) step] have "net_step L d N (slave_acts a n' os N)" .
  moreover have "abstracts (slave_acts a n' os N) G'"
    using assms(2) apply_effects_slaves [OF slave_step_registers [OF step]]
    by (simp add: abstracts_def G' slave_acts_def apply_effects_mail modbus_part_letters)
  ultimately show ?thesis by blast
qed

lemma master_acts_simulates:
  assumes "master_acts_live L d r s e G = Done G'" and "abstracts N G" and "map_of (lv_masters G) r = Some s"
    and "master_local e" and "event_fits s e"
  shows "\<exists>N'. net_step L d N N' \<and> abstracts N' G'"
proof -
  from assms(1) obtain s' os where step: "master_step L d s e = Done (s', os)"
    and G': "G' = apply_effects d r os (G\<lparr>lv_masters := AList.update r s' (lv_masters G)\<rparr>)"
    by (auto simp: master_acts_live_def and_then_Done_iff)
  from update_split [OF assms(3), of s'] obtain xs ys where
    split: "lv_masters G = xs @ (r, s) # ys" "AList.update r s' (lv_masters G) = xs @ (r, s') # ys" by blast
  with assms(2) have "net_masters N = xs @ (r, s) # ys" by (simp add: abstracts_def)
  from master_local [OF this assms(4,5) step] have "net_step L d N (master_acts (xs @ (r, s') # ys) os N)" .
  moreover have "abstracts (master_acts (xs @ (r, s') # ys) os N) G'"
    using assms(2) apply_effects_slaves [OF plain_registers [OF master_step_plain [OF step]]]
    by (simp add: abstracts_def G' master_acts_def apply_effects_mail modbus_part_letters split(2))
  ultimately show ?thesis by blast
qed

text \<open>A letter that is not a Modbus message means nothing to slave-side actors and masters.\<close>

lemma other_letter:
  assumes "\<forall>x. m \<noteq> ModbusMsg x"
  shows "slave_step L d n (node_message n m) = Done (n, [])"
    and "master_step L d s (actor_message now s m) = Done (s, [])"
proof -
  show "slave_step L d n (node_message n m) = Done (n, [])"
    using assms by (cases n; cases m) (auto simp: node_message_def handler_defs)
  show "master_step L d s (actor_message now s m) = Done (s, [])"
    using assms by (cases s; cases m) (auto simp: actor_message_def handler_defs)
qed

text \<open>Taking the letter at one place out of the mail.\<close>

lemma mail_without:
  assumes "i < length xs" and "xs ! i = (a, m)"
  shows "mset (modbus_part (take i xs @ drop (Suc i) xs)) =
    (case m of ModbusMsg x \<Rightarrow> mset (modbus_part xs) - {#(a, x)#} | _ \<Rightarrow> mset (modbus_part xs)) \<and>
    (\<forall>x. m = ModbusMsg x \<longrightarrow> (a, x) \<in># mset (modbus_part xs))"
proof -
  from assms have "xs = take i xs @ [(a, m)] @ drop (Suc i) xs" using id_take_nth_drop [OF assms(1)] by simp
  then have "modbus_part xs = modbus_part (take i xs) @ modbus_part [(a, m)] @ modbus_part (drop (Suc i) xs)"
    by (metis modbus_part_append)
  then show ?thesis by (cases m) simp_all
qed

text \<open>What the server does to the connections: it keeps its own, registers one or removes one.\<close>

lemma server_message_effects:
  assumes "server_acts_live d v s (Server_message m) G = Done G'"
  shows "lv_masters G' = lv_masters G \<and> lv_mail G' = lv_mail G \<and>
    lv_slaves G' = (case m of ClientDisconnectMessage a \<Rightarrow> (lv_slaves G)(a := None) | _ \<Rightarrow> lv_slaves G)"
  using assms
  by (cases m) (auto simp: server_acts_live_def TcpServer_defs and_then_Done_iff)

lemma deliver_simulates:
  assumes step: "deliver L d now (a, m) (G\<lparr>lv_mail := take i (lv_mail G) @ drop (Suc i) (lv_mail G)\<rparr>) = Done G'"
    and abs: "abstracts N G" and i: "i < length (lv_mail G)" "lv_mail G ! i = (a, m)"
  shows "\<exists>N'. rtranclp (net_step L d) N N' \<and> abstracts N' G'"
proof (cases "\<exists>x. m = ModbusMsg x")
  case False
  let ?G = "G\<lparr>lv_mail := take i (lv_mail G) @ drop (Suc i) (lv_mail G)\<rparr>"
  have same: "abstracts N ?G"
    using abs mail_without [OF i] False by (cases m) (auto simp: abstracts_def)
  consider (master) s where "map_of (lv_masters G) a = Some s"
    | (server) s where "map_of (lv_masters G) a = None" "map_of (lv_servers G) a = Some s"
    | (slave) n where "map_of (lv_masters G) a = None" "map_of (lv_servers G) a = None" "lv_slaves G a = Some n"
    | (nobody) "map_of (lv_masters G) a = None" "map_of (lv_servers G) a = None" "lv_slaves G a = None"
    by (metis option.exhaust)
  then show ?thesis
  proof cases
    case (master s)
    then have "G' = ?G" using step False update_same [OF master]
      by (cases G) (simp add: deliver_def master_acts_live_def other_letter)
    with same show ?thesis by blast
  next
    case (server s)
    then have "server_acts_live d a s (Server_message m) ?G = Done G'" using step by (simp add: deliver_def)
    from server_message_effects [OF this] have G': "lv_masters G' = lv_masters G" "lv_mail G' = lv_mail ?G"
      "lv_slaves G' = (case m of ClientDisconnectMessage b \<Rightarrow> (lv_slaves G)(b := None) | _ \<Rightarrow> lv_slaves G)"
      by (auto split: message.split)
    show ?thesis
    proof (cases m)
      case (ClientDisconnectMessage b)
      then have "abstracts (N\<lparr>net_slaves := (net_slaves N)(b := None)\<rparr>) G'"
        using same G' by (simp add: abstracts_def)
      then show ?thesis using leave r_into_rtranclp by metis
    next
      case OtherMessage
      then have "abstracts N G'" using same G' by (simp add: abstracts_def)
      then show ?thesis by blast
    qed (use False in blast)
  next
    case (slave n)
    then have "G' = ?G" using step False
      by (cases G) (simp add: deliver_def slave_acts_live_def other_letter fun_upd_idem)
    with same show ?thesis by blast
  next
    case nobody
    then have "G' = ?G" using step by (simp add: deliver_def)
    with same show ?thesis by blast
  qed
next
  case True
  then obtain x where m: "m = ModbusMsg x" by blast
  let ?G = "G\<lparr>lv_mail := take i (lv_mail G) @ drop (Suc i) (lv_mail G)\<rparr>"
  from mail_without [OF i] m have mail: "mset (modbus_part (lv_mail ?G)) = mset (modbus_part (lv_mail G)) - {#(a, x)#}"
    and "(a, x) \<in># mset (modbus_part (lv_mail G))" by simp_all
  with abs have sent: "(a, x) \<in># net_mail N" by (simp add: abstracts_def)
  have lost: "abstracts (take_mail a x N) ?G"
    using abs mail by (simp add: abstracts_def) (simp add: take_mail_def)
  consider (master) s where "map_of (lv_masters G) a = Some s"
    | (server) s where "map_of (lv_masters G) a = None" "map_of (lv_servers G) a = Some s"
    | (slave) n where "map_of (lv_masters G) a = None" "map_of (lv_servers G) a = None" "lv_slaves G a = Some n"
    | (nobody) "map_of (lv_masters G) a = None" "map_of (lv_servers G) a = None" "lv_slaves G a = None"
    by (metis option.exhaust)
  then show ?thesis
  proof cases
    case (master s)
    have "actor_message now s m = master_message now s x"
      by (cases s) (simp_all add: actor_message_def master_message_def m)
    with step master obtain s' os where act: "master_step L d s (master_message now s x) = Done (s', os)"
      and G': "G' = apply_effects d a os (?G\<lparr>lv_masters := AList.update a s' (lv_masters G)\<rparr>)"
      by (auto simp: deliver_def master_acts_live_def and_then_Done_iff)
    from update_split [OF master, of s'] obtain xs ys where
      split: "lv_masters G = xs @ (a, s) # ys" "AList.update a s' (lv_masters G) = xs @ (a, s') # ys" by blast
    with abs have "net_masters N = xs @ (a, s) # ys" by (simp add: abstracts_def)
    from master_receives [OF this sent act] have "net_step L d N (master_acts (xs @ (a, s') # ys) os (take_mail a x N))" .
    moreover have "abstracts (master_acts (xs @ (a, s') # ys) os (take_mail a x N)) G'"
      using lost apply_effects_slaves [OF plain_registers [OF master_step_plain [OF act]]]
      by (simp add: abstracts_def G' master_acts_def apply_effects_mail modbus_part_letters split(2))
    ultimately show ?thesis using r_into_rtranclp by metis
  next
    case (server s)
    then have "server_acts_live d a s (Server_message m) ?G = Done G'" using step by (simp add: deliver_def)
    from server_message_effects [OF this] have "abstracts (take_mail a x N) G'"
      using lost by (simp add: abstracts_def m)
    then show ?thesis using lose [OF sent] r_into_rtranclp by metis
  next
    case (slave n)
    have "node_message n m = slave_message n x"
      by (cases n) (simp_all add: node_message_def slave_message_def m)
    with step slave obtain n' os where act: "slave_step L d n (slave_message n x) = Done (n', os)"
      and G': "G' = apply_effects d a os (?G\<lparr>lv_slaves := (lv_slaves G)(a \<mapsto> n')\<rparr>)"
      by (auto simp: deliver_def slave_acts_live_def and_then_Done_iff)
    from abs slave have "net_slaves N a = Some n" by (simp add: abstracts_def)
    from slave_receives [OF this sent act] have "net_step L d N (slave_acts a n' os (deliver_to_slave a x N))" .
    moreover have "abstracts (slave_acts a n' os (deliver_to_slave a x N)) G'"
      using lost apply_effects_slaves [OF slave_step_registers [OF act]]
      by (simp add: abstracts_def G' slave_acts_def deliver_to_slave_def apply_effects_mail modbus_part_letters)
    ultimately show ?thesis using r_into_rtranclp by metis
  next
    case nobody
    then have "G' = ?G" using step by (simp add: deliver_def)
    with lost show ?thesis using lose [OF sent] r_into_rtranclp by metis
  qed
qed

text \<open>The completion of an accept.\<close>

lemma server_accept_effects:
  assumes "server_acts_live d v s (Server_accept ec peer started clientId ()) G = Done G'"
  obtains (none) "G' = G\<lparr>lv_servers := AList.update v s (lv_servers G)\<rparr>"
  | (client) "G' = G\<lparr>lv_servers := AList.update v
        (s\<lparr>srv_clientDb := AList.update clientId () (srv_clientDb s)\<rparr>) (lv_servers G),
      lv_slaves := (lv_slaves G)(clientId \<mapsto> new_connection d v (lv_router G) clientId),
      lv_reading := insert clientId (lv_reading G)\<rparr>"
  using assms
  by (auto simp: server_acts_live_def TcpServer_defs and_then_Done_iff Let_def split: option.splits if_splits)

lemma new_connection_simps [simp]:
  "slave_id (new_connection d v r a) = a" "slave_router (new_connection d v r a) = r"
  by (simp_all add: new_connection_def TcpConnection_SetId_def ModbusTcpConnection_def)

lemma node_events_local [simp]:
  "slave_local (node_received n now ec buffer sz)" "slave_local (node_written n ec)"
  by (cases n; simp add: node_received_def node_written_def)+

lemma master_completion_local: "master_completion e \<Longrightarrow> master_local e"
  by (cases e rule: master_completion.cases) simp_all

lemma abstracts_update [simp]:
  "abstracts N (G\<lparr>lv_reading := R\<rparr>) = abstracts N G" "abstracts N (G\<lparr>lv_context := c\<rparr>) = abstracts N G"
  "abstracts N (G\<lparr>lv_servers := vs\<rparr>) = abstracts N G"
  by (simp_all add: abstracts_def)

text \<open>Every step of the gateway is a step of the network, or none.\<close>

lemma gateway_step_simulates:
  fixes L :: "('b, 'u::len word, 't::len word) modbus_lib"
  assumes step: "gateway_step L d G e = Done G'" and abs: "abstracts N G"
    and routes: "routes_to_masters TYPE('u word) d (fst ` set (lv_masters G)) (lv_router G)"
  shows "\<exists>N'. rtranclp (net_step L d) N N' \<and> abstracts N' G'"
proof (cases e)
  case (Accepted v ec peer started clientId)
  show ?thesis
  proof (cases "\<exists>s. map_of (lv_servers G) v = Some s \<and> free_id d G clientId")
    case True
    then obtain s where "server_acts_live d v s (Server_accept ec peer started clientId ()) G = Done G'"
      and free: "free_id d G clientId"
      using step Accepted by auto
    from this(1) show ?thesis
    proof (cases rule: server_accept_effects)
      case none
      with abs have "abstracts N G'" by simp
      then show ?thesis by blast
    next
      case client
      from free abs routes have "may_join TYPE('u word) d N clientId (new_connection d v (lv_router G) clientId)"
        by (simp add: may_join_def free_id_def abstracts_def master_ids_def)
      from join [OF this] have "net_step L d N
          (N\<lparr>net_slaves := (net_slaves N)(clientId \<mapsto> new_connection d v (lv_router G) clientId)\<rparr>)" .
      moreover have "abstracts (N\<lparr>net_slaves := (net_slaves N)(clientId \<mapsto> new_connection d v (lv_router G) clientId)\<rparr>) G'"
        using abs by (simp add: abstracts_def client)
      ultimately show ?thesis using r_into_rtranclp by metis
    qed
  next
    case False
    with step Accepted have "G' = G" by (auto split: option.splits)
    with abs show ?thesis by blast
  qed
next
  case (Received a now ec buffer sz)
  show ?thesis
  proof (cases "\<exists>n. lv_slaves G a = Some n \<and> a \<in> lv_reading G")
    case True
    then obtain n where n: "lv_slaves G a = Some n"
      and "slave_acts_live L d a n (node_received n now ec buffer sz) (G\<lparr>lv_reading := lv_reading G - {a}\<rparr>) = Done G'"
      using step Received by auto
    from slave_acts_simulates [OF this(2), of N] abs n show ?thesis by (auto intro: r_into_rtranclp)
  next
    case False
    with step Received have "G' = G" by (auto split: option.splits)
    with abs show ?thesis by blast
  qed
next
  case (Written a ec)
  show ?thesis
  proof (cases "lv_slaves G a")
    case None
    with step Written abs show ?thesis by auto
  next
    case (Some n)
    with step Written have "slave_acts_live L d a n (node_written n ec) G = Done G'" by simp
    from slave_acts_simulates [OF this abs Some] show ?thesis by (auto intro: r_into_rtranclp)
  qed
next
  case (Master_completed r ev)
  show ?thesis
  proof (cases "\<exists>s. map_of (lv_masters G) r = Some s \<and> master_completion ev \<and> event_fits s ev")
    case True
    then obtain s where s: "map_of (lv_masters G) r = Some s" "master_completion ev" "event_fits s ev" by blast
    with step Master_completed have "master_acts_live L d r s ev G = Done G'" by simp
    from master_acts_simulates [OF this abs s(1) master_completion_local [OF s(2)] s(3)]
    show ?thesis by (auto intro: r_into_rtranclp)
  next
    case False
    with step Master_completed have "G' = G" by (auto split: option.splits if_splits)
    with abs show ?thesis by blast
  qed
next
  case (Delivered now i)
  show ?thesis
  proof (cases "i < length (lv_mail G)")
    case True
    obtain a m where letter: "lv_mail G ! i = (a, m)" by fastforce
    with step Delivered True have "deliver L d now (a, m)
        (G\<lparr>lv_mail := take i (lv_mail G) @ drop (Suc i) (lv_mail G)\<rparr>) = Done G'" by simp
    from deliver_simulates [OF this abs True letter] show ?thesis .
  next
    case False
    with step Delivered abs show ?thesis by auto
  qed
next
  case (Signalled ec)
  with step abs have "abstracts N G'" by (auto split: if_splits)
  then show ?thesis by blast
qed

subsection \<open>Who owns and watches a connection\<close>

text \<open>The destinations of the letters in transit that say that connection \<open>a\<close> is gone.\<close>

definition notices :: "actor_id \<Rightarrow> (actor_id \<times> ('b, 't) message) list \<Rightarrow> actor_id list" where
  "notices a xs = map fst (filter (\<lambda>(v, m). m = ClientDisconnectMessage a) xs)"

lemma notices_simps [simp]:
  "notices a [] = []" "notices a (xs @ ys) = notices a xs @ notices a ys"
  "notices a ((v, m) # xs) = (if m = ClientDisconnectMessage a then v # notices a xs else notices a xs)"
  by (simp_all add: notices_def)

text \<open>The server of a connection; serial slaves have none.\<close>

fun node_server :: "'t slave_node \<Rightarrow> actor_id option" where
  "node_server (Connection_node c) = Some (conn_serverId c)"
| "node_server (Serial_slave_node s) = None"

fun the_list :: "'a option \<Rightarrow> 'a list" where
  "the_list None = []"
| "the_list (Some x) = [x]"

text \<open>
  A connection the exchange knows either reads or its removal is in transit to its server, once;
  no letter announces the end of a connection that does not exist.
\<close>

definition watched :: "('b, 't) live \<Rightarrow> actor_id \<Rightarrow> bool" where
  "watched G a \<longleftrightarrow> notices a (lv_mail G) = (case lv_slaves G a of
     Some n \<Rightarrow> if a \<in> lv_reading G then [] else the_list (node_server n) | None \<Rightarrow> [])"

text \<open>A connection is in the table of its server, and a server's table has only its connections.\<close>

definition owned :: "('b, 't) live \<Rightarrow> bool" where
  "owned G \<longleftrightarrow> (\<forall>a v. (\<exists>n. lv_slaves G a = Some n \<and> node_server n = Some v) \<longleftrightarrow>
     (\<exists>s. map_of (lv_servers G) v = Some s \<and> a \<in> srv_clients s))"

text \<open>Every actor is known under its own id, and every slave-side actor has the routing table.\<close>

definition named :: "'u::len word itself \<Rightarrow> actor_id \<Rightarrow> ('b, 't) live \<Rightarrow> bool" where
  "named T d G \<longleftrightarrow> table_typed TYPE('u word) d (fst ` set (lv_masters G)) (lv_router G) \<and>
     fst ` set (lv_servers G) \<inter> fst ` set (lv_masters G) = {} \<and>
     (\<forall>a n. lv_slaves G a = Some n \<longrightarrow> slave_id n = a \<and> slave_router n = lv_router G \<and>
        a \<noteq> d \<and> a \<notin> fst ` set (lv_masters G) \<and> a \<notin> fst ` set (lv_servers G))"

definition live_inv :: "'u::len word itself \<Rightarrow> actor_id \<Rightarrow> ('b, 't) live \<Rightarrow> bool" where
  "live_inv T d G \<longleftrightarrow> named T d G \<and> owned G \<and> (\<forall>a. watched G a)"

lemma new_connection_server [simp]: "node_server (new_connection d v r a) = Some v"
  by (simp add: new_connection_def TcpConnection_SetId_def ModbusTcpConnection_def)

text \<open>
  A completed read either starts the next one or tells the server; the other handlers of a
  slave-side actor do neither.
\<close>

lemma node_received_step:
  assumes "slave_step L d n (node_received n now ec buffer sz) = Done (n', os)"
  shows "slave_id n' = slave_id n \<and> slave_router n' = slave_router n \<and> node_server n' = node_server n"
    and "notices b (letters os) = (if (\<exists>f. Async_receive f \<in> set os) \<or> b \<noteq> slave_id n then []
      else the_list (node_server n))"
proof -
  have "slave_id n' = slave_id n \<and> slave_router n' = slave_router n \<and> node_server n' = node_server n \<and>
    notices b (letters os) = (if (\<exists>f. Async_receive f \<in> set os) \<or> b \<noteq> slave_id n then []
      else the_list (node_server n))"
  proof (cases n)
    case (Connection_node c)
    with assms show ?thesis
      by (auto simp: node_received_def TcpConnection_defs step_simps Let_def and_then_Done_iff
          split: option.splits if_splits)
  next
    case (Serial_slave_node s)
    with assms show ?thesis
      by (auto simp: node_received_def RtuSlave_defs step_simps Let_def and_then_Done_iff
          split: option.splits if_splits)
  qed
  then show "slave_id n' = slave_id n \<and> slave_router n' = slave_router n \<and> node_server n' = node_server n"
    and "notices b (letters os) = (if (\<exists>f. Async_receive f \<in> set os) \<or> b \<noteq> slave_id n then []
      else the_list (node_server n))" by blast+
qed

lemma node_other_step:
  assumes "slave_step L d n e = Done (n', os)" and "e = node_written n ec \<or> e = node_message n m"
  shows "slave_id n' = slave_id n \<and> slave_router n' = slave_router n \<and> node_server n' = node_server n \<and>
    letters os = [] \<and> (\<forall>f. Async_receive f \<notin> set os)"
proof (cases n)
  case (Connection_node c)
  with assms show ?thesis
    by (auto simp: node_written_def node_message_def TcpConnection_defs step_simps Let_def
        split: option.splits if_splits message.splits)
next
  case (Serial_slave_node s)
  with assms show ?thesis
    by (auto simp: node_written_def node_message_def RtuSlave_defs step_simps Let_def
        split: option.splits if_splits message.splits)
qed

lemma named_slave:
  assumes "named T d G" and "lv_slaves G a = Some n" and "slave_id n' = slave_id n" "slave_router n' = slave_router n"
    and "lv_slaves G' = (lv_slaves G)(a \<mapsto> n')" "lv_masters G' = lv_masters G" "lv_servers G' = lv_servers G"
    "lv_router G' = lv_router G"
  shows "named T d G'"
  using assms by (auto simp: named_def)

lemma owned_slave:
  assumes "owned G" and "lv_slaves G a = Some n" and "node_server n' = node_server n"
    and "lv_slaves G' = (lv_slaves G)(a \<mapsto> n')" "lv_servers G' = lv_servers G"
  shows "owned G'"
proof -
  have "(\<exists>x. lv_slaves G' b = Some x \<and> node_server x = Some v) \<longleftrightarrow> (\<exists>x. lv_slaves G b = Some x \<and> node_server x = Some v)"
    for b v using assms(2-4) by (cases "b = a") auto
  with assms(1,5) show ?thesis by (simp add: owned_def)
qed

lemma slave_acts_inv:
  assumes inv: "live_inv T d G" and n: "lv_slaves G a = Some n" and "slave_acts_live L d a n e G = Done G'"
    and "e = node_written n ec \<or> e = node_message n m"
  shows "live_inv T d G'"
proof -
  from assms(3) obtain n' os where step: "slave_step L d n e = Done (n', os)"
    and G': "G' = apply_effects d a os (G\<lparr>lv_slaves := (lv_slaves G)(a \<mapsto> n')\<rparr>)"
    by (auto simp: slave_acts_live_def and_then_Done_iff)
  note kept = node_other_step [OF step assms(4)] and reg = slave_step_registers [OF step]
  have slaves: "lv_slaves G' = (lv_slaves G)(a \<mapsto> n')" and mail: "lv_mail G' = lv_mail G"
    and reading: "lv_reading G' = lv_reading G"
    using kept by (simp_all add: G' apply_effects_mail apply_effects_slaves [OF reg] apply_effects_reading [OF reg])
  have "named T d G'"
    by (rule named_slave [where G = G, OF _ n _ _ slaves]) (use inv kept in \<open>simp_all add: G' live_inv_def\<close>)
  moreover have "owned G'"
    by (rule owned_slave [where G = G, OF _ n _ slaves]) (use inv kept in \<open>simp_all add: G' live_inv_def\<close>)
  moreover have "watched G' b" for b
    using inv n kept by (auto simp: live_inv_def watched_def slaves mail reading split: option.splits)
  ultimately show ?thesis by (simp add: live_inv_def)
qed

lemma slave_reads_inv:
  assumes inv: "live_inv T d G" and n: "lv_slaves G a = Some n" and reads: "a \<in> lv_reading G"
    and "slave_acts_live L d a n (node_received n now ec buffer sz) (G\<lparr>lv_reading := lv_reading G - {a}\<rparr>) = Done G'"
  shows "live_inv T d G'"
proof -
  let ?G = "G\<lparr>lv_reading := lv_reading G - {a}\<rparr>"
  from assms(4) obtain n' os where step: "slave_step L d n (node_received n now ec buffer sz) = Done (n', os)"
    and G': "G' = apply_effects d a os (?G\<lparr>lv_slaves := (lv_slaves G)(a \<mapsto> n')\<rparr>)"
    by (auto simp: slave_acts_live_def and_then_Done_iff)
  note kept = node_received_step(1) [OF step] and reg = slave_step_registers [OF step]
    and told = node_received_step(2) [OF step]
  from inv n have id: "slave_id n = a" by (simp add: live_inv_def named_def)
  have slaves: "lv_slaves G' = (lv_slaves G)(a \<mapsto> n')" and mail: "lv_mail G' = lv_mail G @ letters os"
    and reading: "lv_reading G' = lv_reading G - {a} \<union> (if \<exists>f. Async_receive f \<in> set os then {a} else {})"
    by (simp_all add: G' apply_effects_mail apply_effects_slaves [OF reg] apply_effects_reading [OF reg])
  have "named T d G'"
    by (rule named_slave [where G = G, OF _ n _ _ slaves]) (use inv kept in \<open>simp_all add: G' live_inv_def\<close>)
  moreover have "owned G'"
    by (rule owned_slave [where G = G, OF _ n _ slaves]) (use inv kept in \<open>simp_all add: G' live_inv_def\<close>)
  moreover have "watched G' b" for b
  proof (cases "b = a")
    case True
    have "notices a (lv_mail G) = []" using inv n reads by (simp add: live_inv_def watched_def)
    with told [of a] show ?thesis using True id kept by (simp add: watched_def slaves mail reading)
  next
    case False
    with told [of b] inv id show ?thesis
      by (simp add: live_inv_def watched_def slaves mail reading split: option.split)
  qed
  ultimately show ?thesis by (simp add: live_inv_def)
qed

text \<open>A master sends no letter about connections, and registers nobody.\<close>

lemma notices_plain: "list_all plain os \<Longrightarrow> notices b (letters os) = []"
  by (simp add: plain_letters notices_def case_prod_unfold)

lemma master_acts_inv:
  assumes inv: "live_inv T d G" and known: "map_of (lv_masters G) r = Some s" and "master_acts_live L d r s e G = Done G'"
  shows "live_inv T d G'"
proof -
  from assms(3) obtain s' os where step: "master_step L d s e = Done (s', os)"
    and G': "G' = apply_effects d r os (G\<lparr>lv_masters := AList.update r s' (lv_masters G)\<rparr>)"
    by (auto simp: master_acts_live_def and_then_Done_iff)
  note pl = master_step_plain [OF step]
  note reg = plain_registers [OF pl]
  have keys: "fst ` set (lv_masters G') = fst ` set (lv_masters G)"
    using update_known_keys [OF known] by (simp add: G')
  have r: "r \<in> fst ` set (lv_masters G)" using known by (metis domI dom_map_of_conv_image_fst)
  have slaves: "lv_slaves G' = lv_slaves G" and mail: "lv_mail G' = lv_mail G @ letters os"
    and reading: "lv_reading G' \<subseteq> insert r (lv_reading G)" "lv_reading G \<subseteq> lv_reading G'"
    by (auto simp: G' apply_effects_mail apply_effects_slaves [OF reg] apply_effects_reading [OF reg])
  have "named T d G'" using inv unfolding live_inv_def named_def keys slaves by (simp add: G')
  moreover have "owned G'" using inv unfolding live_inv_def owned_def slaves by (simp add: G')
  moreover have "watched G' b" for b
  proof -
    have "b \<in> lv_reading G' \<longleftrightarrow> b \<in> lv_reading G" if "lv_slaves G b = Some n" for n
    proof -
      from inv that have "b \<notin> fst ` set (lv_masters G)" unfolding live_inv_def named_def by blast
      with r have "b \<noteq> r" by blast
      with reading show ?thesis by blast
    qed
    then show ?thesis
      using inv by (auto simp: live_inv_def watched_def slaves mail notices_plain [OF pl] split: option.splits)
  qed
  ultimately show ?thesis by (simp add: live_inv_def)
qed

text \<open>A new client: it is registered, owned by the server that accepted it, and reads.\<close>

lemma map_of_update: "map_of (AList.update k v xs) x = (if x = k then Some v else map_of xs x)"
  by (simp add: update_conv)

lemma server_accept_inv:
  assumes inv: "live_inv T d G" and known: "map_of (lv_servers G) v = Some s" and free: "free_id d G clientId"
    and act: "server_acts_live d v s (Server_accept ec peer started clientId ()) G = Done G'"
  shows "live_inv T d G'"
  using act
proof (cases rule: server_accept_effects)
  case none
  then have "G' = G" using update_same [OF known] by simp
  with inv show ?thesis by simp
next
  case client
  let ?s = "s\<lparr>srv_clientDb := AList.update clientId () (srv_clientDb s)\<rparr>"
  have keys: "fst ` set (lv_servers G') = fst ` set (lv_servers G)"
    using update_known_keys [OF known] by (simp add: client)
  have slaves: "lv_slaves G' = (lv_slaves G)(clientId \<mapsto> new_connection d v (lv_router G) clientId)"
    and mail: "lv_mail G' = lv_mail G" and reading: "lv_reading G' = insert clientId (lv_reading G)"
    by (simp_all add: client)
  have new: "lv_slaves G clientId = None" "clientId \<noteq> d" "clientId \<notin> fst ` set (lv_masters G)"
    "clientId \<notin> fst ` set (lv_servers G)" using free unfolding free_id_def by blast+
  have "named T d G'"
    using inv new unfolding live_inv_def named_def keys slaves by (simp add: client)
  moreover have "owned G'"
  proof -
    have "a \<in> srv_clients ?s \<longleftrightarrow> a = clientId \<or> a \<in> srv_clients s" for a
      by (simp add: srv_clients_def keys_update del: set_map)
    moreover have "\<not> (\<exists>s. map_of (lv_servers G) w = Some s \<and> clientId \<in> srv_clients s)" for w
    proof -
      from inv have "(\<exists>n. lv_slaves G clientId = Some n \<and> node_server n = Some w) \<longleftrightarrow>
          (\<exists>s. map_of (lv_servers G) w = Some s \<and> clientId \<in> srv_clients s)"
        unfolding live_inv_def owned_def by blast
      with new(1) show ?thesis by simp
    qed
    ultimately show ?thesis using inv known new(1)
      unfolding live_inv_def owned_def slaves by (auto simp: client map_of_update)
  qed
  moreover have "watched G' b" for b
  proof -
    have "watched G clientId" and "watched G b" using inv by (simp_all add: live_inv_def)
    with new(1) show ?thesis by (auto simp: watched_def slaves mail reading split: option.splits)
  qed
  ultimately show ?thesis by (simp add: live_inv_def)
qed

text \<open>A letter is taken out of the mail, which the receiver knows about.\<close>

lemma notices_without:
  assumes "i < length xs" and "xs ! i = (a, m)"
  shows "notices b xs = notices b (take i xs) @ (if m = ClientDisconnectMessage b then [a] else []) @
    notices b (drop (Suc i) xs)"
proof -
  from assms have "xs = take i xs @ [(a, m)] @ drop (Suc i) xs"
    using id_take_nth_drop [OF assms(1)] by simp
  then have "notices b xs = notices b (take i xs) @ notices b [(a, m)] @ notices b (drop (Suc i) xs)"
    by (metis notices_simps(2))
  then show ?thesis by simp
qed

text \<open>The invariant without one letter, which is on its way to its receiver.\<close>

lemma take_other_inv:
  assumes inv: "live_inv T d G" and i: "i < length (lv_mail G)" "lv_mail G ! i = (a, m)"
    and other: "\<forall>b. m \<noteq> ClientDisconnectMessage b"
  shows "live_inv T d (G\<lparr>lv_mail := take i (lv_mail G) @ drop (Suc i) (lv_mail G)\<rparr>)"
proof -
  let ?G = "G\<lparr>lv_mail := take i (lv_mail G) @ drop (Suc i) (lv_mail G)\<rparr>"
  have "notices b (lv_mail ?G) = notices b (lv_mail G)" for b
    using other notices_without [OF i, of b] by simp
  then have "\<forall>b. watched ?G b" using inv by (simp add: live_inv_def watched_def split: option.split)
  then show ?thesis using inv by (simp add: live_inv_def named_def owned_def)
qed

lemma server_letter_inv:
  assumes inv: "live_inv T d G" and known: "map_of (lv_servers G) v = Some s" and other: "\<forall>b. m \<noteq> ClientDisconnectMessage b"
    and act: "server_acts_live d v s (Server_message m) G = Done G'"
  shows "live_inv T d G'"
proof -
  have "G' = G" using act other update_same [OF known]
    by (cases m) (auto simp: server_acts_live_def TcpServer_defs and_then_Done_iff)
  with inv show ?thesis by simp
qed

text \<open>The letter that a connection is gone reaches its server, which removes it.\<close>

lemma server_disconnect_inv:
  assumes inv: "live_inv T d G" and i: "i < length (lv_mail G)" "lv_mail G ! i = (v, ClientDisconnectMessage a)"
    and known: "map_of (lv_servers G) v = Some s"
    and act: "server_acts_live d v s (Server_message (ClientDisconnectMessage a))
      (G\<lparr>lv_mail := take i (lv_mail G) @ drop (Suc i) (lv_mail G)\<rparr>) = Done G'"
  shows "live_inv T d G'"
proof -
  let ?s = "s\<lparr>srv_clientDb := AList.delete a (srv_clientDb s)\<rparr>"
  have G': "lv_servers G' = AList.update v ?s (lv_servers G)" "lv_slaves G' = (lv_slaves G)(a := None)"
    "lv_reading G' = lv_reading G - {a}" "lv_mail G' = take i (lv_mail G) @ drop (Suc i) (lv_mail G)"
    "lv_masters G' = lv_masters G" "lv_router G' = lv_router G"
    using act by (auto simp: server_acts_live_def TcpServer_defs and_then_Done_iff)
  have keys: "fst ` set (lv_servers G') = fst ` set (lv_servers G)"
    using update_known_keys [OF known] by (simp add: G')
  note letter = notices_without [OF i]
  have "watched G a" using inv by (simp add: live_inv_def)
  with letter [of a] obtain n where n: "lv_slaves G a = Some n" "node_server n = Some v" and one: "notices a (lv_mail G) = [v]"
    by (cases "lv_slaves G a"; cases "node_server (the (lv_slaves G a))") (auto simp: watched_def append_eq_Cons_conv split: if_splits)
  have "named T d G'" using inv unfolding live_inv_def named_def keys by (simp add: G'(2,5,6))
  moreover have "owned G'"
  proof -
    have "b \<in> srv_clients ?s \<longleftrightarrow> b \<noteq> a \<and> b \<in> srv_clients s" for b
      by (auto simp: srv_clients_def keys_delete simp del: set_map)
    moreover have "w = v" if "map_of (lv_servers G) w = Some x" "a \<in> srv_clients x" for w x
      using that inv n unfolding live_inv_def owned_def by (metis option.inject)
    ultimately show ?thesis using inv known
      unfolding live_inv_def owned_def G' by (auto simp: map_of_update)
  qed
  moreover have "watched G' b" for b
  proof (cases "b = a")
    case True
    with letter [of a] one show ?thesis by (auto simp: watched_def G' Cons_eq_append_conv)
  next
    case False
    with letter [of b] have "notices b (lv_mail G') = notices b (lv_mail G)" by (simp add: G')
    moreover have "watched G b" using inv by (simp add: live_inv_def)
    ultimately show ?thesis using False by (simp add: watched_def G' split: option.split)
  qed
  ultimately show ?thesis by (simp add: live_inv_def)
qed

lemma live_inv_context [simp]: "live_inv T d (G\<lparr>lv_context := c\<rparr>) = live_inv T d G"
proof -
  have "watched (G\<lparr>lv_context := c\<rparr>) a = watched G a" for a
    by (simp add: watched_def split: option.split)
  then show ?thesis by (simp add: live_inv_def named_def owned_def)
qed

lemma gateway_step_inv:
  assumes inv: "live_inv T d G" and step: "gateway_step L d G e = Done G'"
  shows "live_inv T d G'"
proof (cases e)
  case (Accepted v ec peer started clientId)
  show ?thesis
  proof (cases "\<exists>s. map_of (lv_servers G) v = Some s \<and> free_id d G clientId")
    case True
    then obtain s where "map_of (lv_servers G) v = Some s" "free_id d G clientId"
      "server_acts_live d v s (Server_accept ec peer started clientId ()) G = Done G'"
      using step Accepted by auto
    then show ?thesis by (rule server_accept_inv [OF inv])
  next
    case False
    with step Accepted have "G' = G" by (auto split: option.splits)
    with inv show ?thesis by simp
  qed
next
  case (Received a now ec buffer sz)
  show ?thesis
  proof (cases "\<exists>n. lv_slaves G a = Some n \<and> a \<in> lv_reading G")
    case True
    then obtain n where "lv_slaves G a = Some n" "a \<in> lv_reading G"
      "slave_acts_live L d a n (node_received n now ec buffer sz) (G\<lparr>lv_reading := lv_reading G - {a}\<rparr>) = Done G'"
      using step Received by auto
    then show ?thesis by (rule slave_reads_inv [OF inv])
  next
    case False
    with step Received have "G' = G" by (auto split: option.splits)
    with inv show ?thesis by simp
  qed
next
  case (Written a ec)
  with step inv show ?thesis by (cases "lv_slaves G a") (auto intro: slave_acts_inv)
next
  case (Master_completed r ev)
  with step inv show ?thesis
    by (cases "map_of (lv_masters G) r") (auto intro: master_acts_inv split: if_splits)
next
  case (Delivered now i)
  show ?thesis
  proof (cases "i < length (lv_mail G)")
    case False
    with step Delivered inv show ?thesis by simp
  next
    case True
    obtain a m where letter: "lv_mail G ! i = (a, m)" by fastforce
    let ?G = "G\<lparr>lv_mail := take i (lv_mail G) @ drop (Suc i) (lv_mail G)\<rparr>"
    from step Delivered True letter have act: "deliver L d now (a, m) ?G = Done G'" by simp
    show ?thesis
    proof (cases "\<exists>b. m = ClientDisconnectMessage b")
      case True
      then obtain b where m: "m = ClientDisconnectMessage b" by blast
      from m letter have l: "lv_mail G ! i = (a, ClientDisconnectMessage b)" by simp
      have "watched G b" using inv by (simp add: live_inv_def)
      with notices_without [OF \<open>i < length (lv_mail G)\<close> l, of b] obtain n where n: "lv_slaves G b = Some n" "node_server n = Some a"
        by (cases "lv_slaves G b"; cases "node_server (the (lv_slaves G b))")
          (auto simp: watched_def append_eq_Cons_conv split: if_splits)
      with inv obtain s where s: "map_of (lv_servers G) a = Some s"
        unfolding live_inv_def owned_def by metis
      then have "a \<in> fst ` set (lv_servers G)" by (metis domI dom_map_of_conv_image_fst)
      with inv have "a \<notin> fst ` set (lv_masters G)" unfolding live_inv_def named_def by blast
      then have "map_of (lv_masters G) a = None" by (simp add: map_of_eq_None_iff)
      with act s m have "server_acts_live d a s (Server_message (ClientDisconnectMessage b)) ?G = Done G'"
        by (simp add: deliver_def)
      from server_disconnect_inv [OF inv \<open>i < length (lv_mail G)\<close> l s this] show ?thesis .
    next
      case False
      then have other: "\<forall>b. m \<noteq> ClientDisconnectMessage b" by blast
      note inv' = take_other_inv [OF inv True letter other]
      have known: "lv_masters ?G = lv_masters G" "lv_servers ?G = lv_servers G" "lv_slaves ?G = lv_slaves G" by simp_all
      show ?thesis
      proof (cases "map_of (lv_masters G) a")
        case (Some s)
        with act show ?thesis by (auto simp: deliver_def intro: master_acts_inv [OF inv'])
      next
        case no_master: None
        show ?thesis
        proof (cases "map_of (lv_servers G) a")
          case (Some s)
          with act no_master show ?thesis by (auto simp: deliver_def intro: server_letter_inv [OF inv' _ other])
        next
          case None
          with act no_master inv' show ?thesis
            by (cases "lv_slaves G a") (auto simp: deliver_def intro: slave_acts_inv [OF inv'])
        qed
      qed
    qed
  qed
next
  case (Signalled ec)
  with step inv show ?thesis by (auto split: if_splits)
qed

subsection \<open>Runs of the loop\<close>

lemma event_loop_induct:
  assumes "event_loop L d G es = Waiting G' \<or> event_loop L d G es = Returned G'" and "P G"
    and "\<And>G e G'. P G \<Longrightarrow> gateway_step L d G e = Done G' \<Longrightarrow> P G'"
  shows "P G'"
  using assms(1,2)
proof (induction es arbitrary: G)
  case Nil
  then show ?case by (simp split: if_splits)
next
  case (Cons e es)
  then show ?case
    using assms(3) by (cases "gateway_step L d G e") (auto split: if_splits)
qed

text \<open>Events handled while the loop waits leave the rest of the run to the state they lead to.\<close>

lemma event_loop_append:
  assumes "event_loop L d G es = Waiting G'"
  shows "event_loop L d G (es @ rest) = event_loop L d G' rest"
  using assms
proof (induction es arbitrary: G)
  case Nil
  then show ?case by (simp split: if_splits)
next
  case (Cons e es)
  then show ?case by (cases "gateway_step L d G e") (auto split: if_splits)
qed

lemma event_loop_waiting: "event_loop L d G es = Waiting G' \<Longrightarrow> \<not> ctx_stopped (lv_context G')"
proof (induction es arbitrary: G)
  case (Cons e es)
  then show ?case by (cases "gateway_step L d G e") (auto split: if_splits)
qed (auto split: if_splits)

text \<open>Only a signal stops the context.\<close>

lemma gateway_step_context:
  "gateway_step L d G e = Done G' \<Longrightarrow> e \<noteq> Signalled success \<Longrightarrow>
    ctx_stopped (lv_context G') = ctx_stopped (lv_context G)"
  by (cases e) (auto simp: slave_acts_live_def master_acts_live_def server_acts_live_def deliver_def
      and_then_Done_iff SignalSet_on_wait_def split: option.splits if_splits prod.splits)

lemma event_loop_returned:
  "event_loop L d G es = Returned G' \<Longrightarrow> \<not> ctx_stopped (lv_context G) \<Longrightarrow> Signalled success \<in> set es"
proof (induction es arbitrary: G)
  case (Cons e es)
  then show ?case
    by (cases "gateway_step L d G e"; cases "e = Signalled success") (auto dest: gateway_step_context)
qed simp

text \<open>
  A loop whose steps keep an invariant and are simulated, under it, by an abstract relation:
  the interface between the concrete gateway and the network.
\<close>

locale loop_simulation =
  fixes step :: "'s \<Rightarrow> 'e \<Rightarrow> 's outcome"
    and abstract_step :: "'a \<Rightarrow> 'a \<Rightarrow> bool"
    and rel :: "'a \<Rightarrow> 's \<Rightarrow> bool"
    and inv :: "'s \<Rightarrow> bool"
  assumes step_inv: "inv s \<Longrightarrow> step s e = Done s' \<Longrightarrow> inv s'"
    and step_sim: "inv s \<Longrightarrow> rel a s \<Longrightarrow> step s e = Done s' \<Longrightarrow> \<exists>a'. rtranclp abstract_step a a' \<and> rel a' s'"
begin

lemma reach_sim:
  assumes "rtranclp (\<lambda>s s'. \<exists>e. step s e = Done s') s s'" and "inv s" and "rel a s"
  shows "inv s' \<and> (\<exists>a'. rtranclp abstract_step a a' \<and> rel a' s')"
  using assms(1)
proof (induction rule: rtranclp_induct)
  case base
  with assms(2,3) show ?case by blast
next
  case (step x y)
  then obtain e a' where e: "step x e = Done y" and a': "rtranclp abstract_step a a'" "rel a' x" and x: "inv x" by blast
  from step_sim [OF x a'(2) e] obtain b where "rtranclp abstract_step a' b" "rel b y" by blast
  with a'(1) have "rtranclp abstract_step a b" by (simp add: rtranclp_trans)
  with \<open>rel b y\<close> step_inv [OF x e] show ?case by blast
qed

end

interpretation gw: loop_simulation "gateway_step L d" "net_step L d" abstracts "live_inv TYPE('u word) d"
  for L :: "('b, 'u::len word, 't::len word) modbus_lib" and d
proof
  show "live_inv TYPE('u word) d G \<Longrightarrow> gateway_step L d G e = Done G' \<Longrightarrow> live_inv TYPE('u word) d G'" for G e G'
    by (rule gateway_step_inv)
  show "live_inv TYPE('u word) d G \<Longrightarrow> abstracts N G \<Longrightarrow> gateway_step L d G e = Done G' \<Longrightarrow>
      \<exists>N'. rtranclp (net_step L d) N N' \<and> abstracts N' G'" for G N e G'
    by (rule gateway_step_simulates) (assumption | (unfold live_inv_def named_def table_typed_def, blast))+
qed

lemma event_loop_reach:
  assumes "event_loop L d G es = Waiting G' \<or> event_loop L d G es = Returned G'"
  shows "rtranclp (\<lambda>G G'. \<exists>e. gateway_step L d G e = Done G') G G'"
  by (rule event_loop_induct [OF assms]) (auto intro: rtranclp.rtrancl_into_rtrancl)

end
