(* ===== verification/Gateway_Run.thy ===== *)
theory Gateway_Run
  imports Loop_Steps
begin

text \<open>
  The gateway from its start to its end: the state a started gateway enters the loop with, when
  a step of the loop is undefined, what connections it keeps, and which exit code \<open>main\<close> gives.
\<close>

subsection \<open>The ids of a started gateway\<close>

definition slave_actor_id :: "('p, 't) slave_actor \<Rightarrow> actor_id" where
  "slave_actor_id a = (case a of ServerActor x \<Rightarrow> TcpServer_GetId x | SlaveActor x \<Rightarrow> RtuSlave_GetId x)"

text \<open>What the exchange guarantees for the ids it gives to actors that stay: they are its own and distinct.\<close>

definition ids_fresh :: "(nat \<Rightarrow> actor_id) \<Rightarrow> actor_id \<Rightarrow> bool" where
  "ids_fresh add_id defaultId \<longleftrightarrow> inj add_id \<and> (\<forall>n. add_id n \<noteq> defaultId)"

lemma inserted_ids:
  assumes "Suc n \<le> n' \<and> (\<forall>m \<in> set ms'. m \<in> set (insert_master mc x ms) \<or> (\<exists>k<n'. master_GetId (gm_actor m) = add_id k))"
    and "master_GetId (gm_actor x) = add_id n"
  shows "n \<le> n' \<and> (\<forall>m \<in> set ms'. m \<in> set ms \<or> (\<exists>k<n'. master_GetId (gm_actor m) = add_id k))"
proof -
  have "set (insert_master mc x ms) = insert x (set ms)" by (auto simp: insert_master_def)
  with assms(1) have "\<forall>m \<in> set ms'. m = x \<or> m \<in> set ms \<or> (\<exists>k<n'. master_GetId (gm_actor m) = add_id k)" by simp
  moreover have "\<exists>k<n'. master_GetId (gm_actor x) = add_id k"
    using assms by (intro exI [of _ n]) simp
  ultimately have "\<forall>m \<in> set ms'. m \<in> set ms \<or> (\<exists>k<n'. master_GetId (gm_actor m) = add_id k)" by metis
  with assms(1) show ?thesis by simp
qed

lemma MakeMasters_ids:
  assumes "MakeMasters opens add_id d n ms cfgs = Ok (ms', n')"
  shows "n \<le> n' \<and> (\<forall>m \<in> set ms'. m \<in> set ms \<or> (\<exists>k<n'. master_GetId (gm_actor m) = add_id k))"
  using assms
proof (induction opens add_id d n ms cfgs rule: MakeMasters.induct)
  case (1 opens add_id d n ms)
  then show ?case by simp
next
  case (2 opens add_id d n ms c rest)
  show ?case
  proof (cases c)
    case (TcpClientConfig mc address port)
    with "2.prems" have "MakeMasters opens add_id d (Suc n) (insert_master mc
        \<lparr>gm_config = c, gm_actor = ClientActor (TcpClient_SetId (add_id n) (ModbusTcpClient d (mc_timeout mc)))\<rparr> ms)
        rest = Ok (ms', n')" by (simp add: Let_def)
    from "2.IH"(1) [OF TcpClientConfig refl this] show ?thesis
      by (rule inserted_ids) (simp add: master_GetId_def TcpClient_GetId_def TcpClient_SetId_def)
  next
    case (RtuMasterConfig mc device options frameType)
    show ?thesis
    proof (cases "ModbusRtuMaster d (mc_timeout mc) frameType :: ('c, 'd word) rtu_master outcome")
      case (Done x)
      with RtuMasterConfig "2.prems" have "opens c" by (auto split: if_splits)
      with Done RtuMasterConfig "2.prems" have "MakeMasters opens add_id d (Suc n) (insert_master mc
        \<lparr>gm_config = c, gm_actor = RtuActor (RtuMaster_SetId (add_id n) x)\<rparr> ms) rest = Ok (ms', n')" by simp
      from "2.IH"(2) [OF RtuMasterConfig _ this] \<open>opens c\<close> have "Suc n \<le> n' \<and> (\<forall>m \<in> set ms'.
          m \<in> set (insert_master mc \<lparr>gm_config = c, gm_actor = RtuActor (RtuMaster_SetId (add_id n) x)\<rparr> ms) \<or>
          (\<exists>k<n'. master_GetId (gm_actor m) = add_id k))" by blast
      then show ?thesis
        by (rule inserted_ids) (simp add: master_GetId_def RtuMaster_GetId_def RtuMaster_SetId_def)
    qed (use RtuMasterConfig "2.prems" in \<open>auto split: if_splits\<close>)
  qed (use 2 in simp_all)
qed

text \<open>A slave as it is when the loop begins.\<close>

definition new_slave :: "router \<Rightarrow> ('p, 't) slave_actor \<Rightarrow> bool" where
  "new_slave router a = (case a of ServerActor x \<Rightarrow> srv_clientDb x = [] | SlaveActor x \<Rightarrow> rs_router x = router)"

lemma MakeSlaves_ids:
  assumes "MakeSlaves opens add_id d router n cfgs = Ok ss"
  shows "map (\<lambda>s. slave_actor_id (gs_actor s)) ss = map add_id [n ..< n + length ss] \<and>
    list_all (\<lambda>s. new_slave router (gs_actor s)) ss"
  using assms
proof (induction cfgs arbitrary: n ss)
  case Nil
  then show ?case by simp
next
  case (Cons c rest)
  show ?case
  proof (cases c)
    case (TcpServerConfig address port)
    with Cons.prems obtain xs where xs: "MakeSlaves opens add_id d router (Suc n) rest = Ok xs"
      and ss: "ss = \<lparr>gs_config = c, gs_actor = ServerActor (TcpServer_SetId (add_id n) (ModbusTcpServer d))\<rparr> # xs"
      by (auto simp: st_bind_Ok split: if_splits)
    have IH: "map (\<lambda>s. slave_actor_id (gs_actor s)) xs = map add_id [Suc n ..< Suc n + length xs] \<and>
        list_all (\<lambda>s. new_slave router (gs_actor s)) xs"
      using Cons.IH [OF xs] by simp
    then show ?thesis
      by (simp add: ss slave_actor_id_def new_slave_def TcpServer_GetId_def TcpServer_SetId_def ModbusTcpServer_def
          upt_conv_Cons del: upt_Suc)
  next
    case (RtuSlaveConfig device options frameType)
    with Cons.prems obtain x xs where x: "ModbusRtuSlave d router frameType = Done x"
      and xs: "MakeSlaves opens add_id d router (Suc n) rest = Ok xs"
      and ss: "ss = \<lparr>gs_config = c, gs_actor = SlaveActor (RtuSlave_SetId (add_id n) x)\<rparr> # xs"
      by (auto simp: st_bind_Ok of_outcome_def split: if_splits outcome.splits)
    have IH: "map (\<lambda>s. slave_actor_id (gs_actor s)) xs = map add_id [Suc n ..< Suc n + length xs] \<and>
        list_all (\<lambda>s. new_slave router (gs_actor s)) xs"
      using Cons.IH [OF xs] by simp
    moreover have "rs_router x = router" using x by (auto simp: ModbusRtuSlave_def split: if_splits)
    ultimately show ?thesis
      by (simp add: ss slave_actor_id_def new_slave_def RtuSlave_GetId_def RtuSlave_SetId_def
          upt_conv_Cons del: upt_Suc)
  qed (use Cons.prems in simp_all)
qed

lemma StartSlaves_actors:
  fixes ss :: "('a, 'u, 'p, 't) gw_slave list" and os :: "('b, 't) effect list"
  assumes "StartSlaves d ss = Ok (ss', os)"
  shows "map gs_actor ss' = map gs_actor ss"
  using assms
proof (induction ss arbitrary: ss' os)
  case Nil
  then show ?case by simp
next
  case (Cons s rest)
  then obtain a os1 xs os2 where start: "Slave_Start d (gs_actor s) = Ok (a, os1 :: ('b, 't) effect list)"
    and xs: "StartSlaves d rest = Ok (xs, os2 :: ('b, 't) effect list)" and ss': "ss' = s\<lparr>gs_actor := a\<rparr> # xs"
    by (auto simp: st_bind_Ok)
  from start have "a = gs_actor s"
    by (auto simp: Slave_Start_def TcpServer_Start_def RtuSlave_Start_def of_outcome_def st_bind_Ok
        split: slave_actor.splits if_splits)
  with Cons.IH xs ss' show ?case by (auto simp: start)
qed

subsection \<open>The state the loop starts from\<close>

lemma lines_servers_simps [simp]:
  "serial_lines [] = []" "servers_of [] = []"
  "serial_lines (s # ss) = (case gs_actor s of SlaveActor x \<Rightarrow> [(RtuSlave_GetId x, Serial_slave_node x)]
     | ServerActor x \<Rightarrow> []) @ serial_lines ss"
  "servers_of (s # ss) = (case gs_actor s of ServerActor x \<Rightarrow> [(TcpServer_GetId x, x)] | SlaveActor x \<Rightarrow> []) @ servers_of ss"
  by (simp_all add: serial_lines_def servers_of_def split: slave_actor.split)

lemma serial_linesD:
  "(a, n) \<in> set (serial_lines ss) \<Longrightarrow>
    \<exists>s x. s \<in> set ss \<and> gs_actor s = SlaveActor x \<and> a = rs_id x \<and> n = Serial_slave_node x \<and> a = slave_actor_id (gs_actor s)"
  by (force simp: serial_lines_def slave_actor_id_def RtuSlave_GetId_def split: slave_actor.splits)

lemma servers_ofD:
  "(v, x) \<in> set (servers_of ss) \<Longrightarrow> \<exists>s. s \<in> set ss \<and> gs_actor s = ServerActor x \<and> v = slave_actor_id (gs_actor s)"
  by (force simp: servers_of_def slave_actor_id_def split: slave_actor.splits)

text \<open>Distinct ids of the slaves make the serial slaves and the servers distinct.\<close>

lemma distinct_lines:
  assumes "distinct (map (\<lambda>s. slave_actor_id (gs_actor s)) ss)"
  shows "distinct (map fst (serial_lines ss)) \<and> fst ` set (serial_lines ss) \<inter> fst ` set (servers_of ss) = {}"
  using assms
proof (induction ss)
  case Nil
  then show ?case by simp
next
  case (Cons s ss)
  then have new: "slave_actor_id (gs_actor s) \<notin> (\<lambda>s. slave_actor_id (gs_actor s)) ` set ss"
    and IH: "distinct (map fst (serial_lines ss)) \<and> fst ` set (serial_lines ss) \<inter> fst ` set (servers_of ss) = {}"
    by simp_all
  have "fst ` set (serial_lines ss) \<subseteq> (\<lambda>s. slave_actor_id (gs_actor s)) ` set ss"
    by (force dest: serial_linesD)
  moreover have "fst ` set (servers_of ss) \<subseteq> (\<lambda>s. slave_actor_id (gs_actor s)) ` set ss"
    by (force dest: servers_ofD)
  ultimately have "slave_actor_id (gs_actor s) \<notin> fst ` set (serial_lines ss)"
    and "slave_actor_id (gs_actor s) \<notin> fst ` set (servers_of ss)" using new by blast+
  with IH show ?case
    by (cases "gs_actor s") (simp_all add: slave_actor_id_def)
qed

lemma gateway_actors:
  fixes g :: "('a, 'u::len word, 'b, 'p, 't::len word) gateway"
  assumes "Gateway_start opens add_id d cfg = Ok g"
  obtains n where "map (\<lambda>s. slave_actor_id (gs_actor s)) (gw_slaves g) = map add_id [n ..< n + length (gw_slaves g)]"
    and "\<forall>s \<in> set (gw_slaves g). new_slave (gw_router g) (gs_actor s)"
    and "\<forall>m \<in> set (gw_masters g). \<exists>k<n. master_GetId (gm_actor m) = add_id k"
proof -
  from assms obtain n ss os where
    ms: "MakeMasters opens add_id d 0 [] (masters cfg) = Ok (gw_masters g, n)"
    and ss: "MakeSlaves opens add_id d (gw_router g) n (slaves cfg) = Ok ss"
    and start: "StartSlaves d ss = Ok (gw_slaves g, os :: ('b, 't word) effect list)"
    by (auto simp: Gateway_start_def st_bind_Ok split: if_splits option.splits)
  have actors: "map gs_actor (gw_slaves g) = map gs_actor ss" by (rule StartSlaves_actors [OF start])
  then have len: "length (gw_slaves g) = length ss" by (metis length_map)
  have ids: "map (\<lambda>s. slave_actor_id (gs_actor s)) (gw_slaves g) = map (\<lambda>s. slave_actor_id (gs_actor s)) ss"
    using arg_cong [OF actors, of "map slave_actor_id"] by (simp add: comp_def)
  have "\<forall>s \<in> set (gw_slaves g). new_slave (gw_router g) (gs_actor s)"
    using MakeSlaves_ids [OF ss] arg_cong [OF actors, of set] by (force simp: list_all_iff)
  moreover have "\<forall>m \<in> set (gw_masters g). \<exists>k<n. master_GetId (gm_actor m) = add_id k"
    using MakeMasters_ids [OF ms] by simp
  ultimately show thesis using MakeSlaves_ids [OF ss] ids len by (intro that [of n]) simp_all
qed

lemma started_ids:
  fixes g :: "('a, 'u::len word, 'b, 'p, 't::len word) gateway"
  assumes "Gateway_start opens add_id d cfg = Ok g" and fresh: "ids_fresh add_id d"
  shows "distinct (map (\<lambda>s. slave_actor_id (gs_actor s)) (gw_slaves g))"
    and "\<forall>s \<in> set (gw_slaves g). slave_actor_id (gs_actor s) \<noteq> d \<and>
      slave_actor_id (gs_actor s) \<notin> (\<lambda>m. master_GetId (gm_actor m)) ` set (gw_masters g)"
    and "\<forall>s \<in> set (gw_slaves g). new_slave (gw_router g) (gs_actor s)"
proof -
  from gateway_actors [OF assms(1)] obtain n where
    ids: "map (\<lambda>s. slave_actor_id (gs_actor s)) (gw_slaves g) = map add_id [n ..< n + length (gw_slaves g)]"
    and new: "\<forall>s \<in> set (gw_slaves g). new_slave (gw_router g) (gs_actor s)"
    and ms: "\<forall>m \<in> set (gw_masters g). \<exists>k<n. master_GetId (gm_actor m) = add_id k" by blast
  have inj: "inj add_id" and d: "add_id k \<noteq> d" for k using fresh by (auto simp: ids_fresh_def)
  show "distinct (map (\<lambda>s. slave_actor_id (gs_actor s)) (gw_slaves g))"
    unfolding ids using inj by (simp add: distinct_map inj_on_def inj_def)
  show "\<forall>s \<in> set (gw_slaves g). new_slave (gw_router g) (gs_actor s)" by (rule new)
  have "slave_actor_id (gs_actor s) \<in> add_id ` {n ..< n + length (gw_slaves g)}" if "s \<in> set (gw_slaves g)" for s
  proof -
    from that have "slave_actor_id (gs_actor s) \<in> set (map (\<lambda>s. slave_actor_id (gs_actor s)) (gw_slaves g))" by simp
    then show ?thesis unfolding ids by simp
  qed
  moreover have "add_id k \<notin> (\<lambda>m. master_GetId (gm_actor m)) ` set (gw_masters g)" if "n \<le> k" for k
    using ms that injD [OF inj] by fastforce
  ultimately show "\<forall>s \<in> set (gw_slaves g). slave_actor_id (gs_actor s) \<noteq> d \<and>
      slave_actor_id (gs_actor s) \<notin> (\<lambda>m. master_GetId (gm_actor m)) ` set (gw_masters g)"
    using d by fastforce
qed

lemma started_line:
  fixes g :: "('a, 'u::len word, 'b, 'p, 't::len word) gateway"
  assumes "Gateway_start opens add_id d cfg = Ok g" and "ids_fresh add_id d" and "(a, n) \<in> set (serial_lines (gw_slaves g))"
  shows "slave_id n = a \<and> slave_router n = gw_router g \<and> a \<noteq> d \<and>
    a \<notin> (\<lambda>m. master_GetId (gm_actor m)) ` set (gw_masters g) \<and> node_server n = None"
proof -
  from serial_linesD [OF assms(3)] obtain s x where s: "s \<in> set (gw_slaves g)" "gs_actor s = SlaveActor x"
    and n: "a = rs_id x" "n = Serial_slave_node x" "a = slave_actor_id (gs_actor s)" by blast
  note ids = started_ids [OF assms(1,2)]
  have "a \<noteq> d \<and> a \<notin> (\<lambda>m. master_GetId (gm_actor m)) ` set (gw_masters g)"
    unfolding n(3) by (rule bspec [OF ids(2) s(1)])
  moreover from bspec [OF ids(3) s(1)] s(2) have "rs_router x = gw_router g" by (simp add: new_slave_def)
  ultimately show ?thesis using n(1,2) by simp
qed

lemma live_of_masters: "fst ` set (lv_masters (live_of g)) = (\<lambda>m. master_GetId (gm_actor m)) ` set (gw_masters g)"
  by (simp add: live_of_def image_image)

lemma live_of_inv:
  fixes g :: "('a, 'u::len word, 'b, unit, 't::len word) gateway"
  assumes start: "Gateway_start opens add_id d cfg = Ok g" and fresh: "ids_fresh add_id d"
  shows "live_inv TYPE('u word) d (live_of g)"
proof -
  let ?G = "live_of g"
  note ids = started_ids [OF start fresh]
  have server: "v \<noteq> d \<and> v \<notin> fst ` set (lv_masters ?G) \<and> srv_clients x = {}" if "(v, x) \<in> set (servers_of (gw_slaves g))" for v x
    using servers_ofD [OF that] ids(2,3) unfolding live_of_masters by (auto simp: new_slave_def srv_clients_def)
  have line: "slave_id n = a \<and> slave_router n = gw_router g \<and> a \<noteq> d \<and> a \<notin> fst ` set (lv_masters ?G) \<and>
      a \<notin> fst ` set (lv_servers ?G) \<and> node_server n = None" if "(a, n) \<in> set (serial_lines (gw_slaves g))" for a n
  proof -
    from distinct_lines [OF ids(1)] that have "a \<notin> fst ` set (lv_servers ?G)" by (force simp: live_of_def)
    with started_line [OF start fresh that] show ?thesis unfolding live_of_masters by blast
  qed
  have slaves: "lv_slaves ?G a = Some n \<Longrightarrow> (a, n) \<in> set (serial_lines (gw_slaves g))" for a n
    by (auto simp: live_of_def dest: map_of_SomeD)
  have servers: "map_of (lv_servers ?G) v = Some x \<Longrightarrow> (v, x) \<in> set (servers_of (gw_slaves g))" for v x
    by (auto simp: live_of_def dest: map_of_SomeD)
  have "table_typed TYPE('u word) d (fst ` set (lv_masters ?G)) (lv_router ?G)"
    using MakeRouter_typed [OF gateway_router [OF start]] unfolding live_of_masters by (simp add: live_of_def)
  moreover have "fst ` set (lv_servers ?G) \<inter> fst ` set (lv_masters ?G) = {}"
    using server by (force simp: live_of_def)
  moreover have "\<forall>a n. lv_slaves ?G a = Some n \<longrightarrow> slave_id n = a \<and> slave_router n = lv_router ?G \<and>
      a \<noteq> d \<and> a \<notin> fst ` set (lv_masters ?G) \<and> a \<notin> fst ` set (lv_servers ?G)"
  proof -
    have "lv_router ?G = gw_router g" by (simp add: live_of_def)
    then show ?thesis using line [OF slaves] by metis
  qed
  ultimately have "named TYPE('u word) d ?G" unfolding named_def by blast
  moreover have "owned ?G"
    using line slaves server servers unfolding owned_def by (metis empty_iff option.distinct(1))
  moreover have "watched ?G a" for a
  proof -
    have "lv_mail ?G = []" by (simp add: live_of_def)
    moreover have "lv_slaves ?G a = Some n \<Longrightarrow> node_server n = None" for n using line [OF slaves] by blast
    ultimately show ?thesis by (simp add: watched_def split: option.split)
  qed
  ultimately show ?thesis by (simp add: live_inv_def)
qed

text \<open>The serial slaves join the network of the started gateway.\<close>

lemma lines_join:
  fixes L :: "('b, 'u::len word, 't::len word) modbus_lib"
  assumes "distinct (map fst lines)" and "net_slaves N = (\<lambda>a. None)"
    and "\<forall>(a, n) \<in> set lines. a \<notin> master_ids N \<and> a \<noteq> d \<and> slave_id n = a \<and>
      routes_to_masters TYPE('u word) d (master_ids N) (slave_router n)"
  shows "rtranclp (net_step L d) N (N\<lparr>net_slaves := map_of lines\<rparr>)"
  using assms(1,3)
proof (induction lines)
  case Nil
  have "N\<lparr>net_slaves := map_of []\<rparr> = N" using assms(2) by (cases N) simp
  then show ?case by simp
next
  case (Cons x lines)
  obtain a n where x: "x = (a, n)" by fastforce
  let ?N = "N\<lparr>net_slaves := map_of lines\<rparr>"
  from Cons.prems have "may_join TYPE('u word) d ?N a n"
    by (auto simp: x may_join_def master_ids_def map_of_eq_None_iff)
  from join [OF this, of L] have "net_step L d ?N (N\<lparr>net_slaves := map_of (x # lines)\<rparr>)" by (simp add: x)
  moreover have "rtranclp (net_step L d) N ?N" using Cons by simp
  ultimately show ?case by (rule rtranclp.rtrancl_into_rtrancl [rotated])
qed

lemma live_of_network:
  fixes g :: "('a, 'u::len word, 'b, unit, 't::len word) gateway" and L :: "('b, 'u word, 't word) modbus_lib"
  assumes start: "Gateway_start opens add_id d cfg = Ok g" and fresh: "ids_fresh add_id d"
  shows "\<exists>N. net_reach L d N \<and> abstracts N (live_of g)"
proof -
  let ?lines = "serial_lines (gw_slaves g)" and ?N = "network_of g"
  note ids = started_ids [OF start fresh]
  have keys: "master_ids ?N = (\<lambda>m. master_GetId (gm_actor m)) ` set (gw_masters g)"
    by (simp add: master_ids_def network_of_def image_image)
  have "routes_to_masters TYPE('u word) d (master_ids ?N) (gw_router g)"
    using MakeRouter_typed [OF gateway_router [OF start]] unfolding keys by (simp add: table_typed_def)
  then have "\<forall>(a, n) \<in> set ?lines. a \<notin> master_ids ?N \<and> a \<noteq> d \<and> slave_id n = a \<and>
      routes_to_masters TYPE('u word) d (master_ids ?N) (slave_router n)"
    using started_line [OF start fresh] unfolding keys by fastforce
  from lines_join [OF _ _ this] distinct_lines [OF ids(1)]
  have "rtranclp (net_step L d) ?N (?N\<lparr>net_slaves := map_of ?lines\<rparr>)" by (simp add: network_of_def)
  moreover have "net_reach L d ?N" by (rule net_started [OF gateway_net_start [OF start]])
  ultimately have "net_reach L d (?N\<lparr>net_slaves := map_of ?lines\<rparr>)"
    by (induction rule: rtranclp_induct) (auto intro: net_continues)
  then show ?thesis by (intro exI) (auto simp: abstracts_def network_of_def live_of_def)
qed

subsection \<open>Reachable states of the loop\<close>

lemma gateway_reach:
  fixes g :: "('a, 'u::len word, 'b, unit, 't::len word) gateway" and L :: "('b, 'u word, 't word) modbus_lib"
  assumes "Gateway_start opens add_id d cfg = Ok g" and "ids_fresh add_id d"
    and "event_loop L d (live_of g) es = Waiting G \<or> event_loop L d (live_of g) es = Returned G"
  shows "live_inv TYPE('u word) d G" and "\<exists>N. net_reach L d N \<and> abstracts N G"
proof -
  from live_of_network [OF assms(1,2)] obtain N0 where N0: "net_reach L d N0" "abstracts N0 (live_of g)" by blast
  from gw.reach_sim [OF event_loop_reach [OF assms(3)] live_of_inv [OF assms(1,2)] N0(2)]
  obtain N where inv: "live_inv TYPE('u word) d G" and N: "rtranclp (net_step L d) N0 N" "abstracts N G" by blast
  from N(1) N0(1) have "net_reach L d N"
    by (induction rule: rtranclp_induct) (auto intro: net_continues)
  with inv N(2) show "live_inv TYPE('u word) d G" and "\<exists>N. net_reach L d N \<and> abstracts N G" by blast+
qed

text \<open>
  A read that completes with a frame the actor accepts, for the unit id the routing table has no
  entry for.
\<close>

definition reads_last_unit :: "('b, 'u::len word, 't) modbus_lib \<Rightarrow> ('b, 't) live \<Rightarrow> ('b, 't) gateway_event \<Rightarrow> bool" where
  "reads_last_unit L G e = (case e of
     Received a now ec buffer sz \<Rightarrow> ec = success \<and> a \<in> lv_reading G \<and>
       (case mb_set_adu_size L sz buffer of None \<Rightarrow> False
        | Some b \<Rightarrow> mb_unit_id L b = - 1 \<and> (case lv_slaves G a of None \<Rightarrow> False
            | Some (Connection_node c) \<Rightarrow> tcp_check L b | Some (Serial_slave_node s) \<Rightarrow> mb_check L b))
   | _ \<Rightarrow> False)"

lemma slave_received_undefined:
  fixes L :: "('b, 'u::len word, 't::len word) modbus_lib"
  assumes "length (routeMap (slave_router n)) = UnitId_max TYPE('u)"
  shows "slave_step L d n (node_received n now ec buffer sz) = Undefined \<longleftrightarrow> ec = success \<and>
    (case mb_set_adu_size L sz buffer of None \<Rightarrow> False
     | Some b \<Rightarrow> mb_unit_id L b = - 1 \<and>
         (case n of Connection_node c \<Rightarrow> tcp_check L b | Serial_slave_node s \<Rightarrow> mb_check L b))"
proof -
  have outside: "Router_Route (slave_router n) u = None \<longleftrightarrow> u = - 1" for u :: "'u word"
    by (rule Router_Route_None_iff [OF assms])
  show ?thesis
  proof (cases n)
    case (Connection_node c)
    with outside have none: "Router_Route (conn_router c) u = None \<longleftrightarrow> u = - 1" for u :: "'u word" by simp
    then have last: "Router_Route (conn_router c) (- 1 :: 'u word) = None" by blast
    show ?thesis
      by (cases ec; cases "mb_set_adu_size L sz buffer")
        (auto simp: Connection_node node_received_def TcpConnection_defs step_simps Let_def defined_def none last
          split: option.split)
  next
    case (Serial_slave_node s)
    with outside have none: "Router_Route (rs_router s) u = None \<longleftrightarrow> u = - 1" for u :: "'u word" by simp
    then have last: "Router_Route (rs_router s) (- 1 :: 'u word) = None" by blast
    show ?thesis
      by (cases ec; cases "mb_set_adu_size L sz buffer")
        (auto simp: Serial_slave_node node_received_def RtuSlave_defs step_simps Let_def defined_def none last
          split: option.split)
  qed
qed

lemma slave_other_defined:
  "slave_step L d n (node_written n ec) \<noteq> Undefined" "slave_step L d n (node_message n m) \<noteq> Undefined"
proof -
  show "slave_step L d n (node_written n ec) \<noteq> Undefined"
    by (cases n) (auto simp: node_written_def split: prod.split)
  show "slave_step L d n (node_message n m) \<noteq> Undefined"
    by (cases n) (auto simp: node_message_def split: prod.split)
qed

lemma server_defined: "server_acts_live d v s (Server_accept ec peer started i ()) G \<noteq> Undefined"
  "server_acts_live d v s (Server_message m) G \<noteq> Undefined"
  by (auto simp: server_acts_live_def TcpServer_defs Let_def split: option.splits if_splits message.splits)

lemma and_then_Undefined: "and_then x f = Undefined \<longleftrightarrow> x = Undefined \<or> (\<exists>y. x = Done y \<and> f y = Undefined)"
  by (cases x) auto

text \<open>No other step of the gateway is undefined.\<close>

lemma gateway_step_undefined_iff:
  fixes L :: "('b, 'u::len word, 't::len word) modbus_lib"
  assumes live: "live_inv TYPE('u word) d G" and net: "net_inv TYPE('u word) d N" and abs: "abstracts N G"
  shows "gateway_step L d G e = Undefined \<longleftrightarrow> reads_last_unit L G e"
proof -
  have master: "master_step L d s ev \<noteq> Undefined"
    if "map_of (lv_masters G) r = Some s" "event_fits s ev"
      "master_local ev \<or> (\<exists>now m. ev = master_message now s m \<and> modbusBuffer m \<noteq> None)" for r s ev
  proof -
    from update_split [OF that(1), of s] obtain xs ys where "lv_masters G = xs @ (r, s) # ys" by blast
    with abs have "net_masters N = xs @ (r, s) # ys" by (simp add: abstracts_def)
    from master_step_defined [OF master_actor_inv(1) [OF net this] that(2,3)] show ?thesis by blast
  qed
  show ?thesis
  proof (cases e)
    case (Accepted v ec peer started clientId)
    then show ?thesis by (auto simp: reads_last_unit_def server_defined split: option.split)
  next
    case (Received a now ec buffer sz)
    show ?thesis
    proof (cases "lv_slaves G a")
      case (Some n)
      then have "slave_router n = lv_router G" and "table_typed TYPE('u word) d (fst ` set (lv_masters G)) (lv_router G)"
        using live by (auto simp: live_inv_def named_def)
      then have "length (routeMap (slave_router n)) = UnitId_max TYPE('u)" by (simp add: table_typed_def)
      from slave_received_undefined [OF this, of L d now ec buffer sz] Some show ?thesis
        by (auto simp: Received reads_last_unit_def slave_acts_live_def and_then_Undefined split: option.splits slave_node.splits)
    qed (simp add: Received reads_last_unit_def split: option.split)
  next
    case (Written a ec)
    then show ?thesis
      by (auto simp: reads_last_unit_def slave_acts_live_def and_then_Undefined slave_other_defined split: option.split)
  next
    case (Master_completed r ev)
    then show ?thesis using master [of r _ ev] master_completion_local [of ev]
      by (auto simp: reads_last_unit_def master_acts_live_def and_then_Undefined split: option.split)
  next
    case (Delivered now i)
    have "gateway_step L d G e \<noteq> Undefined"
    proof (cases "i < length (lv_mail G)")
      case True
      obtain a m where letter: "lv_mail G ! i = (a, m)" by fastforce
      have "master_step L d s (actor_message now s m) \<noteq> Undefined" if s: "map_of (lv_masters G) a = Some s" for s
      proof (cases "\<exists>x. m = ModbusMsg x")
        case False
        with other_letter(2) [of m L d s now] show ?thesis by simp
      next
        case True
        then obtain x where m: "m = ModbusMsg x" by blast
        with mail_without [OF \<open>i < length (lv_mail G)\<close> letter] abs have "(a, x) \<in># net_mail N" by (simp add: abstracts_def)
        moreover have "a \<in> master_ids N"
          using s abs by (simp add: master_ids_def abstracts_def) (metis domI dom_map_of_conv_image_fst)
        ultimately have "modbusBuffer x \<noteq> None" using net_invD(3) [OF net] by blast
        moreover have "actor_message now s m = master_message now s x"
          by (cases s) (simp_all add: actor_message_def master_message_def m)
        ultimately show ?thesis using master [OF s, of "master_message now s x"] by auto
      qed
      then show ?thesis using True letter
        by (auto simp: Delivered deliver_def master_acts_live_def slave_acts_live_def and_then_Undefined
            server_defined slave_other_defined split: option.split)
    qed (simp add: Delivered)
    then show ?thesis by (simp add: Delivered reads_last_unit_def)
  qed (simp_all add: reads_last_unit_def)
qed

subsection \<open>A concrete gateway, for the witnesses\<close>

definition run_config :: "(nat, 8 word) config" where
  "run_config = \<lparr>configService = ConfigService_default, slaves = [TcpServerConfig 0 503],
     masters = [TcpClientConfig \<lparr>mc_timeout = - 1, unitIdSet = [\<lparr>range_begin = 1, range_end = 9\<rparr>]\<rparr> 1 502]\<rparr>"

text \<open>One TCP server with id 2 and one TCP client with id 1.\<close>

lemma run_gateway:
  "\<exists>g :: (nat, 8 word, frame, unit, 16 word) gateway. Gateway_start (\<lambda>c. True) Suc 0 run_config = Ok g \<and>
     lv_masters (live_of g) = [(1, ClientActor (TcpClient_SetId 1 (ModbusTcpClient 0 (- 1))))] \<and>
     lv_servers (live_of g) = [(2, \<lparr>srv_id = 2, srv_clientDb = []\<rparr>)] \<and> lv_slaves (live_of g) = Map.empty \<and>
     length (routeMap (lv_router (live_of g))) = 255 \<and> lv_reading (live_of g) = {} \<and>
     lv_mail (live_of g) = [] \<and> lv_context (live_of g) = SignalSet_start"
proof -
  let ?a = "ClientActor (TcpClient_SetId 1 (ModbusTcpClient 0 (- 1))) :: (frame, 16 word) master_actor"
  let ?ms = "[\<lparr>gm_config = hd (masters run_config), gm_actor = ?a\<rparr>]"
  have "masters_ok ?ms" by (simp add: masters_ok_def run_config_def as_MasterConfig_def)
  from MakeRouter_defined [OF this, of 0] obtain r where
    r: "MakeRouter 0 ?ms = Ok (Some r)" "length (routeMap r) = 255" by (auto simp: UnitId_max_def)
  moreover have "master_GetId ?a = 1" by (simp add: master_GetId_def TcpClient_GetId_def TcpClient_SetId_def)
  ultimately show ?thesis
    by (simp add: Gateway_start_def run_config_def insert_master_def Slave_Start_def TcpServer_Start_def
        TcpServer_SetId_def ModbusTcpServer_def live_of_def TcpServer_GetId_def)
qed

lemma ids_fresh_Suc: "ids_fresh Suc 0"
  by (simp add: ids_fresh_def)

text \<open>A client connects to it and gets id 5.\<close>

lemma run_accept:
  assumes "lv_masters (live_of g) = [(1, s)]" and "lv_servers (live_of g) = [(2, \<lparr>srv_id = 2, srv_clientDb = []\<rparr>)]"
    and "lv_slaves (live_of g) = Map.empty" and "lv_reading (live_of g) = {}" and "lv_context (live_of g) = SignalSet_start"
  shows "event_loop L 0 (live_of g) [Accepted 2 None True True 5] = Waiting ((live_of g)
    \<lparr>lv_servers := [(2, \<lparr>srv_id = 2, srv_clientDb = [(5, ())]\<rparr>)],
     lv_slaves := [5 \<mapsto> new_connection 0 2 (lv_router (live_of g)) 5], lv_reading := {5}\<rparr>)"
  using assms by (simp add: SignalSet_start_def free_id_def server_acts_live_def TcpServer_defs Let_def)

subsection \<open>Properties\<close>

text \<open>
  C4: the running gateway refines the network: whatever completions the event loop handles in
  whatever order, the actors it holds and the messages in transit between them are those of a
  reachable state of the network, so that everything proved of the network (who is answered, how
  often, and by whom) holds for the gateway.
\<close>

theorem Gateway_loop_refines_network:
  fixes g :: "('a, 'u::len word, 'b, unit, 't::len word) gateway" and L :: "('b, 'u word, 't word) modbus_lib"
  assumes "Gateway_start opens add_id d cfg = Ok g" and "ids_fresh add_id d"
    and "event_loop L d (live_of g) es = Waiting G \<or> event_loop L d (live_of g) es = Returned G"
  shows "\<exists>N. net_reach L d N \<and> net_masters N = lv_masters G \<and> net_slaves N = lv_slaves G \<and>
    net_mail N = mset (modbus_part (lv_mail G))"
  using gateway_reach(2) [OF assms] by (simp add: abstracts_def)

theorem Gateway_loop_refines_network_witness:
  "\<exists>(N :: (frame, 16 word) network) r. net_reach sample_lib 0 N \<and>
     net_slaves N = [5 \<mapsto> new_connection 0 2 r 5] \<and> net_mail N = {#}"
proof -
  from run_gateway obtain g :: "(nat, 8 word, frame, unit, 16 word) gateway" where
    g: "Gateway_start (\<lambda>c. True) Suc 0 run_config = Ok g" and mail: "lv_mail (live_of g) = []"
    and live: "lv_masters (live_of g) = [(1, ClientActor (TcpClient_SetId 1 (ModbusTcpClient 0 (- 1))))]"
      "lv_servers (live_of g) = [(2, \<lparr>srv_id = 2, srv_clientDb = []\<rparr>)]"
      "lv_slaves (live_of g) = Map.empty" "lv_reading (live_of g) = {}" "lv_context (live_of g) = SignalSet_start" by blast
  from Gateway_loop_refines_network [OF g ids_fresh_Suc disjI1 [OF run_accept [OF live, of sample_lib]]]
  show ?thesis by (auto simp: mail)
qed

text \<open>
  C13: in every state the running gateway reaches, a further completion is undefined behaviour
  exactly when it is a read of an accepted frame for the largest unit id; every other step of
  every actor, in any interleaving, is defined.
\<close>

theorem Gateway_loop_undefined_iff:
  fixes g :: "('a, 'u::len word, 'b, unit, 't::len word) gateway" and L :: "('b, 'u word, 't word) modbus_lib"
  assumes "Gateway_start opens add_id d cfg = Ok g" and "ids_fresh add_id d"
    and "event_loop L d (live_of g) es = Waiting G"
  shows "event_loop L d (live_of g) (es @ [e]) = Crashed \<longleftrightarrow> reads_last_unit L G e"
proof -
  from gateway_reach [OF assms(1,2) disjI1 [OF assms(3)]] obtain N where
    inv: "live_inv TYPE('u word) d G" and N: "net_reach L d N" "abstracts N G" by blast
  have "event_loop L d (live_of g) (es @ [e]) = Crashed \<longleftrightarrow> gateway_step L d G e = Undefined"
    using event_loop_append [OF assms(3), of "[e]"] event_loop_waiting [OF assms(3)]
    by (cases "gateway_step L d G e") simp_all
  with gateway_step_undefined_iff [OF inv net_reach_inv [OF N(1)] N(2)] show ?thesis by simp
qed

theorem Gateway_loop_undefined_iff_witness:
  "\<exists>g :: (nat, 8 word, frame, unit, 16 word) gateway. Gateway_start (\<lambda>c. True) Suc 0 run_config = Ok g \<and>
     event_loop sample_lib 0 (live_of g) [Accepted 2 None True True 5, Received 5 0 None (sample_frame TCP 255 7) 9] =
       Crashed \<and>
     event_loop sample_lib 0 (live_of g) [Accepted 2 None True True 5, Received 5 0 None (sample_frame TCP 254 7) 9] \<noteq>
       Crashed"
proof -
  from run_gateway obtain g :: "(nat, 8 word, frame, unit, 16 word) gateway" where
    g: "Gateway_start (\<lambda>c. True) Suc 0 run_config = Ok g"
    and live: "lv_masters (live_of g) = [(1, ClientActor (TcpClient_SetId 1 (ModbusTcpClient 0 (- 1))))]"
      "lv_servers (live_of g) = [(2, \<lparr>srv_id = 2, srv_clientDb = []\<rparr>)]"
      "lv_slaves (live_of g) = Map.empty" "lv_reading (live_of g) = {}" "lv_context (live_of g) = SignalSet_start" by blast
  note step = Gateway_loop_undefined_iff [OF g ids_fresh_Suc run_accept [OF live, of sample_lib]]
  from step [of "Received 5 0 None (sample_frame TCP 255 7) 9"] step [of "Received 5 0 None (sample_frame TCP 254 7) 9"] g
  show ?thesis by (intro exI [of _ g]) (simp add: reads_last_unit_def new_connection_def)
qed

text \<open>
  C14: no connection is leaked. In every state the running gateway reaches, a connection the
  exchange knows is known under its own id and owned by the server that accepted it, and either
  it has a read outstanding or exactly one message to its server is in transit that will remove
  it; and a server owns only connections the exchange knows.
\<close>

theorem Gateway_loop_connections:
  fixes g :: "('a, 'u::len word, 'b, unit, 't::len word) gateway" and L :: "('b, 'u word, 't word) modbus_lib"
  assumes "Gateway_start opens add_id d cfg = Ok g" and "ids_fresh add_id d"
    and "event_loop L d (live_of g) es = Waiting G"
  shows "(\<forall>a c. lv_slaves G a = Some (Connection_node c) \<longrightarrow> conn_id c = a \<and>
      (\<exists>s. map_of (lv_servers G) (conn_serverId c) = Some s \<and> a \<in> srv_clients s) \<and>
      notices a (lv_mail G) = (if a \<in> lv_reading G then [] else [conn_serverId c])) \<and>
    (\<forall>v s a. map_of (lv_servers G) v = Some s \<and> a \<in> srv_clients s \<longrightarrow>
      (\<exists>c. lv_slaves G a = Some (Connection_node c) \<and> conn_serverId c = v))"
proof -
  from gateway_reach(1) [OF assms(1,2) disjI1 [OF assms(3)]]
  have named: "named TYPE('u word) d G" and owned: "owned G" and watched: "watched G a" for a
    by (simp_all add: live_inv_def)
  have "conn_id c = a" if "lv_slaves G a = Some (Connection_node c)" for a c
    using that named unfolding named_def by (metis slave_id.simps(1))
  moreover have "\<exists>s. map_of (lv_servers G) (conn_serverId c) = Some s \<and> a \<in> srv_clients s"
    if "lv_slaves G a = Some (Connection_node c)" for a c
    using that owned unfolding owned_def by (metis node_server.simps(1))
  moreover have "notices a (lv_mail G) = (if a \<in> lv_reading G then [] else [conn_serverId c])"
    if "lv_slaves G a = Some (Connection_node c)" for a c
    using that watched [of a] by (simp add: watched_def)
  moreover have "\<exists>c. lv_slaves G a = Some (Connection_node c) \<and> conn_serverId c = v"
    if "map_of (lv_servers G) v = Some s" "a \<in> srv_clients s" for v s a
  proof -
    from that owned obtain n where n: "lv_slaves G a = Some n" "node_server n = Some v" unfolding owned_def by blast
    then show ?thesis by (cases n) simp_all
  qed
  ultimately show ?thesis by blast
qed

theorem Gateway_loop_connections_witness:
  "\<exists>(g :: (nat, 8 word, frame, unit, 16 word) gateway) G c.
     event_loop sample_lib 0 (live_of g) [Accepted 2 None True True 5] = Waiting G \<and>
     lv_slaves G 5 = Some (Connection_node c) \<and> conn_serverId c = 2 \<and> 5 \<in> lv_reading G"
proof -
  from run_gateway obtain g :: "(nat, 8 word, frame, unit, 16 word) gateway" where
    g: "Gateway_start (\<lambda>c. True) Suc 0 run_config = Ok g"
    and live: "lv_masters (live_of g) = [(1, ClientActor (TcpClient_SetId 1 (ModbusTcpClient 0 (- 1))))]"
      "lv_servers (live_of g) = [(2, \<lparr>srv_id = 2, srv_clientDb = []\<rparr>)]"
      "lv_slaves (live_of g) = Map.empty" "lv_reading (live_of g) = {}" "lv_context (live_of g) = SignalSet_start" by blast
  note run = run_accept [OF live, of sample_lib]
  let ?G = "(live_of g)\<lparr>lv_servers := [(2, \<lparr>srv_id = 2, srv_clientDb = [(5, ())]\<rparr>)],
     lv_slaves := [5 \<mapsto> new_connection 0 2 (lv_router (live_of g)) 5], lv_reading := {5}\<rparr>"
  from conjunct2 [OF Gateway_loop_connections [OF g ids_fresh_Suc run], THEN spec, of 2, THEN spec,
      of "\<lparr>srv_id = 2, srv_clientDb = [(5, ())]\<rparr>", THEN spec, of 5]
  obtain c where "lv_slaves ?G 5 = Some (Connection_node c)" "conn_serverId c = 2"
    by (auto simp: srv_clients_def)
  with run show ?thesis by (intro exI [of _ g] exI [of _ ?G] exI [of _ c]) simp
qed

text \<open>The exit code and the report of \<open>main\<close>, once the configuration was read and the gateway started.\<close>

lemma main_of_loop:
  assumes "CommandLine parse argv = Some c" and "\<not> CommandLine_IsHelp c" and "cl_config c = Some path" and "Config L (read_json path) = Inr cfg"
    and "Config_Validate cfg = Inr ()" and "Gateway_start opens add_id d cfg = Ok g"
  shows "main L opens add_id d (context_run M d events) read_json parse argv =
    (case event_loop M d (live_of g) events of Waiting G \<Rightarrow> Hangs | Returned G \<Rightarrow> Ok (0, None)
     | Escaped \<Rightarrow> Ok (1, Some (ExceptionReport None)) | Crashed \<Rightarrow> Broken)"
  using assms
  by (simp add: main_def CommandLine_GetConfigPath_def ModbusGateway_def context_run_def report_of_def
      parser_base_def what_def Let_def split: loop_end.split)

text \<open>
  C15: how the program ends. With a configuration that was read and a gateway that started,
  \<open>main\<close> gives exit code 0 only after a signal; the first signal, whenever it comes, ends it with
  exit code 0 and drops whatever would complete later; and at any time a client that is gone
  again before its accept is handled ends the whole program with exit code 1.
\<close>

theorem main_exit_code:
  assumes "CommandLine parse argv = Some c" and "\<not> CommandLine_IsHelp c" and "cl_config c = Some path" and "Config L (read_json path) = Inr cfg"
    and "Config_Validate cfg = Inr ()" and "Gateway_start opens add_id d cfg = Ok g"
    and "event_loop M d (live_of g) es = Waiting G"
  shows "(\<forall>events. main L opens add_id d (context_run M d events) read_json parse argv = Ok (0, None) \<longrightarrow>
      Signalled success \<in> set events) \<and>
    (ctx_signal_wait (lv_context G) \<longrightarrow>
      main L opens add_id d (context_run M d (es @ Signalled success # rest)) read_json parse argv = Ok (0, None)) \<and>
    (\<forall>v s i started. map_of (lv_servers G) v = Some s \<and> free_id d G i \<longrightarrow>
      main L opens add_id d (context_run M d (es @ Accepted v success False started i # rest)) read_json parse argv =
        Ok (1, Some (ExceptionReport None)))"
proof -
  note main = main_of_loop [where read_json = read_json and path = path and c = c, OF assms(1-6)]
  have start: "\<not> ctx_stopped (lv_context (live_of g))" by (simp add: live_of_def SignalSet_start_def)
  note running = event_loop_waiting [OF assms(7)] and app = event_loop_append [OF assms(7)]
  have "Signalled success \<in> set events"
    if "main L opens add_id d (context_run M d events) read_json parse argv = Ok (0, None)" for events
    using that event_loop_returned [OF _ start, of M d events] unfolding main by (simp split: loop_end.splits)
  moreover have "event_loop M d (live_of g) (es @ Signalled success # rest) =
      Returned (G\<lparr>lv_context := SignalSet_on_wait success (lv_context G)\<rparr>)" if "ctx_signal_wait (lv_context G)"
    using that running by (cases rest) (simp_all add: app SignalSet_on_wait_def)
  moreover have "event_loop M d (live_of g) (es @ Accepted v success False started i # rest) = Escaped"
    if "map_of (lv_servers G) v = Some s" "free_id d G i" for v s i started
    using that running by (simp add: app server_acts_live_def TcpServer_on_accept_def)
  ultimately show ?thesis unfolding main by simp
qed

theorem main_exit_code_witness:
  "main sample_config_lib (\<lambda>c. True) Suc 0
     (context_run sample_lib 0 [Accepted 2 None True True 5, Accepted 2 None False True 6, Signalled None]
        :: (nat, 8 word, frame, unit, 16 word) gateway \<Rightarrow> unit startup)
     (\<lambda>path. Some (sample_document (JArr [sample_range 9])))
     (\<lambda>options argv. Some \<lparr>cl_help = 0, cl_config = Some (argv ! 2)\<rparr>) [''modbus_gateway'', ''-c'', ''gw.json''] =
   Ok (1, Some (ExceptionReport None))"
proof -
  from run_gateway obtain g :: "(nat, 8 word, frame, unit, 16 word) gateway" where
    g: "Gateway_start (\<lambda>c. True) Suc 0 run_config = Ok g"
    and live: "lv_masters (live_of g) = [(1, ClientActor (TcpClient_SetId 1 (ModbusTcpClient 0 (- 1))))]"
      "lv_servers (live_of g) = [(2, \<lparr>srv_id = 2, srv_clientDb = []\<rparr>)]"
      "lv_slaves (live_of g) = Map.empty" "lv_reading (live_of g) = {}" "lv_context (live_of g) = SignalSet_start" by blast
  let ?c = "\<lparr>cl_help = 0, cl_config = Some ''gw.json''\<rparr>"
    and ?parse = "\<lambda>(options :: (string \<times> string \<times> bool) list) argv. Some \<lparr>cl_help = 0, cl_config = Some (argv ! 2 :: string)\<rparr>"
    and ?argv = "[''modbus_gateway'', ''-c'', ''gw.json'']"
  have args: "CommandLine ?parse ?argv = Some ?c" by (simp add: CommandLine_def)
  have c: "\<not> CommandLine_IsHelp ?c" "cl_config ?c = Some ''gw.json''" by (simp_all add: CommandLine_IsHelp_def)
  have cfg: "Config sample_config_lib (Some (sample_document (JArr [sample_range 9]))) = Inr run_config"
    by (simp add: sample_good run_config_def)
  have valid: "Config_Validate run_config = Inr ()" by (simp add: Config_Validate_def run_config_def)
  let ?G = "(live_of g)\<lparr>lv_servers := [(2, \<lparr>srv_id = 2, srv_clientDb = [(5, ())]\<rparr>)],
     lv_slaves := [5 \<mapsto> new_connection 0 2 (lv_router (live_of g)) 5], lv_reading := {5}\<rparr>"
  have "map_of (lv_servers ?G) 2 = Some \<lparr>srv_id = 2, srv_clientDb = [(5, ())]\<rparr> \<and> free_id 0 ?G 6"
    by (simp add: free_id_def live(1))
  with conjunct2 [OF conjunct2 [OF main_exit_code [where rest = "[Signalled None]"
        and read_json = "\<lambda>path. Some (sample_document (JArr [sample_range 9]))",
        OF args c cfg valid g run_accept [OF live, of sample_lib]]]]
  show ?thesis by simp
qed

end
