(* ===== verification/Isolation.thy ===== *)
theory Isolation
  imports Gateway_Run
begin

text \<open>
  What a group of actors of the running gateway sees of the others: nothing but the messages the
  exchange hands over, and for connections the accept and the removal by their server. \<open>part\<close> is
  what the group consists of, \<open>local_trace\<close> what happens to it during a run of the event loop,
  and its state after the run is a function of the two (\<open>local_run_trace\<close>).
\<close>

subsection \<open>The part of the gateway that belongs to a group of actors\<close>

definition part :: "actor_id set \<Rightarrow> ('b, 't) live \<Rightarrow> ('b, 't) live" where
  "part A G = \<lparr>lv_masters = filter (\<lambda>x. fst x \<in> A) (lv_masters G),
     lv_servers = filter (\<lambda>x. fst x \<in> A) (lv_servers G), lv_slaves = lv_slaves G |` A,
     lv_router = lv_router G, lv_mail = [], lv_reading = lv_reading G \<inter> A,
     lv_wire = filter (\<lambda>x. fst x \<in> A) (lv_wire G), lv_context = SignalSet_start\<rparr>"

lemma part_eq_iff: "part A G = part A H \<longleftrightarrow>
    filter (\<lambda>x. fst x \<in> A) (lv_masters G) = filter (\<lambda>x. fst x \<in> A) (lv_masters H) \<and>
    filter (\<lambda>x. fst x \<in> A) (lv_servers G) = filter (\<lambda>x. fst x \<in> A) (lv_servers H) \<and>
    lv_slaves G |` A = lv_slaves H |` A \<and> lv_router G = lv_router H \<and>
    lv_reading G \<inter> A = lv_reading H \<inter> A \<and>
    filter (\<lambda>x. fst x \<in> A) (lv_wire G) = filter (\<lambda>x. fst x \<in> A) (lv_wire H)"
  by (simp add: part_def)

lemma part_idem [simp]: "part A (part A G) = part A G"
  by (simp add: part_def Int_assoc)

lemma part_unchanged [simp]:
  "part A (G\<lparr>lv_mail := xs\<rparr>) = part A G" "part A (G\<lparr>lv_context := c\<rparr>) = part A G"
  by (simp_all add: part_def)

lemma map_of_part: "a \<in> A \<Longrightarrow> map_of (filter (\<lambda>x. fst x \<in> A) xs) a = map_of xs a"
  by (induction xs) auto

lemma update_part: "filter (\<lambda>x. fst x \<in> A) (AList.update v s xs) =
    (if v \<in> A then AList.update v s (filter (\<lambda>x. fst x \<in> A) xs) else filter (\<lambda>x. fst x \<in> A) xs)"
  by (induction xs) auto

text \<open>Everything a group looks up about its own actors is in its part.\<close>

lemma part_lookup:
  assumes "part A G = part A H" and "a \<in> A"
  shows "map_of (lv_masters G) a = map_of (lv_masters H) a" "map_of (lv_servers G) a = map_of (lv_servers H) a"
    "lv_slaves G a = lv_slaves H a" "a \<in> lv_reading G \<longleftrightarrow> a \<in> lv_reading H"
proof -
  note eq = assms(1) [unfolded part_eq_iff]
  from eq have "map_of (filter (\<lambda>x. fst x \<in> A) (lv_masters G)) a = map_of (filter (\<lambda>x. fst x \<in> A) (lv_masters H)) a"
    and "map_of (filter (\<lambda>x. fst x \<in> A) (lv_servers G)) a = map_of (filter (\<lambda>x. fst x \<in> A) (lv_servers H)) a"
    by simp_all
  with assms(2) show "map_of (lv_masters G) a = map_of (lv_masters H) a"
    and "map_of (lv_servers G) a = map_of (lv_servers H) a" by (simp_all only: map_of_part)
  from eq have "(lv_slaves G |` A) a = (lv_slaves H |` A) a" by simp
  with assms(2) show "lv_slaves G a = lv_slaves H a" by (simp add: restrict_map_def)
  from eq assms(2) show "a \<in> lv_reading G \<longleftrightarrow> a \<in> lv_reading H" by blast
qed

subsection \<open>Handlers act on the part as they act on the whole\<close>

definition part_outcome :: "actor_id set \<Rightarrow> ('b, 't) live outcome \<Rightarrow> ('b, 't) live outcome" where
  "part_outcome A x = and_then x (\<lambda>G. Done (part A G))"

lemma part_outcome_simps [simp]:
  "part_outcome A (Done G) = Done (part A G)" "part_outcome A Throws = Throws" "part_outcome A Undefined = Undefined"
  by (simp_all add: part_outcome_def)

lemma restrict_upd: "(f(a := x)) |` A = (if a \<in> A then (f |` A)(a := x) else f |` A)"
  by (auto simp: restrict_map_def)

text \<open>Registering, reading and writing keep equal parts equal.\<close>

lemma part_updates:
  assumes "part A G = part A H"
  shows "part A (G\<lparr>lv_slaves := (lv_slaves G)(a := x)\<rparr>) = part A (H\<lparr>lv_slaves := (lv_slaves H)(a := x)\<rparr>)"
    and "part A (G\<lparr>lv_reading := insert a (lv_reading G)\<rparr>) = part A (H\<lparr>lv_reading := insert a (lv_reading H)\<rparr>)"
    and "part A (G\<lparr>lv_reading := lv_reading G - {a}\<rparr>) = part A (H\<lparr>lv_reading := lv_reading H - {a}\<rparr>)"
    and "part A (G\<lparr>lv_wire := lv_wire G @ [(a, b)]\<rparr>) = part A (H\<lparr>lv_wire := lv_wire H @ [(a, b)]\<rparr>)"
    and "part A (G\<lparr>lv_masters := AList.update a m (lv_masters G)\<rparr>) = part A (H\<lparr>lv_masters := AList.update a m (lv_masters H)\<rparr>)"
    and "v = w \<or> a \<notin> A \<Longrightarrow> part A (G\<lparr>lv_servers := AList.update a v (lv_servers G)\<rparr>) =
      part A (H\<lparr>lv_servers := AList.update a w (lv_servers H)\<rparr>)"
  using assms unfolding part_eq_iff by (auto simp: restrict_upd update_part simp del: restrict_fun_upd)

lemma apply_effects_cong:
  "part A G = part A H \<Longrightarrow> part A (apply_effects d w os G) = part A (apply_effects d w os H)"
proof (induction os arbitrary: G H)
  case (Cons e os)
  have router: "lv_router G = lv_router H" using Cons.prems by (simp add: part_eq_iff)
  note upd = part_updates [OF Cons.prems]
  show ?case
  proof (cases e)
    case (Exchange_delete a)
    from part_updates(3) [OF upd(1)] show ?thesis
      by (simp add: Exchange_delete) (rule Cons.IH, simp)
  qed (use Cons.prems upd router in \<open>auto intro!: Cons.IH\<close>)
qed simp

text \<open>The handler of one actor, started in equal parts; what a server does to others needs no table of it.\<close>

lemma acts_cong:
  assumes "part A G = part A H"
  shows "part_outcome A (slave_acts_live L d a n e G) = part_outcome A (slave_acts_live L d a n e H)"
    and "part_outcome A (master_acts_live L d r m f G) = part_outcome A (master_acts_live L d r m f H)"
    and "s = t \<or> v \<notin> A \<Longrightarrow> part_outcome A (server_acts_live d v s (Server_message msg) G) =
      part_outcome A (server_acts_live d v t (Server_message msg) H)"
    and "s = t \<or> v \<notin> A \<Longrightarrow> part_outcome A (server_acts_live d v s (Server_accept ec peer started i ()) G) =
      part_outcome A (server_acts_live d v t (Server_accept ec peer started i ()) H)"
proof -
  note upd = part_updates [OF assms]
  show "part_outcome A (slave_acts_live L d a n e G) = part_outcome A (slave_acts_live L d a n e H)"
    by (cases "slave_step L d n e") (auto simp: slave_acts_live_def intro!: apply_effects_cong upd)
  show "part_outcome A (master_acts_live L d r m f G) = part_outcome A (master_acts_live L d r m f H)"
    by (cases "master_step L d m f") (auto simp: master_acts_live_def intro!: apply_effects_cong upd)
  have cong: "s = t \<or> v \<notin> A \<Longrightarrow> part A (apply_effects d v os (G\<lparr>lv_servers := AList.update v (f s) (lv_servers G)\<rparr>)) =
      part A (apply_effects d v os (H\<lparr>lv_servers := AList.update v (f t) (lv_servers H)\<rparr>))" for os and f :: "unit tcp_server \<Rightarrow> unit tcp_server"
    by (rule apply_effects_cong, rule upd(6)) auto
  show "part_outcome A (server_acts_live d v s (Server_message msg) G) =
      part_outcome A (server_acts_live d v t (Server_message msg) H)" if "s = t \<or> v \<notin> A"
    using cong [OF that, of "snd (TcpServer_Receive True msg s)" "\<lambda>s. fst (TcpServer_Receive True msg s)"]
    by (cases msg) (simp_all add: server_acts_live_def TcpServer_Receive_def TcpServer_ClientDisconnect_def)
  show "part_outcome A (server_acts_live d v s (Server_accept ec peer started i ()) G) =
      part_outcome A (server_acts_live d v t (Server_accept ec peer started i ()) H)" if "s = t \<or> v \<notin> A"
    using cong [OF that, of _ "\<lambda>s. s"]
      cong [OF that, of _ "\<lambda>s. s\<lparr>srv_clientDb := AList.update i () (srv_clientDb s)\<rparr>"]
    by (cases ec) (auto simp: server_acts_live_def TcpServer_on_accept_def Let_def simp del: apply_effects.simps)
qed

text \<open>Actors outside a group leave its part as it is, servers apart.\<close>

lemma apply_effects_outside:
  "w \<notin> A \<Longrightarrow> list_all (\<lambda>e. \<not> registers e) os \<Longrightarrow> part A (apply_effects d w os G) = part A G"
  by (induction d w os G rule: apply_effects.induct) (simp_all add: part_def)

lemma acts_outside:
  assumes "a \<notin> A"
  shows "slave_acts_live L d a n e G = Done G' \<Longrightarrow> part A G' = part A G"
    and "master_acts_live L d a m f G = Done G' \<Longrightarrow> part A G' = part A G"
proof -
  assume "slave_acts_live L d a n e G = Done G'"
  then obtain n' os where step: "slave_step L d n e = Done (n', os)"
    and G': "G' = apply_effects d a os (G\<lparr>lv_slaves := (lv_slaves G)(a \<mapsto> n')\<rparr>)"
    by (auto simp: slave_acts_live_def and_then_Done_iff)
  show "part A G' = part A G" unfolding G' apply_effects_outside [OF assms slave_step_registers [OF step]]
    using assms by (simp add: part_def)
next
  assume "master_acts_live L d a m f G = Done G'"
  then obtain m' os where step: "master_step L d m f = Done (m', os)"
    and G': "G' = apply_effects d a os (G\<lparr>lv_masters := AList.update a m' (lv_masters G)\<rparr>)"
    by (auto simp: master_acts_live_def and_then_Done_iff)
  show "part A G' = part A G"
    unfolding G' apply_effects_outside [OF assms plain_registers [OF master_step_plain [OF step]]]
    using assms by (simp add: part_def update_part)
qed

subsection \<open>What happens to a group\<close>

text \<open>
  A completion of an operation of one of its actors, a message handed to one of them, a
  connection that a server accepts, and one that a server outside the group removes.
\<close>

datatype ('b, 't) local_event =
    Own "('b, 't) gateway_event"
  | Handed chrono_rep actor_id "('b, 't) message"
  | Joined actor_id error_code bool bool actor_id
  | Left actor_id actor_id

definition handed_over :: "actor_id set \<Rightarrow> ('b, 't) live \<Rightarrow> chrono_rep \<Rightarrow> actor_id \<times> ('b, 't) message \<Rightarrow>
    ('b, 't) local_event list" where
  "handed_over A G now letter = (case letter of (a, m) \<Rightarrow>
     if a \<in> A then [Handed now a m]
     else if map_of (lv_masters G) a = None \<and> map_of (lv_servers G) a \<noteq> None
     then (case m of ClientDisconnectMessage c \<Rightarrow> if c \<in> A then [Left a c] else [] | _ \<Rightarrow> [])
     else [])"

fun happens :: "actor_id \<Rightarrow> actor_id set \<Rightarrow> ('b, 't) live \<Rightarrow> ('b, 't) gateway_event \<Rightarrow> ('b, 't) local_event list" where
  "happens d A G (Accepted v ec peer started i) =
     (if (v \<in> A \<or> i \<in> A) \<and> map_of (lv_servers G) v \<noteq> None \<and> free_id d G i then [Joined v ec peer started i] else [])"
| "happens d A G (Received a now ec buffer sz) = (if a \<in> A then [Own (Received a now ec buffer sz)] else [])"
| "happens d A G (Written a ec) = (if a \<in> A then [Own (Written a ec)] else [])"
| "happens d A G (Master_completed r e) = (if r \<in> A then [Own (Master_completed r e)] else [])"
| "happens d A G (Delivered now i) = (if i < length (lv_mail G) then handed_over A G now (lv_mail G ! i) else [])"
| "happens d A G (Signalled ec) = []"

fun local_trace :: "('b, 'u::len word, 't::len word) modbus_lib \<Rightarrow> actor_id \<Rightarrow> actor_id set \<Rightarrow>
    ('b, 't word) live \<Rightarrow> ('b, 't word) gateway_event list \<Rightarrow> ('b, 't word) local_event list" where
  "local_trace L d A G [] = []"
| "local_trace L d A G (e # es) = (if ctx_stopped (lv_context G) then []
     else happens d A G e @ (case gateway_step L d G e of Done G' \<Rightarrow> local_trace L d A G' es | _ \<Rightarrow> []))"

text \<open>
  The same on the part alone. A server outside the group is not in it; what it does to the
  group does not depend on its table.
\<close>

definition some_server :: "actor_id \<Rightarrow> ('b, 't) live \<Rightarrow> actor_id \<Rightarrow> unit tcp_server" where
  "some_server d P v = (case map_of (lv_servers P) v of Some s \<Rightarrow> s | None \<Rightarrow> ModbusTcpServer d)"

fun local_step :: "('b, 'u::len word, 't::len word) modbus_lib \<Rightarrow> actor_id \<Rightarrow> ('b, 't word) live \<Rightarrow>
    ('b, 't word) local_event \<Rightarrow> ('b, 't word) live outcome" where
  "local_step L d P (Own e) = gateway_step L d P e"
| "local_step L d P (Handed now a m) = deliver L d now (a, m) P"
| "local_step L d P (Joined v ec peer started i) =
     server_acts_live d v (some_server d P v) (Server_accept ec peer started i ()) P"
| "local_step L d P (Left v a) = server_acts_live d v (some_server d P v) (Server_message (ClientDisconnectMessage a)) P"

fun local_run :: "('b, 'u::len word, 't::len word) modbus_lib \<Rightarrow> actor_id \<Rightarrow> actor_id set \<Rightarrow> ('b, 't word) live \<Rightarrow>
    ('b, 't word) local_event list \<Rightarrow> ('b, 't word) live outcome" where
  "local_run L d A P [] = Done P"
| "local_run L d A P (i # is) = and_then (local_step L d P i) (\<lambda>P'. local_run L d A (part A P') is)"

lemma deliver_cong:
  assumes "part A G = part A H" and "a \<in> A"
  shows "part_outcome A (deliver L d now (a, m) G) = part_outcome A (deliver L d now (a, m) H)"
  using acts_cong [OF assms(1)] part_lookup [OF assms] assms(1)
  by (auto simp: deliver_def split: option.split)

text \<open>A step of the gateway does to the part what the local event does, if there is one, and nothing else.\<close>

lemma gateway_step_happens:
  assumes "happens d A G e = [i]"
  shows "part_outcome A (gateway_step L d G e) = part_outcome A (local_step L d (part A G) i)"
proof -
  have eq: "part A G = part A (part A G)" by simp
  note acts = acts_cong [OF eq] and look = part_lookup [OF eq]
  show ?thesis
  proof (cases e)
    case (Accepted v ec peer started c)
    with assms obtain s where s: "map_of (lv_servers G) v = Some s" "free_id d G c" "i = Joined v ec peer started c"
      by (auto split: if_splits)
    have "s = some_server d (part A G) v \<or> v \<notin> A"
      using look(2) [of v] s(1) by (auto simp: some_server_def split: option.split)
    from acts(4) [OF this] s show ?thesis by (simp add: Accepted)
  next
    case (Received a now ec buffer sz)
    with assms have a: "a \<in> A" "i = Own e" by (auto split: if_splits)
    from part_updates(3) [OF eq, of a] have eq': "part A (G\<lparr>lv_reading := lv_reading G - {a}\<rparr>) =
      part A ((part A G)\<lparr>lv_reading := lv_reading (part A G) - {a}\<rparr>)" .
    note cong = acts_cong(1) [OF this]
    from look(3,4) [OF a(1)] show ?thesis
      by (simp add: Received a(2) cong [of L] split: option.split)
  next
    case (Written a ec)
    with assms have a: "a \<in> A" "i = Own e" by (auto split: if_splits)
    with acts(1) [of L] look(3) [OF a(1)] show ?thesis by (simp add: Written split: option.split)
  next
    case (Master_completed r f)
    with assms have a: "r \<in> A" "i = Own e" by (auto split: if_splits)
    with acts(2) [of L] look(1) [OF a(1)] show ?thesis by (simp add: Master_completed split: option.split)
  next
    case (Delivered now n)
    let ?G = "G\<lparr>lv_mail := take n (lv_mail G) @ drop (Suc n) (lv_mail G)\<rparr>"
    obtain a m where letter: "lv_mail G ! n = (a, m)" by fastforce
    with assms Delivered have n: "n < length (lv_mail G)" and over: "handed_over A G now (a, m) = [i]"
      by (auto split: if_splits)
    have eq': "part A ?G = part A (part A G)" by simp
    show ?thesis
    proof (cases "a \<in> A")
      case True
      with over have "i = Handed now a m" by (simp add: handed_over_def)
      with deliver_cong [OF eq' True] n letter show ?thesis by (simp add: Delivered)
    next
      case False
      with over obtain s c where s: "map_of (lv_masters G) a = None" "map_of (lv_servers G) a = Some s"
        "m = ClientDisconnectMessage c" "i = Left a c"
        by (auto simp: handed_over_def split: if_splits message.splits)
      with acts_cong(3) [OF eq', of s "some_server d (part A G) a" a d m] False n letter
      show ?thesis by (simp add: Delivered deliver_def)
    qed
  qed (use assms in simp)
qed

text \<open>A server that is neither in the group nor has to do with one of its connections.\<close>

lemma server_outside:
  assumes "v \<notin> A"
  shows "server_acts_live d v s (Server_accept ec peer started i ()) G = Done G' \<Longrightarrow> i \<notin> A \<Longrightarrow> part A G' = part A G"
    and "server_acts_live d v s (Server_message m) G = Done G' \<Longrightarrow>
      \<forall>a. m = ClientDisconnectMessage a \<longrightarrow> a \<notin> A \<Longrightarrow> part A G' = part A G"
  using assms
  by (auto simp: server_acts_live_def TcpServer_defs and_then_Done_iff part_def update_part Let_def
      split: option.splits if_splits message.splits)

lemma happens_cases: "happens d A G e = [] \<or> (\<exists>i. happens d A G e = [i])"
  by (cases "(d, A, G, e)" rule: happens.cases)
    (auto simp: handed_over_def split: prod.split message.split)

lemma gateway_step_elsewhere:
  assumes "happens d A G e = []" and "gateway_step L d G e = Done G'"
  shows "part A G' = part A G"
proof (cases e)
  case (Accepted v ec peer started c)
  with assms show ?thesis
    by (auto split: if_splits option.splits dest: server_outside(1) [rotated])
next
  case (Received a now ec buffer sz)
  then have a: "a \<notin> A" using assms(1) by (auto split: if_splits)
  then have "part A (G\<lparr>lv_reading := lv_reading G - {a}\<rparr>) = part A G" by (auto simp: part_def)
  with assms(2) acts_outside(1) [OF a] show ?thesis by (fastforce simp: Received split: option.splits if_splits)
next
  case (Written a ec)
  then have "a \<notin> A" using assms(1) by (auto split: if_splits)
  with assms(2) show ?thesis by (auto simp: Written dest: acts_outside(1) split: option.splits)
next
  case (Master_completed r f)
  then have "r \<notin> A" using assms(1) by (auto split: if_splits)
  with assms(2) show ?thesis by (auto simp: Master_completed dest: acts_outside(2) split: option.splits if_splits)
next
  case (Delivered now n)
  let ?G = "G\<lparr>lv_mail := take n (lv_mail G) @ drop (Suc n) (lv_mail G)\<rparr>"
  obtain a m where letter: "lv_mail G ! n = (a, m)" by fastforce
  show ?thesis
  proof (cases "n < length (lv_mail G)")
    case True
    with assms(1) letter Delivered have over: "handed_over A G now (a, m) = []" by simp
    then have a: "a \<notin> A" by (auto simp: handed_over_def)
    have deliver: "deliver L d now (a, m) ?G = Done G'" using assms(2) letter True by (simp add: Delivered)
    have "part A G' = part A ?G"
    proof (cases "map_of (lv_masters G) a")
      case (Some s)
      with deliver have "master_acts_live L d a s (actor_message now s m) ?G = Done G'" by (simp add: deliver_def)
      then show ?thesis by (rule acts_outside(2) [OF a])
    next
      case master: None
      show ?thesis
      proof (cases "map_of (lv_servers G) a")
        case (Some s)
        with master over a have "\<forall>c. m = ClientDisconnectMessage c \<longrightarrow> c \<notin> A"
          by (auto simp: handed_over_def split: if_splits)
        with server_outside(2) [OF a _ this] deliver master Some show ?thesis by (auto simp: deliver_def)
      next
        case None
        with deliver master have "G' = ?G \<or> (\<exists>n. slave_acts_live L d a n (node_message n m) ?G = Done G')"
          by (auto simp: deliver_def split: option.splits)
        then show ?thesis by (blast dest: acts_outside(1) [OF a])
      qed
    qed
    then show ?thesis by simp
  next
    case False
    with assms(2) show ?thesis by (simp add: Delivered)
  qed
next
  case (Signalled ec)
  with assms(2) show ?thesis by (auto split: if_splits)
qed

text \<open>After a run of the event loop, the part is where the local run over its trace leads.\<close>

lemma local_run_trace:
  assumes "event_loop L d G es = Waiting G' \<or> event_loop L d G es = Returned G'"
  shows "local_run L d A (part A G) (local_trace L d A G es) = Done (part A G')"
  using assms
proof (induction es arbitrary: G)
  case Nil
  then show ?case by (auto split: if_splits)
next
  case (Cons e es)
  show ?case
  proof (cases "ctx_stopped (lv_context G)")
    case True
    with Cons.prems show ?thesis by auto
  next
    case False
    with Cons.prems obtain G1 where step: "gateway_step L d G e = Done G1"
      and rest: "event_loop L d G1 es = Waiting G' \<or> event_loop L d G1 es = Returned G'"
      by (auto split: outcome.splits)
    note IH = Cons.IH [OF rest]
    from happens_cases [of d A G e] show ?thesis
    proof
      assume none: "happens d A G e = []"
      from gateway_step_elsewhere [OF none step] IH none step False show ?thesis by simp
    next
      assume "\<exists>i. happens d A G e = [i]"
      then obtain i where i: "happens d A G e = [i]" ..
      from gateway_step_happens [OF i, of L] step
      obtain P where P: "local_step L d (part A G) i = Done P" "part A P = part A G1"
        by (cases "local_step L d (part A G) i") auto
      with IH i step False show ?thesis by simp
    qed
  qed
qed

subsection \<open>Properties\<close>

text \<open>
  isolation. Two runs of the event loop, of the same or of different gateways with the same
  routing table, in which a group of actors starts in the same states and the same happens to
  it (completions of its own operations, messages handed to it, connections accepted and
  removed) leave it in the same states and have it write the same frames in the same order,
  whatever the other actors do, however many they are, and in whatever order it all happens.
\<close>

lemma Gateway_isolation:
  assumes "event_loop L d G es = Waiting G' \<or> event_loop L d G es = Returned G'"
    and "event_loop L d H fs = Waiting H' \<or> event_loop L d H fs = Returned H'"
    and "part A G = part A H" and "local_trace L d A G es = local_trace L d A H fs"
  shows "part A G' = part A H'"
  using local_run_trace [OF assms(1), of A] local_run_trace [OF assms(2), of A] assms(3,4) by simp

theorem Gateway_isolation_witness:
  "\<exists>(g :: (nat, 8 word, frame, unit, 16 word) gateway) G H.
     event_loop sample_lib 0 (live_of g) [Accepted 2 None True True 5] = Waiting G \<and>
     event_loop sample_lib 0 (live_of g) [Accepted 2 None True True 6, Accepted 2 None True True 5, Signalled None] =
       Returned H \<and>
     lv_slaves G 5 \<noteq> None \<and> lv_slaves H 5 = lv_slaves G 5 \<and> lv_slaves H 6 \<noteq> lv_slaves G 6"
proof -
  from run_gateway obtain g :: "(nat, 8 word, frame, unit, 16 word) gateway" where
    live: "lv_masters (live_of g) = [(1, ClientActor (TcpClient_SetId 1 (ModbusTcpClient 0 (- 1))))]"
      "lv_servers (live_of g) = [(2, \<lparr>srv_id = 2, srv_clientDb = []\<rparr>)]"
      "lv_slaves (live_of g) = Map.empty" "lv_reading (live_of g) = {}" "lv_context (live_of g) = SignalSet_start" by blast
  let ?es = "[Accepted 2 None True True 5] :: (frame, 16 word) gateway_event list"
    and ?fs = "[Accepted 2 None True True 6, Accepted 2 None True True 5, Signalled None] :: (frame, 16 word) gateway_event list"
  note steps = SignalSet_start_def SignalSet_on_wait_def free_id_def server_acts_live_def TcpServer_defs Let_def
  obtain G where G: "event_loop sample_lib 0 (live_of g) ?es = Waiting G" "lv_slaves G 5 \<noteq> None" "lv_slaves G 6 = None"
    using run_accept [OF live, of sample_lib] live(3) by auto
  obtain H where H: "event_loop sample_lib 0 (live_of g) ?fs = Returned H" "lv_slaves H 6 \<noteq> None"
    using live by (simp add: steps)
  have "local_trace sample_lib 0 {5} (live_of g) ?es = local_trace sample_lib 0 {5} (live_of g) ?fs"
    using live by (simp add: steps)
  from part_lookup(3) [OF Gateway_isolation [OF disjI1 [OF G(1)] disjI2 [OF H(1)] refl this], of 5] G H
  show ?thesis by (intro exI [of _ g] exI [of _ G] exI [of _ H]) simp
qed

end
