(* ===== verification/Gateway_Answers.thy ===== *)
theory Gateway_Answers
  imports Isolation
begin

text \<open>
  A request through the running gateway, from the completed read of a connection to the frame
  written back to it: the handlers of the connection and of the master as the event loop calls
  them, with the two messages the exchange hands over between them.
\<close>

subsection \<open>What handlers of slaves and masters do to the running gateway\<close>

text \<open>The frames a list of effects starts to write.\<close>

fun writes :: "('b, 't) effect list \<Rightarrow> 'b list" where
  "writes [] = []"
| "writes (Async_send b # os) = b # writes os"
| "writes (_ # os) = writes os"

lemma writes_append [simp]: "writes (xs @ ys) = writes xs @ writes ys"
  by (induction xs rule: writes.induct) auto

text \<open>The gateway after effects that register nothing.\<close>

definition after_effects :: "actor_id \<Rightarrow> ('b, 't) effect list \<Rightarrow> ('b, 't) live \<Rightarrow> ('b, 't) live" where
  "after_effects w os G = G\<lparr>lv_mail := lv_mail G @ letters os, lv_wire := lv_wire G @ map (Pair w) (writes os),
     lv_reading := lv_reading G \<union> (if \<exists>f. Async_receive f \<in> set os then {w} else {})\<rparr>"

lemma apply_effects_after:
  assumes "list_all (\<lambda>e. \<not> registers e) os"
  shows "apply_effects d w os G = after_effects w os G"
proof -
  have "lv_wire (apply_effects d w os G) = lv_wire G @ map (Pair w) (writes os)"
    by (induction d w os G rule: apply_effects.induct) simp_all
  then show ?thesis
    using apply_effects_slaves [OF assms, of d w G] apply_effects_reading [OF assms, of d w G]
      apply_effects_mail [of d w os G]
    by (intro live.equality) (simp_all add: after_effects_def)
qed

lemma slave_acts_after:
  "slave_step L d n e = Done (n', os) \<Longrightarrow>
    slave_acts_live L d a n e G = Done (after_effects a os (G\<lparr>lv_slaves := (lv_slaves G)(a \<mapsto> n')\<rparr>))"
  by (simp add: slave_acts_live_def apply_effects_after slave_step_registers)

lemma master_acts_after:
  "master_step L d s e = Done (s', os) \<Longrightarrow> master_acts_live L d r s e G =
    Done (after_effects r os (G\<lparr>lv_masters := AList.update r s' (lv_masters G)\<rparr>))"
  by (simp add: master_acts_live_def apply_effects_after plain_registers [OF master_step_plain])

lemma master_step_kind: "master_step L d s e = Done (s', os) \<Longrightarrow> event_fits s' f = event_fits s f"
  by (cases "(L, d, s, e)" rule: master_step.cases; cases f) (auto simp: and_then_Done_iff)

lemma update_update: "AList.update k v (AList.update k w xs) = AList.update k v xs"
  by (induction xs) auto

text \<open>The loop over completions of one master: a run of the master.\<close>

lemma master_completions:
  assumes "run (master_step L d) s es = Done (s', os)" and "map_of (lv_masters G) r = Some s"
    and "list_all (\<lambda>e. master_completion e \<and> event_fits s e) es" and "\<not> ctx_stopped (lv_context G)"
  shows "event_loop L d G (map (Master_completed r) es @ rest) =
      event_loop L d (after_effects r os (G\<lparr>lv_masters := AList.update r s' (lv_masters G)\<rparr>)) rest \<and>
    (r \<in> A \<longrightarrow> local_trace L d A G (map (Master_completed r) es @ rest) = map (\<lambda>e. Own (Master_completed r e)) es @
      local_trace L d A (after_effects r os (G\<lparr>lv_masters := AList.update r s' (lv_masters G)\<rparr>)) rest)"
  using assms
proof (induction es arbitrary: s os G)
  case Nil
  then have "after_effects r os (G\<lparr>lv_masters := AList.update r s' (lv_masters G)\<rparr>) = G"
    by (cases G) (simp add: after_effects_def update_same)
  then show ?case by simp
next
  case (Cons e es)
  then obtain s1 os1 os2 where step: "master_step L d s e = Done (s1, os1)"
    and rest: "run (master_step L d) s1 es = Done (s', os2)" and os: "os = os1 @ os2"
    by (auto simp: run_Cons_Done simp del: run.simps)
  let ?G = "after_effects r os1 (G\<lparr>lv_masters := AList.update r s1 (lv_masters G)\<rparr>)"
  have "map_of (lv_masters ?G) r = Some s1" and "\<not> ctx_stopped (lv_context ?G)"
    using Cons.prems(4) by (simp_all add: after_effects_def map_of_update)
  moreover have "list_all (\<lambda>e. master_completion e \<and> event_fits s1 e) es"
    using Cons.prems(3) by (simp add: master_step_kind [OF step])
  moreover have "after_effects r os2 (?G\<lparr>lv_masters := AList.update r s' (lv_masters ?G)\<rparr>) =
      after_effects r os (G\<lparr>lv_masters := AList.update r s' (lv_masters G)\<rparr>)"
    by (auto simp: after_effects_def os update_update)
  ultimately show ?case
    using Cons.IH [OF rest, of ?G] Cons.prems(2-4) by (simp add: master_acts_after [OF step])
qed

subsection \<open>A transaction\<close>

lemma gateway_step_router: "gateway_step L d G e = Done G' \<Longrightarrow> lv_router G' = lv_router G"
  by (cases e) (auto simp: deliver_def server_acts_live_def slave_acts_live_def master_acts_live_def
      and_then_Done_iff split: option.splits if_splits prod.splits)

lemma event_loop_router:
  "event_loop L d G es = Waiting G' \<or> event_loop L d G es = Returned G' \<Longrightarrow> lv_router G' = lv_router G"
  by (rule event_loop_induct [where P = "\<lambda>x. lv_router x = lv_router G"]) (auto dest: gateway_step_router)

text \<open>
  The completions of a request of connection \<open>a\<close> to master \<open>r\<close> in the order they occur when
  nothing else happens: the read, the request handed over, what completes at the master, and the
  reply handed over, with \<open>n\<close> other letters in transit.
\<close>

definition transaction :: "actor_id \<Rightarrow> actor_id \<Rightarrow> nat \<Rightarrow> chrono_rep \<Rightarrow> 'b \<Rightarrow> nat \<Rightarrow> chrono_rep \<Rightarrow>
    ('b, 't) master_event list \<Rightarrow> chrono_rep \<Rightarrow> ('b, 't) gateway_event list" where
  "transaction a r n now buffer sz now' completions now'' =
     [Received a now success buffer sz, Delivered now' n] @ map (Master_completed r) completions @ [Delivered now'' n]"

text \<open>What happens to the two actors in it, with the request \<open>m\<close> and the reply \<open>m'\<close>.\<close>

definition exchange_trace :: "actor_id \<Rightarrow> actor_id \<Rightarrow> chrono_rep \<Rightarrow> 'b \<Rightarrow> nat \<Rightarrow> chrono_rep \<Rightarrow> ('b, 't) modbus_message \<Rightarrow>
    ('b, 't) master_event list \<Rightarrow> chrono_rep \<Rightarrow> ('b, 't) modbus_message \<Rightarrow> ('b, 't) local_event list" where
  "exchange_trace a r now buffer sz now' m completions now'' m' =
     [Own (Received a now success buffer sz), Handed now' r (ModbusMsg m)] @
     map (\<lambda>e. Own (Master_completed r e)) completions @ [Handed now'' a (ModbusMsg m')]"

text \<open>The frame a connection writes for a reply with frame \<open>rp\<close> to the request \<open>rq\<close>.\<close>

definition answer_frame :: "('b, 'u, 't) modbus_lib \<Rightarrow> 'b \<Rightarrow> 'b \<Rightarrow> 'b" where
  "answer_frame L rq rp = tcp_set_tid L (tcp_get_tid L rq) (tcp_update L (mb_convert_to L TCP rp))"

text \<open>
  Between a slave-side actor that forwards a request and writes an answer, and a master that
  takes the request and replies, the loop does the rest.
\<close>

lemma node_transaction:
  fixes L :: "('b, 'u::len word, 't::len word) modbus_lib"
  assumes named: "named TYPE('u word) d G" and running: "\<not> ctx_stopped (lv_context G)"
    and node: "lv_slaves G a = Some n" "a \<in> lv_reading G"
    and forward: "slave_step L d n (node_received n now success buffer sz) =
      Done (n1, [Exchange_send r (ModbusMsg m), Async_receive f])"
    and master: "map_of (lv_masters G) r = Some s"
    and accept: "master_step L d s (actor_message now' s (ModbusMsg m)) = Done (s1, os1)" "letters os1 = []"
    and completes: "run (master_step L d) s1 es = Done (s2, os2)" "list_all (\<lambda>e. master_completion e \<and> event_fits s e) es"
    and reply: "letters os2 = [(a, ModbusMsg m')]"
    and answer: "slave_step L d n1 (node_message n1 (ModbusMsg m')) = Done (n2, [Async_send out])"
  shows "\<exists>G'. event_loop L d G (transaction a r (length (lv_mail G)) now buffer sz now' es now'') = Waiting G' \<and>
    lv_wire G' = lv_wire G @ map (Pair r) (writes (os1 @ os2)) @ [(a, out)] \<and>
    lv_mail G' = lv_mail G \<and> lv_masters G' = AList.update r s2 (lv_masters G) \<and>
    lv_slaves G' = (lv_slaves G)(a \<mapsto> n2) \<and> a \<in> lv_reading G' \<and>
    local_trace L d {a, r} G (transaction a r (length (lv_mail G)) now buffer sz now' es now'') =
      exchange_trace a r now buffer sz now' m es now'' m'"
proof -
  from named node(1) have away: "a \<notin> fst ` set (lv_masters G)" "a \<notin> fst ` set (lv_servers G)"
    unfolding named_def by blast+
  have absent: "map_of (AList.update r s2 (lv_masters G)) a = None" "map_of (lv_servers G) a = None"
    using away map_of_SomeD [OF master] by (force simp: map_of_update map_of_eq_None_iff)+
  let ?G1 = "after_effects a [Exchange_send r (ModbusMsg m), Async_receive f]
    (G\<lparr>lv_reading := lv_reading G - {a}, lv_slaves := (lv_slaves G)(a \<mapsto> n1)\<rparr>)"
  let ?G2 = "after_effects r os1 (?G1\<lparr>lv_mail := lv_mail G, lv_masters := AList.update r s1 (lv_masters G)\<rparr>)"
  let ?G3 = "after_effects r os2 (?G2\<lparr>lv_masters := AList.update r s2 (lv_masters ?G2)\<rparr>)"
  have read: "gateway_step L d G (Received a now success buffer sz) = Done ?G1"
    using slave_acts_after [OF forward] node by simp
  have take: "gateway_step L d ?G1 (Delivered now' (length (lv_mail G))) = Done ?G2"
    using master master_acts_after [OF accept(1)] by (simp add: after_effects_def deliver_def)
  have "map_of (lv_masters ?G2) r = Some s1" and "\<not> ctx_stopped (lv_context ?G2)"
    using running by (simp_all add: after_effects_def map_of_update)
  moreover have "list_all (\<lambda>e. master_completion e \<and> event_fits s1 e) es"
    using completes(2) by (simp add: master_step_kind [OF accept(1)])
  ultimately have completed: "event_loop L d ?G2 (map (Master_completed r) es @ rest) = event_loop L d ?G3 rest"
    "local_trace L d {a, r} ?G2 (map (Master_completed r) es @ rest) =
      map (\<lambda>e. Own (Master_completed r e)) es @ local_trace L d {a, r} ?G3 rest" for rest
    using master_completions [OF completes(1), of ?G2 r rest "{a, r}"] by simp_all
  have mail: "lv_mail ?G3 = lv_mail G @ [(a, ModbusMsg m')]"
    using accept(2) reply by (simp add: after_effects_def)
  let ?G4 = "after_effects a [Async_send out] (?G3\<lparr>lv_mail := lv_mail G, lv_slaves := (lv_slaves ?G3)(a \<mapsto> n2)\<rparr>)"
  have answered: "gateway_step L d ?G3 (Delivered now'' (length (lv_mail G))) = Done ?G4"
    using slave_acts_after [OF answer] absent
    by (simp add: mail deliver_def) (simp add: after_effects_def update_update)
  have "event_loop L d G (transaction a r (length (lv_mail G)) now buffer sz now' es now'') = Waiting ?G4"
    using running read take completed answered
    by (simp add: transaction_def after_effects_def del: gateway_step.simps)
  moreover have "local_trace L d {a, r} G (transaction a r (length (lv_mail G)) now buffer sz now' es now'') =
      exchange_trace a r now buffer sz now' m es now'' m'"
    using running read take completed(2) answered mail
    by (simp add: transaction_def exchange_trace_def after_effects_def handed_over_def del: gateway_step.simps)
  ultimately show ?thesis
    by (intro exI [of _ ?G4]) (simp add: after_effects_def update_update)
qed

lemma loop_transaction:
  fixes L :: "('b, 'u::len word, 't::len word) modbus_lib"
  assumes named: "named TYPE('u word) d G" and running: "\<not> ctx_stopped (lv_context G)"
    and conn: "lv_slaves G a = Some (Connection_node c)" "a \<in> lv_reading G"
    and request: "mb_set_adu_size L sz buffer = Some rq" "tcp_check L rq" "Router_Route (lv_router G) (mb_unit_id L rq) = Some r"
    and master: "map_of (lv_masters G) r = Some s"
    and accept: "master_step L d s (actor_message now' s (ModbusMsg (request_of L now rq c))) = Done (s1, os1)" "letters os1 = []"
    and completes: "run (master_step L d) s1 es = Done (s2, os2)" "list_all (\<lambda>e. master_completion e \<and> event_fits s e) es"
    and reply: "letters os2 = [(a, ModbusMsg (ModbusMessage (ModbusMessageInfo now a (tcp_get_tid L rq)) (Some rp)))]"
  shows "\<exists>G'. event_loop L d G (transaction a r (length (lv_mail G)) now buffer sz now' es now'') = Waiting G' \<and>
    lv_wire G' = lv_wire G @ map (Pair r) (writes (os1 @ os2)) @ [(a, answer_frame L rq rp)] \<and>
    lv_mail G' = lv_mail G \<and> lv_masters G' = AList.update r s2 (lv_masters G) \<and>
    lv_slaves G' = (lv_slaves G)(a \<mapsto> Connection_node (c\<lparr>conn_requestInfo := None\<rparr>)) \<and> a \<in> lv_reading G' \<and>
    local_trace L d {a, r} G (transaction a r (length (lv_mail G)) now buffer sz now' es now'') =
      exchange_trace a r now buffer sz now' (request_of L now rq c) es now''
        (ModbusMessage (ModbusMessageInfo now a (tcp_get_tid L rq)) (Some rp))"
proof (rule node_transaction [OF named running conn _ master accept completes reply])
  let ?i = "ModbusMessageInfo now a (tcp_get_tid L rq)"
  let ?c1 = "Connection_node (c\<lparr>conn_requestInfo := Some ?i\<rparr>)"
  from named conn(1) have id: "conn_id c = a" "conn_router c = lv_router G"
    unfolding named_def by (metis slave_id.simps(1) slave_router.simps(1))+
  have "Router_Route (conn_router c) (mb_unit_id L rq) = Some r" using request(3) id(2) by simp
  from connection_forwards [OF request(1,2) this, of now]
  show "slave_step L d (Connection_node c) (node_received (Connection_node c) now success buffer sz) =
      Done (?c1, [Exchange_send r (ModbusMsg (request_of L now rq c)), Async_receive TCP])"
    by (simp add: node_received_def id)
  have "TcpConnection_Receive L (ModbusMsg (ModbusMessage ?i (Some rp))) (c\<lparr>conn_requestInfo := Some ?i\<rparr>) =
      (c\<lparr>conn_requestInfo := None\<rparr>, [Async_send (answer_frame L rq rp)])"
    by (simp add: connection_answers ModbusMessageInfo_def id answer_frame_def)
  then show "slave_step L d ?c1 (node_message ?c1 (ModbusMsg (ModbusMessage ?i (Some rp)))) =
      Done (Connection_node (c\<lparr>conn_requestInfo := None\<rparr>), [Async_send (answer_frame L rq rp)])"
    by (simp add: node_message_def)
qed

subsection \<open>The two kinds of masters\<close>

abbreviation serial_completions :: "chrono_rep \<Rightarrow> 'b \<Rightarrow> nat \<Rightarrow> ('b, 't) master_event list" where
  "serial_completions now rbuffer rsz \<equiv> [Serial_master_event (Master_written success),
     Serial_master_event (Master_read True now success rbuffer rsz)]"

lemma serial_transaction:
  assumes "rm_currentMessage s = None" and "lq_items (rm_messageQueue s) = []"
    and "\<not> message_expired now' (rm_timeout s) (request_of L now rq c)"
    and "mb_set_adu_size L rsz rbuffer = Some rp" and "mb_check L rp"
  obtains s1 s2 where
    "master_step L d (RtuActor s) (actor_message now' (RtuActor s) (ModbusMsg (request_of L now rq c))) =
      Done (RtuActor s1, [Async_send (rm_frame L s rq)])"
    and "run (master_step L d) (RtuActor s1) (serial_completions t rbuffer rsz) =
      Done (RtuActor s2, [Async_wait (rm_timeout s), Async_receive (rm_frameType s), Timer_cancel,
        Exchange_send (conn_id c) (ModbusMsg (ModbusMessage (ModbusMessageInfo now (conn_id c) (tcp_get_tid L rq)) (Some rp)))])"
    and "rm_currentMessage s2 = None" and "lq_items (rm_messageQueue s2) = []"
proof -
  let ?m = "request_of L now rq c"
  let ?s1 = "rm_take L ?m rq [] (s\<lparr>rm_messageQueue := LimitQueue_Push ?m (rm_messageQueue s)\<rparr>)"
  let ?s2 = "?s1\<lparr>rm_currentMessage := None, rm_messageQueue := (rm_messageQueue ?s1)\<lparr>lq_items := []\<rparr>\<rparr>"
  have m: "modbusBuffer ?m = Some rq" "modbusMessageInfo ?m = ModbusMessageInfo now (conn_id c) (tcp_get_tid L rq)"
    by (simp_all add: request_of_def step_simps)
  from rtu_accepts [OF assms(1-3) m(1), of L] have "master_step L d (RtuActor s) (actor_message now' (RtuActor s) (ModbusMsg ?m)) =
      Done (RtuActor ?s1, [Async_send (rm_frame L s rq)])" by (simp add: actor_message_def)
  moreover have "RtuMaster_on_write success ?s1 = (?s1, [Async_wait (rm_timeout s), Async_receive (rm_frameType s)])"
    by (simp add: RtuMaster_small_defs rm_take_def)
  then have "run (master_step L d) (RtuActor ?s1) (serial_completions t rbuffer rsz) =
      Done (RtuActor ?s2, [Async_wait (rm_timeout s), Async_receive (rm_frameType s), Timer_cancel,
        Exchange_send (conn_id c) (ModbusMsg (ModbusMessage (ModbusMessageInfo now (conn_id c) (tcp_get_tid L rq)) (Some rp)))])"
    using rtu_answers [of ?s1, OF _ _ assms(4,5)] m by (simp add: rm_take_def ModbusMessageInfo_def)
  moreover have "rm_currentMessage ?s2 = None" and "lq_items (rm_messageQueue ?s2) = []" by simp_all
  ultimately show thesis by (rule that)
qed

text \<open>A client that is not connected connects first; only then is the age of the request checked.\<close>

abbreviation client_completions :: "chrono_rep \<Rightarrow> bool \<Rightarrow> chrono_rep \<Rightarrow> 'b \<Rightarrow> nat \<Rightarrow> ('b, 't) master_event list" where
  "client_completions t1 is_open t2 rbuffer rsz \<equiv> [Client_event (Client_connected t1 success True),
     Client_event (Client_sent success is_open), Client_event (Client_received True t2 success is_open rbuffer rsz)]"

lemma client_message_transaction:
  assumes "tc_state s = Idle" and "tc_currentMessage s = None" and "lq_items (tc_messageQueue s) = []"
    and "\<not> message_expired t1 (tc_timeout s) m" and "modbusBuffer m = Some rq"
    and "mb_set_adu_size L rsz rbuffer = Some rp" and "tcp_check L rp"
    and "tcp_get_tid L rp = tc_transactionIdGenerator s + 1"
  obtains s1 s2 where
    "master_step L d (ClientActor s) (actor_message now' (ClientActor s) (ModbusMsg m)) =
      Done (ClientActor s1, [Async_connect])"
    and "run (master_step L d) (ClientActor s1) (client_completions t1 is_open t2 rbuffer rsz) =
      Done (ClientActor s2, [Async_send (tc_frame L s rq), Async_wait (tc_timeout s), Async_receive TCP, Timer_cancel,
        Exchange_send (sourceId (modbusMessageInfo m)) (ModbusMsg (ModbusMessage (modbusMessageInfo m) (Some rp)))])"
    and "tc_currentMessage s2 = None" and "lq_items (tc_messageQueue s2) = []" and "tc_state s2 = Connected"
proof -
  let ?s1 = "s\<lparr>tc_messageQueue := LimitQueue_Push m (tc_messageQueue s)\<rparr>"
  let ?sc = "tc_take L m rq [] (?s1\<lparr>tc_state := Connected\<rparr>)"
  let ?s2 = "?sc\<lparr>tc_currentMessage := None, tc_state := Connected\<rparr>"
  have pushed: "lq_items (LimitQueue_Push m (tc_messageQueue s)) = [m]"
    using assms(3) by (simp add: LimitQueue_defs)
  have "TcpClient_Receive L now' (ModbusMsg m) s = Done (?s1, [Async_connect])"
    using assms(1-3) by (simp add: TcpClient_Receive_def TcpClient_MessageProcess_def TcpClient_QueueProcess_eq pushed)
  then have "master_step L d (ClientActor s) (actor_message now' (ClientActor s) (ModbusMsg m)) =
      Done (ClientActor ?s1, [Async_connect])" by (simp add: actor_message_def)
  moreover have "TcpClient_on_connect L t1 success True ?s1 = Done (?sc, [Async_send (tc_frame L s rq)])"
    using assms(2,3,4,5)
    by (simp add: TcpClient_on_connect_def TcpClient_QueueProcess_eq pushed tc_frame_def Let_def)
  moreover have "TcpClient_on_send success is_open ?sc = (?sc, [Async_wait (tc_timeout s), Async_receive TCP])"
    by (simp add: TcpClient_small_defs tc_take_def)
  moreover have "TcpClient_on_receive L True t2 success is_open rbuffer rsz ?sc = Done (?s2, [Timer_cancel,
      Exchange_send (sourceId (modbusMessageInfo m)) (ModbusMsg (ModbusMessage (modbusMessageInfo m) (Some rp)))])"
  proof -
    obtain cc where "tc_currentMessage ?sc = Some cc" "cur_id cc = tc_transactionIdGenerator s + 1"
      "modbusMessageInfo (cur_message cc) = modbusMessageInfo m"
      by (simp add: tc_take_def)
    moreover have "lq_items (tc_messageQueue ?sc) = []" by (simp add: tc_take_def)
    ultimately show ?thesis using client_answers [OF _ _ assms(6,7), of ?sc] assms(8)
      by simp
  qed
  moreover have "tc_currentMessage ?s2 = None" "lq_items (tc_messageQueue ?s2) = []" "tc_state ?s2 = Connected"
    by (simp_all add: tc_take_def)
  ultimately show thesis by (intro that [of ?s1 ?s2]) simp_all
qed

text \<open>The same for the request a connection makes.\<close>

lemma client_transaction:
  assumes "tc_state s = Idle" and "tc_currentMessage s = None" and "lq_items (tc_messageQueue s) = []"
    and "\<not> message_expired t1 (tc_timeout s) (request_of L now rq c)"
    and "mb_set_adu_size L rsz rbuffer = Some rp" and "tcp_check L rp"
    and "tcp_get_tid L rp = tc_transactionIdGenerator s + 1"
  obtains s1 s2 where
    "master_step L d (ClientActor s) (actor_message now' (ClientActor s) (ModbusMsg (request_of L now rq c))) =
      Done (ClientActor s1, [Async_connect])"
    and "run (master_step L d) (ClientActor s1) (client_completions t1 is_open t2 rbuffer rsz) =
      Done (ClientActor s2, [Async_send (tc_frame L s rq), Async_wait (tc_timeout s), Async_receive TCP, Timer_cancel,
        Exchange_send (conn_id c) (ModbusMsg (ModbusMessage (ModbusMessageInfo now (conn_id c) (tcp_get_tid L rq)) (Some rp)))])"
    and "tc_currentMessage s2 = None" and "lq_items (tc_messageQueue s2) = []" and "tc_state s2 = Connected"
proof -
  have buffer: "modbusBuffer (request_of L now rq c) = Some rq"
    and info: "modbusMessageInfo (request_of L now rq c) = ModbusMessageInfo now (conn_id c) (tcp_get_tid L rq)"
    and src: "sourceId (ModbusMessageInfo now (conn_id c) (tcp_get_tid L rq)) = conn_id c"
    by (simp_all add: request_of_def step_simps ModbusMessageInfo_def)
  show thesis
    by (rule client_message_transaction [OF assms(1-4) buffer assms(5-7), of d now' is_open t2, unfolded info src])
      (rule that)
qed

text \<open>What a serial slave forwards of a frame it accepts, and the frame it writes for the reply.\<close>

definition line_request :: "chrono_rep \<Rightarrow> 'b \<Rightarrow> 't::len word rtu_slave \<Rightarrow> ('b, 't word) modbus_message" where
  "line_request now rq x = ModbusMessage (ModbusMessageInfo now (rs_id x) (rs_idGenerator x + 1)) (Some rq)"

lemma line_forwards:
  assumes "mb_set_adu_size L sz buffer = Some rq" and "mb_check L rq"
    and "Router_Route (rs_router x) (mb_unit_id L rq) = Some r"
  shows "RtuSlave_on_read L True now success buffer sz x =
    Done (x\<lparr>rs_idGenerator := rs_idGenerator x + 1,
        rs_requestInfo := Some (ModbusMessageInfo now (rs_id x) (rs_idGenerator x + 1))\<rparr>,
      [Exchange_send r (ModbusMsg (line_request now rq x)), Async_receive (rs_frameType x)])"
  using assms by (simp add: RtuSlave_defs step_simps line_request_def Let_def)

lemma line_answers:
  assumes "sourceId i = rs_id x"
  shows "RtuSlave_Receive L (ModbusMsg (ModbusMessage i (Some rp))) (x\<lparr>rs_requestInfo := Some i\<rparr>) =
    (x\<lparr>rs_requestInfo := None\<rparr>, [Async_send (mb_update L (mb_convert_to L (rs_frameType x) rp))])"
  using assms by (simp add: RtuSlave_defs step_simps Let_def)

text \<open>What the laws of the frame library make of the frame written back.\<close>

lemma answer_frame_laws:
  assumes "tid_readback L" and "convert_types L" and "unit_id_kept L"
  shows "mb_type L (answer_frame L rq rp) = TCP" "tcp_get_tid L (answer_frame L rq rp) = tcp_get_tid L rq"
    "mb_unit_id L (answer_frame L rq rp) = mb_unit_id L rp"
  using assms by (simp_all add: answer_frame_def convert_types_def unit_id_kept_def tid_readback_def)

text \<open>A connection of a reached state is known under its id and routes by the table of the gateway.\<close>

lemma reached_connection:
  fixes g :: "('a, 'u::len word, 'b, unit, 't::len word) gateway" and L :: "('b, 'u word, 't word) modbus_lib"
  assumes "Gateway_start opens add_id d cfg = Ok g" and "ids_fresh add_id d"
    and "event_loop L d (live_of g) es = Waiting G" and "lv_slaves G a = Some (Connection_node c)"
  shows "named TYPE('u word) d G" "conn_id c = a" "lv_router G = gw_router g"
proof -
  show "named TYPE('u word) d G"
    using gateway_reach(1) [OF assms(1,2) disjI1 [OF assms(3)]] by (simp add: live_inv_def)
  with assms(4) show "conn_id c = a" unfolding named_def by (metis slave_id.simps(1))
  show "lv_router G = gw_router g"
    using event_loop_router [OF disjI1 [OF assms(3)]] by (simp add: live_of_def)
qed

text \<open>The same of any slave-side actor.\<close>

lemma reached_node:
  fixes g :: "('a, 'u::len word, 'b, unit, 't::len word) gateway" and L :: "('b, 'u word, 't word) modbus_lib"
  assumes "Gateway_start opens add_id d cfg = Ok g" and "ids_fresh add_id d"
    and "event_loop L d (live_of g) es = Waiting G" and "lv_slaves G a = Some n"
  shows "named TYPE('u word) d G" "slave_id n = a" "slave_router n = gw_router g"
proof -
  show named: "named TYPE('u word) d G"
    using gateway_reach(1) [OF assms(1,2) disjI1 [OF assms(3)]] by (simp add: live_inv_def)
  have "lv_router G = gw_router g"
    using event_loop_router [OF disjI1 [OF assms(3)]] by (simp add: live_of_def)
  with named assms(4) show "slave_id n = a" "slave_router n = gw_router g" unfolding named_def by metis+
qed

subsection \<open>Concrete gateways with one master, for the witnesses\<close>

abbreviation sample_units :: "8 word master_config" where
  "sample_units \<equiv> \<lparr>mc_timeout = 1000, unitIdSet = [\<lparr>range_begin = 1, range_end = 9\<rparr>]\<rparr>"

abbreviation one_master_config :: "(nat, 8 word) transport_config \<Rightarrow> (nat, 8 word) config" where
  "one_master_config c \<equiv> \<lparr>configService = ConfigService_default, slaves = [TcpServerConfig 0 503], masters = [c]\<rparr>"

abbreviation one_line_config :: "(nat, 8 word) transport_config \<Rightarrow> (nat, 8 word) config" where
  "one_line_config c \<equiv> \<lparr>configService = ConfigService_default,
     slaves = [RtuSlaveConfig ''/dev/ttyS1'' sample_options RTU], masters = [c]\<rparr>"

lemma one_master_router:
  assumes "master_GetId x = 1" and config: "as_MasterConfig c = Some sample_units"
  shows "\<exists>r. MakeRouter 0 [\<lparr>gm_config = c, gm_actor = x\<rparr>] = Ok (Some r) \<and> Router_Route r (1 :: 8 word) = Some 1"
proof -
  let ?ms = "[\<lparr>gm_config = c, gm_actor = x\<rparr>]"
  have "masters_ok ?ms" using config by (simp add: masters_ok_def)
  from MakeRouter_defined [OF this, of 0] obtain r where r: "MakeRouter 0 ?ms = Ok (Some r)"
    and route: "\<forall>k. k \<noteq> - 1 \<longrightarrow> Router_Route r k = Some (case served ?ms k of Some i \<Rightarrow> i
      | None \<Rightarrow> if is_default (gm_config (hd ?ms)) then master_GetId (gm_actor (hd ?ms)) else 0)" by blast
  have "served ?ms (1 :: 8 word) = Some 1"
    using assms(1) config by (simp add: served_def serves_def in_range_def word_le_nat_alt)
  with spec [OF route, of 1] r show ?thesis by simp
qed

lemma one_master:
  assumes made: "MakeMasters (\<lambda>c. True) Suc 0 0 [] [c] = Ok ([\<lparr>gm_config = c, gm_actor = x\<rparr>], 1)"
    and "master_GetId x = 1" and config: "as_MasterConfig c = Some sample_units"
  shows "\<exists>g :: (nat, 8 word, frame, unit, 16 word) gateway. Gateway_start (\<lambda>c. True) Suc 0 (one_master_config c) = Ok g \<and>
    lv_masters (live_of g) = [(1, x)] \<and> lv_servers (live_of g) = [(2, \<lparr>srv_id = 2, srv_clientDb = []\<rparr>)] \<and>
    lv_slaves (live_of g) = Map.empty \<and> Router_Route (gw_router g) (1 :: 8 word) = Some 1 \<and>
    lv_reading (live_of g) = {} \<and> lv_mail (live_of g) = [] \<and> lv_context (live_of g) = SignalSet_start \<and>
    lv_wire (live_of g) = []"
  using one_master_router [OF assms(2,3)] made assms(2)
  by (auto simp: Gateway_start_def Slave_Start_def TcpServer_Start_def TcpServer_SetId_def ModbusTcpServer_def
      live_of_def TcpServer_GetId_def)

text \<open>The same with a serial line in place of the server.\<close>

lemma one_line:
  assumes made: "MakeMasters (\<lambda>c. True) Suc 0 0 [] [c] = Ok ([\<lparr>gm_config = c, gm_actor = x\<rparr>], 1)"
    and "master_GetId x = 1" and config: "as_MasterConfig c = Some sample_units"
  shows "\<exists>(g :: (nat, 8 word, frame, unit, 16 word) gateway) n. Gateway_start (\<lambda>c. True) Suc 0 (one_line_config c) = Ok g \<and>
    lv_masters (live_of g) = [(1, x)] \<and> lv_servers (live_of g) = [] \<and>
    lv_slaves (live_of g) = [2 \<mapsto> Serial_slave_node n] \<and> rs_id n = 2 \<and> rs_idGenerator n = 0 \<and> rs_frameType n = RTU \<and>
    Router_Route (gw_router g) (1 :: 8 word) = Some 1 \<and>
    lv_reading (live_of g) = {2} \<and> lv_mail (live_of g) = [] \<and> lv_context (live_of g) = SignalSet_start \<and>
    lv_wire (live_of g) = []"
proof -
  from one_master_router [OF assms(2,3)] obtain r where
    r: "MakeRouter 0 [\<lparr>gm_config = c, gm_actor = x\<rparr>] = Ok (Some r)" "Router_Route r (1 :: 8 word) = Some 1" by blast
  let ?n = "\<lparr>rs_id = 2, rs_router = r, rs_frameType = RTU, rs_idGenerator = 0, rs_requestInfo = None\<rparr> :: 16 word rtu_slave"
  let ?g = "\<lparr>gw_masters = [\<lparr>gm_config = c, gm_actor = x\<rparr>], gw_router = r,
      gw_slaves = [\<lparr>gs_config = RtuSlaveConfig ''/dev/ttyS1'' sample_options RTU, gs_actor = SlaveActor ?n\<rparr>],
      gw_effects = [Async_receive RTU], gw_logLevel = logLevel ConfigService_default,
      gw_threads = threads ConfigService_default\<rparr> :: (nat, 8 word, frame, unit, 16 word) gateway"
  have "Gateway_start (\<lambda>c. True) Suc 0 (one_line_config c) = Ok ?g"
    using r made by (simp add: Gateway_start_def Slave_Start_def RtuSlave_Start_def RtuSlave_SetId_def ModbusRtuSlave_def
        RtuSlave_StartReadTask_def)
  moreover have "lv_masters (live_of ?g) = [(1, x)]" "lv_servers (live_of ?g) = []"
    "lv_slaves (live_of ?g) = [2 \<mapsto> Serial_slave_node ?n]" "lv_reading (live_of ?g) = {2}" "lv_mail (live_of ?g) = []"
    "lv_context (live_of ?g) = SignalSet_start" "lv_wire (live_of ?g) = []" "gw_router ?g = r"
    using assms(2) by (simp_all add: live_of_def RtuSlave_GetId_def)
  ultimately show ?thesis using r(2) by (intro exI [of _ ?g] exI [of _ ?n]) (simp del: One_nat_def)
qed

text \<open>A gateway with one TCP client that has answered the first request of a connection.\<close>

abbreviation answered_events :: "(frame, 16 word) gateway_event list" where
  "answered_events \<equiv> [Accepted 2 None True True 5] @ transaction 5 1 0 0 (sample_frame TCP 1 7) 9 0
     (client_completions 0 True 0 (sample_frame TCP 1 1) 9) 0"

lemma answered_gateway:
  "\<exists>(g :: (nat, 8 word, frame, unit, 16 word) gateway) G s wire out.
     Gateway_start (\<lambda>c. True) Suc 0 (one_master_config (TcpClientConfig sample_units 1 502)) = Ok g \<and>
     event_loop sample_lib 0 (live_of g) answered_events = Waiting G \<and>
     lv_wire G = [(1, wire), (5, out)] \<and> lv_masters G = [(1, ClientActor s)]"
proof -
  let ?s = "TcpClient_SetId 1 (ModbusTcpClient 0 1000) :: (frame, 16 word) tcp_client"
    and ?c = "TcpClientConfig sample_units 1 502 :: (nat, 8 word) transport_config"
  have "MakeMasters (\<lambda>c. True) Suc 0 0 [] [?c] = Ok ([\<lparr>gm_config = ?c, gm_actor = ClientActor ?s\<rparr>], 1)"
    by (simp add: insert_master_def Let_def)
  from one_master [OF this] obtain g :: "(nat, 8 word, frame, unit, 16 word) gateway" where
    g: "Gateway_start (\<lambda>c. True) Suc 0 (one_master_config ?c) = Ok g"
    and live: "lv_masters (live_of g) = [(1, ClientActor ?s)]" "lv_servers (live_of g) = [(2, \<lparr>srv_id = 2, srv_clientDb = []\<rparr>)]"
      "lv_slaves (live_of g) = Map.empty" "lv_reading (live_of g) = {}" "lv_context (live_of g) = SignalSet_start"
    and more: "Router_Route (gw_router g) (1 :: 8 word) = Some 1" "lv_mail (live_of g) = []" "lv_wire (live_of g) = []"
    by (auto simp: master_GetId_def TcpClient_GetId_def TcpClient_SetId_def as_MasterConfig_def)
  note run = run_accept [OF live, of sample_lib]
  let ?G = "(live_of g)\<lparr>lv_servers := [(2, \<lparr>srv_id = 2, srv_clientDb = [(5, ())]\<rparr>)],
     lv_slaves := [5 \<mapsto> new_connection 0 2 (lv_router (live_of g)) 5], lv_reading := {5}\<rparr>"
  let ?conn = "TcpConnection_SetId 5 (ModbusTcpConnection 0 2 (lv_router (live_of g))) :: 16 word tcp_connection"
  let ?rq = "(sample_frame TCP 1 7)\<lparr>fr_size := 9\<rparr>" and ?rp = "(sample_frame TCP 1 1)\<lparr>fr_size := 9\<rparr>"
  have conn: "lv_slaves ?G 5 = Some (Connection_node ?conn)" by (simp add: new_connection_def)
  note reached = reached_connection [OF g ids_fresh_Suc run conn]
  have idle: "tc_state ?s = Idle" "tc_currentMessage ?s = None" "lq_items (tc_messageQueue ?s) = []"
    "\<not> message_expired 0 (tc_timeout ?s) (request_of sample_lib 0 ?rq ?conn)"
    "mb_set_adu_size sample_lib 9 (sample_frame TCP 1 1) = Some ?rp" "tcp_check sample_lib ?rp"
    "tcp_get_tid sample_lib ?rp = tc_transactionIdGenerator ?s + 1"
    using request_of_fresh [of sample_lib ?rq ?conn]
    by (simp_all add: ModbusTcpClient_def TcpClient_SetId_def LimitQueue_default_def)
  from client_transaction [OF idle, of 0 0 True 0] obtain s1 s2 where
    accept: "master_step sample_lib 0 (ClientActor ?s) (actor_message 0 (ClientActor ?s) (ModbusMsg (request_of sample_lib 0 ?rq ?conn))) =
      Done (ClientActor s1, [Async_connect])"
    and completes: "run (master_step sample_lib 0) (ClientActor s1) (client_completions 0 True 0 (sample_frame TCP 1 1) 9) =
      Done (ClientActor s2, [Async_send (tc_frame sample_lib ?s ?rq), Async_wait (tc_timeout ?s), Async_receive TCP, Timer_cancel,
        Exchange_send 5 (ModbusMsg (ModbusMessage (ModbusMessageInfo 0 5 (tcp_get_tid sample_lib ?rq)) (Some ?rp)))])"
    unfolding reached(2) by blast
  have "letters ([Async_connect] :: (frame, 16 word) effect list) = []" by simp
  note transact = loop_transaction [where sz = 9 and buffer = "sample_frame TCP 1 7" and rp = ?rp and now'' = 0,
      OF reached(1) event_loop_waiting [OF run] conn _ _ _ _ _ accept this completes]
  have "map_of (lv_masters ?G) 1 = Some (ClientActor ?s)" "5 \<in> lv_reading ?G" "lv_mail ?G = []" "lv_wire ?G = []"
    "Router_Route (lv_router ?G) (mb_unit_id sample_lib ?rq) = Some 1"
    "mb_set_adu_size sample_lib 9 (sample_frame TCP 1 7) = Some ?rq" "tcp_check sample_lib ?rq"
    using live(1) more reached(3) by simp_all
  with transact
  obtain G' where "event_loop sample_lib 0 ?G (transaction 5 1 0 0 (sample_frame TCP 1 7) 9 0
      (client_completions 0 True 0 (sample_frame TCP 1 1) 9) 0) = Waiting G'"
    "lv_wire G' = [(1, tc_frame sample_lib ?s ?rq), (5, answer_frame sample_lib ?rq ?rp)]"
    "lv_masters G' = AList.update 1 (ClientActor s2) (lv_masters ?G)" by fastforce
  with g live(1) event_loop_append [OF run] show ?thesis
    by (intro exI [of _ g] exI [of _ G'] exI [of _ s2] exI [of _ "tc_frame sample_lib ?s ?rq"]
        exI [of _ "answer_frame sample_lib ?rq ?rp"]) simp
qed

subsection \<open>Properties\<close>

text \<open>
  C1: an undisturbed request over a serial line, step by step. In every state the running gateway
  reaches, take a connection that waits for a read, and an idle serial master (no message in process,
  an empty queue) that the routing table gives for the unit id of a request that passes the frame
  checks; let these completions come one after the other, with no other in between: the connection
  reads the request; the master is handed it before it is too old; its write succeeds; its read
  succeeds with a frame that passes the checks; the connection is handed the reply. Then the
  loop handles them all, and in all of it exactly one frame of the line's type for the same unit goes out on
  the line, and exactly one to that connection, with the transaction id of its request and the
  unit id of the answer; the letters in transit are those that were there before; connection and
  master are idle and the connection reads again. Nothing is said of a request that expires, of an answer
  that fails the checks, or of the completion of a timer of an earlier request in between (see
  \<open>RtuMaster_stale_timeout_cancels\<close> for that one); of other actors see \<open>Gateway_answers_undisturbed\<close>.
\<close>

theorem Gateway_answers_serial:
  fixes g :: "('a, 'u::len word, 'b, unit, 't::len word) gateway" and L :: "('b, 'u word, 't word) modbus_lib"
  assumes "Gateway_start opens add_id d cfg = Ok g" and "ids_fresh add_id d"
    and "event_loop L d (live_of g) es = Waiting G"
    and "tid_readback L" and "convert_types L" and "unit_id_kept L"
    and "lv_slaves G a = Some (Connection_node c)" and "a \<in> lv_reading G"
    and "mb_set_adu_size L sz buffer = Some rq" and "tcp_check L rq"
    and "Router_Route (gw_router g) (mb_unit_id L rq) = Some r"
    and "map_of (lv_masters G) r = Some (RtuActor s)"
    and "rm_currentMessage s = None" and "lq_items (rm_messageQueue s) = []"
    and "\<not> message_expired now' (rm_timeout s) (request_of L now rq c)"
    and "mb_set_adu_size L rsz rbuffer = Some rp" and "mb_check L rp"
  shows "\<exists>G' s' wire out. event_loop L d (live_of g) (es @ transaction a r (length (lv_mail G)) now buffer sz now'
        (serial_completions t rbuffer rsz) now'') = Waiting G' \<and>
    lv_wire G' = lv_wire G @ [(r, wire), (a, out)] \<and>
    mb_type L wire = rm_frameType s \<and> mb_unit_id L wire = mb_unit_id L rq \<and>
    mb_type L out = TCP \<and> tcp_get_tid L out = tcp_get_tid L rq \<and> mb_unit_id L out = mb_unit_id L rp \<and>
    lv_mail G' = lv_mail G \<and> a \<in> lv_reading G' \<and>
    lv_slaves G' a = Some (Connection_node (c\<lparr>conn_requestInfo := None\<rparr>)) \<and>
    map_of (lv_masters G') r = Some (RtuActor s') \<and> rm_currentMessage s' = None \<and> lq_items (rm_messageQueue s') = []"
proof -
  note reached = reached_connection [OF assms(1-3,7)]
  from assms(11) reached(3) have route: "Router_Route (lv_router G) (mb_unit_id L rq) = Some r" by simp
  from serial_transaction [OF assms(13-17), of d t] obtain s1 s2 where
    accept: "master_step L d (RtuActor s) (actor_message now' (RtuActor s) (ModbusMsg (request_of L now rq c))) =
      Done (RtuActor s1, [Async_send (rm_frame L s rq)])" "letters ([Async_send (rm_frame L s rq)] :: ('b, 't word) effect list) = []"
    and completes: "run (master_step L d) (RtuActor s1) (serial_completions t rbuffer rsz) =
      Done (RtuActor s2, [Async_wait (rm_timeout s), Async_receive (rm_frameType s), Timer_cancel,
        Exchange_send a (ModbusMsg (ModbusMessage (ModbusMessageInfo now a (tcp_get_tid L rq)) (Some rp)))])"
    and s2: "rm_currentMessage s2 = None" "lq_items (rm_messageQueue s2) = []" unfolding reached(2) by auto
  from loop_transaction [OF reached(1) event_loop_waiting [OF assms(3)] assms(7-10) route assms(12) accept completes,
      of rp now'']
  obtain G' where G': "event_loop L d G (transaction a r (length (lv_mail G)) now buffer sz now'
      (serial_completions t rbuffer rsz) now'') = Waiting G'"
    "lv_wire G' = lv_wire G @ [(r, rm_frame L s rq), (a, answer_frame L rq rp)]" "lv_mail G' = lv_mail G"
    "lv_masters G' = AList.update r (RtuActor s2) (lv_masters G)" "a \<in> lv_reading G'"
    "lv_slaves G' = (lv_slaves G)(a \<mapsto> Connection_node (c\<lparr>conn_requestInfo := None\<rparr>))" by fastforce
  have "mb_type L (rm_frame L s rq) = rm_frameType s" "mb_unit_id L (rm_frame L s rq) = mb_unit_id L rq"
    using assms(5,6) by (simp_all add: rm_frame_def convert_types_def unit_id_kept_def)
  with G' s2 show ?thesis
    by (intro exI [of _ G'] exI [of _ s2] exI [of _ "rm_frame L s rq"] exI [of _ "answer_frame L rq rp"])
      (simp add: event_loop_append [OF assms(3)] map_of_update answer_frame_laws [OF assms(4-6)])
qed

text \<open>Both witnesses: a client connects, and sends one request.\<close>

theorem Gateway_answers_serial_witness:
  "\<exists>(g :: (nat, 8 word, frame, unit, 16 word) gateway) G wire out.
     Gateway_start (\<lambda>c. True) Suc 0 (one_master_config (RtuMasterConfig sample_units ''/dev/ttyS0'' sample_options RTU)) = Ok g \<and>
     event_loop sample_lib 0 (live_of g) ([Accepted 2 None True True 5] @
       transaction 5 1 0 0 (sample_frame TCP 1 7) 9 0 (serial_completions 0 (sample_frame RTU 1 0) 9) 0) = Waiting G \<and>
     lv_wire G = [(1, wire), (5, out)] \<and> fr_type wire = RTU \<and> fr_unit wire = 1 \<and> fr_type out = TCP \<and> fr_tid out = 7"
proof -
  let ?s = "sample_master\<lparr>rm_id := 1\<rparr>" and ?c = "RtuMasterConfig sample_units ''/dev/ttyS0'' sample_options RTU"
  have "MakeMasters (\<lambda>c. True) Suc 0 0 [] [?c] = Ok ([\<lparr>gm_config = ?c, gm_actor = RtuActor ?s\<rparr>], 1)"
    by (simp add: sample_master_new RtuMaster_SetId_def insert_master_def)
  from one_master [OF this] obtain g :: "(nat, 8 word, frame, unit, 16 word) gateway" where
    g: "Gateway_start (\<lambda>c. True) Suc 0 (one_master_config ?c) = Ok g"
    and live: "lv_masters (live_of g) = [(1, RtuActor ?s)]" "lv_servers (live_of g) = [(2, \<lparr>srv_id = 2, srv_clientDb = []\<rparr>)]"
      "lv_slaves (live_of g) = Map.empty" "lv_reading (live_of g) = {}" "lv_context (live_of g) = SignalSet_start"
    and more: "Router_Route (gw_router g) (1 :: 8 word) = Some 1" "lv_mail (live_of g) = []" "lv_wire (live_of g) = []"
    by (auto simp: master_GetId_def RtuMaster_GetId_def as_MasterConfig_def)
  note run = run_accept [OF live, of sample_lib]
  let ?rq = "(sample_frame TCP 1 7)\<lparr>fr_size := 9\<rparr>" and ?rp = "(sample_frame RTU 1 0)\<lparr>fr_size := 9\<rparr>"
  have idle: "rm_currentMessage ?s = None" "lq_items (rm_messageQueue ?s) = []" "rm_frameType ?s = RTU"
    by (simp_all add: sample_master_def LimitQueue_default_def)
  have fresh: "\<not> message_expired 0 (rm_timeout ?s) (request_of sample_lib 0 ?rq c)" for c
    using request_of_fresh [of sample_lib] by (simp add: sample_master_def)
  from Gateway_answers_serial [OF g ids_fresh_Suc run sample_lib_lawful, of 5 _ 9 "sample_frame TCP 1 7" ?rq 1 ?s 0 0 9
      "sample_frame RTU 1 0" ?rp 0 0] idle fresh more
  show ?thesis by (auto simp: new_connection_def live(1) intro!: exI [of _ g] g)
qed

text \<open>
  C2: the same for an idle TCP client that is not connected, as it is after the start and after every
  error, under the same conditions: the completions come one after the other with no other in between (the
  connection reads the request, the client is handed it, its connect, its send and its receive
  succeed, the connection is handed the reply), the request is not too old when the connect has
  succeeded, and the received frame passes the checks and carries the client's next transaction id.
  Then the client connects, sends the request once under that id, the answer goes once to the
  connection under the transaction id of its request, the letters in transit are those that were
  there before, and the client stays connected and idle. What other completions in between can do to a
  client is the subject of \<open>TcpClient_concurrent_connects\<close>.
\<close>

theorem Gateway_answers_tcp:
  fixes g :: "('a, 'u::len word, 'b, unit, 't::len word) gateway" and L :: "('b, 'u word, 't word) modbus_lib"
  assumes "Gateway_start opens add_id d cfg = Ok g" and "ids_fresh add_id d"
    and "event_loop L d (live_of g) es = Waiting G"
    and "tid_readback L" and "convert_types L" and "unit_id_kept L"
    and "lv_slaves G a = Some (Connection_node c)" and "a \<in> lv_reading G"
    and "mb_set_adu_size L sz buffer = Some rq" and "tcp_check L rq"
    and "Router_Route (gw_router g) (mb_unit_id L rq) = Some r"
    and "map_of (lv_masters G) r = Some (ClientActor s)"
    and "tc_state s = Idle" and "tc_currentMessage s = None" and "lq_items (tc_messageQueue s) = []"
    and "\<not> message_expired t1 (tc_timeout s) (request_of L now rq c)"
    and "mb_set_adu_size L rsz rbuffer = Some rp" and "tcp_check L rp"
    and "tcp_get_tid L rp = tc_transactionIdGenerator s + 1"
  shows "\<exists>G' s' wire out. event_loop L d (live_of g) (es @ transaction a r (length (lv_mail G)) now buffer sz now'
        (client_completions t1 is_open t2 rbuffer rsz) now'') = Waiting G' \<and>
    lv_wire G' = lv_wire G @ [(r, wire), (a, out)] \<and>
    mb_type L wire = TCP \<and> mb_unit_id L wire = mb_unit_id L rq \<and>
    tcp_get_tid L wire = tc_transactionIdGenerator s + 1 \<and>
    mb_type L out = TCP \<and> tcp_get_tid L out = tcp_get_tid L rq \<and> mb_unit_id L out = mb_unit_id L rp \<and>
    lv_mail G' = lv_mail G \<and> a \<in> lv_reading G' \<and>
    lv_slaves G' a = Some (Connection_node (c\<lparr>conn_requestInfo := None\<rparr>)) \<and>
    map_of (lv_masters G') r = Some (ClientActor s') \<and> tc_state s' = Connected \<and>
    tc_currentMessage s' = None \<and> lq_items (tc_messageQueue s') = []"
proof -
  note reached = reached_connection [OF assms(1-3,7)]
  from assms(11) reached(3) have route: "Router_Route (lv_router G) (mb_unit_id L rq) = Some r" by simp
  from client_transaction [OF assms(13-19), of d now' is_open t2] obtain s1 s2 where
    accept: "master_step L d (ClientActor s) (actor_message now' (ClientActor s) (ModbusMsg (request_of L now rq c))) =
      Done (ClientActor s1, [Async_connect])" "letters ([Async_connect] :: ('b, 't word) effect list) = []"
    and completes: "run (master_step L d) (ClientActor s1) (client_completions t1 is_open t2 rbuffer rsz) =
      Done (ClientActor s2, [Async_send (tc_frame L s rq), Async_wait (tc_timeout s), Async_receive TCP, Timer_cancel,
        Exchange_send a (ModbusMsg (ModbusMessage (ModbusMessageInfo now a (tcp_get_tid L rq)) (Some rp)))])"
    and s2: "tc_currentMessage s2 = None" "lq_items (tc_messageQueue s2) = []" "tc_state s2 = Connected"
    unfolding reached(2) by auto
  from loop_transaction [OF reached(1) event_loop_waiting [OF assms(3)] assms(7-10) route assms(12) accept completes,
      of rp now'']
  obtain G' where G': "event_loop L d G (transaction a r (length (lv_mail G)) now buffer sz now'
      (client_completions t1 is_open t2 rbuffer rsz) now'') = Waiting G'"
    "lv_wire G' = lv_wire G @ [(r, tc_frame L s rq), (a, answer_frame L rq rp)]" "lv_mail G' = lv_mail G"
    "lv_masters G' = AList.update r (ClientActor s2) (lv_masters G)" "a \<in> lv_reading G'"
    "lv_slaves G' = (lv_slaves G)(a \<mapsto> Connection_node (c\<lparr>conn_requestInfo := None\<rparr>))" by fastforce
  have "mb_type L (tc_frame L s rq) = TCP" "mb_unit_id L (tc_frame L s rq) = mb_unit_id L rq"
    "tcp_get_tid L (tc_frame L s rq) = tc_transactionIdGenerator s + 1"
    using assms(4-6) by (simp_all add: tc_frame_def convert_types_def unit_id_kept_def tid_readback_def)
  with G' s2 show ?thesis
    by (intro exI [of _ G'] exI [of _ s2] exI [of _ "tc_frame L s rq"] exI [of _ "answer_frame L rq rp"])
      (simp add: event_loop_append [OF assms(3)] map_of_update answer_frame_laws [OF assms(4-6)])
qed

theorem Gateway_answers_tcp_witness:
  "\<exists>(g :: (nat, 8 word, frame, unit, 16 word) gateway) G wire out.
     Gateway_start (\<lambda>c. True) Suc 0 (one_master_config (TcpClientConfig sample_units 1 502)) = Ok g \<and>
     event_loop sample_lib 0 (live_of g) ([Accepted 2 None True True 5] @
       transaction 5 1 0 0 (sample_frame TCP 1 7) 9 0 (client_completions 0 True 0 (sample_frame TCP 1 1) 9) 0) = Waiting G \<and>
     lv_wire G = [(1, wire), (5, out)] \<and> fr_tid wire = 1 \<and> fr_unit wire = 1 \<and> fr_type out = TCP \<and> fr_tid out = 7"
proof -
  let ?s = "TcpClient_SetId 1 (ModbusTcpClient 0 1000) :: (frame, 16 word) tcp_client"
    and ?c = "TcpClientConfig sample_units 1 502 :: (nat, 8 word) transport_config"
  have "MakeMasters (\<lambda>c. True) Suc 0 0 [] [?c] = Ok ([\<lparr>gm_config = ?c, gm_actor = ClientActor ?s\<rparr>], 1)"
    by (simp add: insert_master_def Let_def)
  from one_master [OF this] obtain g :: "(nat, 8 word, frame, unit, 16 word) gateway" where
    g: "Gateway_start (\<lambda>c. True) Suc 0 (one_master_config ?c) = Ok g"
    and live: "lv_masters (live_of g) = [(1, ClientActor ?s)]" "lv_servers (live_of g) = [(2, \<lparr>srv_id = 2, srv_clientDb = []\<rparr>)]"
      "lv_slaves (live_of g) = Map.empty" "lv_reading (live_of g) = {}" "lv_context (live_of g) = SignalSet_start"
    and more: "Router_Route (gw_router g) (1 :: 8 word) = Some 1" "lv_mail (live_of g) = []" "lv_wire (live_of g) = []"
    by (auto simp: master_GetId_def TcpClient_GetId_def TcpClient_SetId_def as_MasterConfig_def)
  note run = run_accept [OF live, of sample_lib]
  let ?rq = "(sample_frame TCP 1 7)\<lparr>fr_size := 9\<rparr>" and ?rp = "(sample_frame TCP 1 1)\<lparr>fr_size := 9\<rparr>"
  have idle: "tc_state ?s = Idle" "tc_currentMessage ?s = None" "lq_items (tc_messageQueue ?s) = []"
    "tc_transactionIdGenerator ?s = 0"
    by (simp_all add: ModbusTcpClient_def TcpClient_SetId_def LimitQueue_default_def)
  have fresh: "\<not> message_expired 0 (tc_timeout ?s) (request_of sample_lib 0 ?rq c)" for c
    using request_of_fresh [of sample_lib] by (simp add: ModbusTcpClient_def TcpClient_SetId_def)
  from Gateway_answers_tcp [OF g ids_fresh_Suc run sample_lib_lawful, of 5 _ 9 "sample_frame TCP 1 7" ?rq 1 ?s 0 0 9
      "sample_frame TCP 1 1" ?rp 0 True 0 0] idle fresh more g
  show ?thesis by (auto simp: new_connection_def live(1) intro!: exI [of _ g])
qed

text \<open>
  C3: the same, under the same conditions, for a request that a device on the serial line of a slave
  makes to an idle TCP client that is not connected: with the completions one after the other and no other in
  between, the request not too old when the connect has succeeded, and a received frame that
  passes the checks and carries the client's next transaction id, the request is sent once as a Modbus TCP frame for the
  same unit, and the answer is written once, to that line, as a frame of the line's type with the
  unit id of the answer. The slave has numbered its request with its own next id and reads
  again; the letters in transit are those that were there before.
\<close>

theorem Gateway_answers_line:
  fixes g :: "('a, 'u::len word, 'b, unit, 't::len word) gateway" and L :: "('b, 'u word, 't word) modbus_lib"
  assumes "Gateway_start opens add_id d cfg = Ok g" and "ids_fresh add_id d"
    and "event_loop L d (live_of g) es = Waiting G"
    and "tid_readback L" and "convert_types L" and "unit_id_kept L"
    and "lv_slaves G a = Some (Serial_slave_node x)" and "a \<in> lv_reading G"
    and "mb_set_adu_size L sz buffer = Some rq" and "mb_check L rq"
    and "Router_Route (gw_router g) (mb_unit_id L rq) = Some r"
    and "map_of (lv_masters G) r = Some (ClientActor s)"
    and "tc_state s = Idle" and "tc_currentMessage s = None" and "lq_items (tc_messageQueue s) = []"
    and "\<not> message_expired t1 (tc_timeout s) (line_request now rq x)"
    and "mb_set_adu_size L rsz rbuffer = Some rp" and "tcp_check L rp"
    and "tcp_get_tid L rp = tc_transactionIdGenerator s + 1"
  shows "\<exists>G' s' wire out. event_loop L d (live_of g) (es @ transaction a r (length (lv_mail G)) now buffer sz now'
        (client_completions t1 is_open t2 rbuffer rsz) now'') = Waiting G' \<and>
    lv_wire G' = lv_wire G @ [(r, wire), (a, out)] \<and>
    mb_type L wire = TCP \<and> mb_unit_id L wire = mb_unit_id L rq \<and>
    tcp_get_tid L wire = tc_transactionIdGenerator s + 1 \<and>
    mb_type L out = rs_frameType x \<and> mb_unit_id L out = mb_unit_id L rp \<and>
    lv_mail G' = lv_mail G \<and> a \<in> lv_reading G' \<and>
    lv_slaves G' a = Some (Serial_slave_node (x\<lparr>rs_idGenerator := rs_idGenerator x + 1, rs_requestInfo := None\<rparr>)) \<and>
    map_of (lv_masters G') r = Some (ClientActor s') \<and> tc_state s' = Connected \<and>
    tc_currentMessage s' = None \<and> lq_items (tc_messageQueue s') = []"
proof -
  let ?m = "line_request now rq x" and ?i = "ModbusMessageInfo now (rs_id x) (rs_idGenerator x + 1)"
  let ?x = "x\<lparr>rs_idGenerator := rs_idGenerator x + 1\<rparr>"
  let ?n1 = "Serial_slave_node (?x\<lparr>rs_requestInfo := Some ?i\<rparr>)" and ?out = "mb_update L (mb_convert_to L (rs_frameType x) rp)"
  note reached = reached_node [OF assms(1-3,7)]
  then have id: "rs_id x = a" "rs_router x = gw_router g" by simp_all
  have m: "modbusBuffer ?m = Some rq" "modbusMessageInfo ?m = ?i" "sourceId ?i = a"
    by (simp_all add: line_request_def step_simps ModbusMessageInfo_def id)
  have forward: "slave_step L d (Serial_slave_node x) (node_received (Serial_slave_node x) now success buffer sz) =
      Done (?n1, [Exchange_send r (ModbusMsg ?m), Async_receive (rs_frameType x)])"
    using line_forwards [OF assms(9,10), of x r now] assms(11) id(2) by (simp add: node_received_def)
  have "RtuSlave_Receive L (ModbusMsg (ModbusMessage ?i (Some rp))) (?x\<lparr>rs_requestInfo := Some ?i\<rparr>) =
      (?x\<lparr>rs_requestInfo := None\<rparr>, [Async_send (mb_update L (mb_convert_to L (rs_frameType ?x) rp))])"
    by (rule line_answers) (simp add: ModbusMessageInfo_def id)
  then have answer: "slave_step L d ?n1 (node_message ?n1 (ModbusMsg (ModbusMessage ?i (Some rp)))) =
      Done (Serial_slave_node (?x\<lparr>rs_requestInfo := None\<rparr>), [Async_send ?out])"
    by (simp add: node_message_def)
  from client_message_transaction [OF assms(13-16) m(1) assms(17-19), of d now' is_open t2, unfolded m(2,3)]
  obtain s1 s2 where accept: "master_step L d (ClientActor s) (actor_message now' (ClientActor s) (ModbusMsg ?m)) =
      Done (ClientActor s1, [Async_connect])"
    and completes: "run (master_step L d) (ClientActor s1) (client_completions t1 is_open t2 rbuffer rsz) =
      Done (ClientActor s2, [Async_send (tc_frame L s rq), Async_wait (tc_timeout s), Async_receive TCP, Timer_cancel,
        Exchange_send a (ModbusMsg (ModbusMessage ?i (Some rp)))])"
    and s2: "tc_currentMessage s2 = None" "lq_items (tc_messageQueue s2) = []" "tc_state s2 = Connected" by blast
  have none: "letters ([Async_connect] :: ('b, 't word) effect list) = []" by simp
  have one: "letters ([Async_send (tc_frame L s rq), Async_wait (tc_timeout s), Async_receive TCP, Timer_cancel,
      Exchange_send a (ModbusMsg (ModbusMessage ?i (Some rp)))] :: ('b, 't word) effect list) =
    [(a, ModbusMsg (ModbusMessage ?i (Some rp)))]" by simp
  from node_transaction [OF reached(1) event_loop_waiting [OF assms(3)] assms(7,8) forward assms(12) accept none completes _ one answer,
      of now'']
  obtain G' where G': "event_loop L d G (transaction a r (length (lv_mail G)) now buffer sz now'
      (client_completions t1 is_open t2 rbuffer rsz) now'') = Waiting G'"
    "lv_wire G' = lv_wire G @ [(r, tc_frame L s rq), (a, ?out)]" "lv_mail G' = lv_mail G"
    "lv_masters G' = AList.update r (ClientActor s2) (lv_masters G)" "a \<in> lv_reading G'"
    "lv_slaves G' = (lv_slaves G)(a \<mapsto> Serial_slave_node (?x\<lparr>rs_requestInfo := None\<rparr>))" by fastforce
  have "mb_type L (tc_frame L s rq) = TCP" "mb_unit_id L (tc_frame L s rq) = mb_unit_id L rq"
    "tcp_get_tid L (tc_frame L s rq) = tc_transactionIdGenerator s + 1" "mb_type L ?out = rs_frameType x"
    "mb_unit_id L ?out = mb_unit_id L rp"
    using assms(4-6) by (simp_all add: tc_frame_def convert_types_def unit_id_kept_def tid_readback_def)
  with G' s2 show ?thesis
    by (intro exI [of _ G'] exI [of _ s2] exI [of _ "tc_frame L s rq"] exI [of _ ?out])
      (simp add: event_loop_append [OF assms(3)] map_of_update)
qed

text \<open>The witness: a device on the line sends one request.\<close>

theorem Gateway_answers_line_witness:
  "\<exists>(g :: (nat, 8 word, frame, unit, 16 word) gateway) G wire out.
     Gateway_start (\<lambda>c. True) Suc 0 (one_line_config (TcpClientConfig sample_units 1 502)) = Ok g \<and>
     event_loop sample_lib 0 (live_of g) ([] @
       transaction 2 1 0 0 (sample_frame RTU 1 0) 9 0 (client_completions 0 True 0 (sample_frame TCP 1 1) 9) 0) = Waiting G \<and>
     lv_wire G = [(1, wire), (2, out)] \<and> fr_type wire = TCP \<and> fr_tid wire = 1 \<and> fr_unit wire = 1 \<and>
     fr_type out = RTU \<and> fr_unit out = 1"
proof -
  let ?s = "TcpClient_SetId 1 (ModbusTcpClient 0 1000) :: (frame, 16 word) tcp_client"
    and ?c = "TcpClientConfig sample_units 1 502 :: (nat, 8 word) transport_config"
  have "MakeMasters (\<lambda>c. True) Suc 0 0 [] [?c] = Ok ([\<lparr>gm_config = ?c, gm_actor = ClientActor ?s\<rparr>], 1)"
    by (simp add: insert_master_def Let_def)
  from one_line [OF this] obtain g :: "(nat, 8 word, frame, unit, 16 word) gateway" and n :: "16 word rtu_slave" where
    g: "Gateway_start (\<lambda>c. True) Suc 0 (one_line_config ?c) = Ok g"
    and live: "lv_masters (live_of g) = [(1, ClientActor ?s)]" "lv_slaves (live_of g) = [2 \<mapsto> Serial_slave_node n]"
      "lv_reading (live_of g) = {2}" "lv_mail (live_of g) = []" "lv_wire (live_of g) = []"
      "lv_context (live_of g) = SignalSet_start" "rs_id n = 2" "rs_frameType n = RTU" "Router_Route (gw_router g) (1 :: 8 word) = Some 1"
    by (auto simp: master_GetId_def TcpClient_GetId_def TcpClient_SetId_def as_MasterConfig_def)
  let ?rq = "(sample_frame RTU 1 0)\<lparr>fr_size := 9\<rparr>" and ?rp = "(sample_frame TCP 1 1)\<lparr>fr_size := 9\<rparr>"
  have run: "event_loop sample_lib 0 (live_of g) [] = Waiting (live_of g)" using live(6) by (simp add: SignalSet_start_def)
  have idle: "tc_state ?s = Idle" "tc_currentMessage ?s = None" "lq_items (tc_messageQueue ?s) = []"
    "tc_transactionIdGenerator ?s = 0"
    by (simp_all add: ModbusTcpClient_def TcpClient_SetId_def LimitQueue_default_def)
  have fresh: "\<not> message_expired 0 (tc_timeout ?s) (line_request 0 ?rq n)"
    by (simp add: message_expired_def line_request_def ModbusTcpClient_def TcpClient_SetId_def step_simps
        TimeoutReached_def milliseconds_to_nanoseconds_def ModbusMessageInfo_def)
  from Gateway_answers_line [OF g ids_fresh_Suc run sample_lib_lawful, of 2 n 9 "sample_frame RTU 1 0" ?rq 1 ?s 0 0 9
      "sample_frame TCP 1 1" ?rp 0 True 0 0] idle fresh live g
  show ?thesis by (auto intro!: exI [of _ g])
qed

end
