(* ===== verification/Actor_Runs.thy ===== *)
theory Actor_Runs
  imports Gateway_Answers
begin

text \<open>
  The actors of the running gateway one by one: a run of the event loop is, for each actor, a run
  of its own handlers over what it was handed (\<open>Gateway_actor_contracts\<close>), so that what is proved of
  the runs of a class holds of every actor of that class in the gateway.
\<close>

subsection \<open>What one step of the gateway is\<close>

text \<open>The gateway after the loop has taken a letter out of the mail, or none.\<close>

definition without :: "nat option \<Rightarrow> ('b, 't) live \<Rightarrow> ('b, 't) live" where
  "without t G = (case t of None \<Rightarrow> G
     | Some i \<Rightarrow> G\<lparr>lv_mail := take i (lv_mail G) @ drop (Suc i) (lv_mail G)\<rparr>)"

lemma without_simps [simp]:
  "lv_masters (without t G) = lv_masters G" "lv_servers (without t G) = lv_servers G"
  "lv_slaves (without t G) = lv_slaves G" "lv_router (without t G) = lv_router G"
  "lv_reading (without t G) = lv_reading G" "lv_wire (without t G) = lv_wire G"
  "lv_context (without t G) = lv_context G" "without None G = G"
  "lv_mail (without (Some i) G) = take i (lv_mail G) @ drop (Suc i) (lv_mail G)"
  by (simp_all add: without_def split: option.split)

text \<open>What a master and what a slave-side actor is handed by an event.\<close>

fun master_handed :: "actor_id \<Rightarrow> ('b, 't) live \<Rightarrow> ('b, 't) gateway_event \<Rightarrow> ('b, 't) master_event list" where
  "master_handed r G (Master_completed q e) = (case map_of (lv_masters G) r of None \<Rightarrow> []
     | Some s \<Rightarrow> if q = r \<and> master_completion e \<and> event_fits s e then [e] else [])"
| "master_handed r G (Delivered now i) = (case map_of (lv_masters G) r of None \<Rightarrow> []
     | Some s \<Rightarrow> if i < length (lv_mail G) \<and> fst (lv_mail G ! i) = r
         then [actor_message now s (snd (lv_mail G ! i))] else [])"
| "master_handed r G _ = []"

fun slave_handed :: "actor_id \<Rightarrow> ('b, 't) live \<Rightarrow> ('b, 't) gateway_event \<Rightarrow> ('b, 't) slave_event list" where
  "slave_handed a G (Received b now ec buffer sz) = (case lv_slaves G a of None \<Rightarrow> []
     | Some n \<Rightarrow> if b = a \<and> a \<in> lv_reading G then [node_received n now ec buffer sz] else [])"
| "slave_handed a G (Written b ec) = (case lv_slaves G a of None \<Rightarrow> []
     | Some n \<Rightarrow> if b = a then [node_written n ec] else [])"
| "slave_handed a G (Delivered now i) = (case lv_slaves G a of None \<Rightarrow> []
     | Some n \<Rightarrow> if i < length (lv_mail G) \<and> fst (lv_mail G ! i) = a
         then [node_message n (snd (lv_mail G ! i))] else [])"
| "slave_handed a G _ = []"

text \<open>
  Every step is one handler of one actor with its effects, an accept, a removal, or nothing but
  the loss of a letter or the end of the wait for a signal.
\<close>

lemma gateway_step_cases [consumes 2, case_names idle master slave joined left]:
  assumes "gateway_step L d G e = Done G'" and "named T d G"
  obtains (idle) t c where "G' = (without t G)\<lparr>lv_context := c\<rparr>"
      "\<And>r. master_handed r G e = []" "\<And>a. slave_handed a G e = []"
  | (master) r s ev t s' os where "map_of (lv_masters G) r = Some s" "master_step L d s ev = Done (s', os)"
      "G' = after_effects r os ((without t G)\<lparr>lv_masters := AList.update r s' (lv_masters G)\<rparr>)"
      "\<And>q. master_handed q G e = (if q = r then [ev] else [])" "\<And>a. slave_handed a G e = []"
      "case t of None \<Rightarrow> master_completion ev
       | Some i \<Rightarrow> i < length (lv_mail G) \<and> (\<exists>now m. lv_mail G ! i = (r, m) \<and> ev = actor_message now s m)"
  | (slave) a n ev t R n' os where "lv_slaves G a = Some n" "slave_step L d n ev = Done (n', os)"
      "G' = after_effects a os ((without t G)\<lparr>lv_reading := R, lv_slaves := (lv_slaves G)(a \<mapsto> n')\<rparr>)"
      "\<And>r. master_handed r G e = []" "\<And>b. slave_handed b G e = (if b = a then [ev] else [])"
      "case t of None \<Rightarrow> (\<exists>now ec buffer sz. ev = node_received n now ec buffer sz \<and> e = Received a now ec buffer sz \<and>
          a \<in> lv_reading G) \<or> (\<exists>ec. ev = node_written n ec)
       | Some i \<Rightarrow> i < length (lv_mail G) \<and> (\<exists>m. lv_mail G ! i = (a, m) \<and> ev = node_message n m)"
  | (joined) v ec peer started i s where "e = Accepted v ec peer started i" "free_id d G i" "G' = G\<lparr>lv_servers := AList.update v s (lv_servers G),
        lv_slaves := (lv_slaves G)(i \<mapsto> new_connection d v (lv_router G) i), lv_reading := insert i (lv_reading G)\<rparr>"
      "map_of (lv_servers G) v \<noteq> None" "\<And>r. master_handed r G e = []" "\<And>a. slave_handed a G e = []"
  | (left) v i c s where "i < length (lv_mail G)" "lv_mail G ! i = (v, ClientDisconnectMessage c)"
      "map_of (lv_servers G) v \<noteq> None" "G' = (without (Some i) G)\<lparr>lv_servers := AList.update v s (lv_servers G),
        lv_slaves := (lv_slaves G)(c := None), lv_reading := lv_reading G - {c}\<rparr>"
      "\<And>r. master_handed r G e = []" "\<And>a. slave_handed a G e = []"
proof (cases e)
  case (Accepted v ec peer started i)
  show thesis
  proof (cases "\<exists>s. map_of (lv_servers G) v = Some s \<and> free_id d G i")
    case True
    then obtain s where s: "map_of (lv_servers G) v = Some s" "free_id d G i"
      and "server_acts_live d v s (Server_accept ec peer started i ()) G = Done G'"
      using assms(1) Accepted by auto
    from this(3) show thesis
    proof (cases rule: server_accept_effects)
      case none
      with update_same [OF s(1)] have "G' = (without None G)\<lparr>lv_context := lv_context G\<rparr>" by simp
      then show thesis by (rule idle) (simp_all add: Accepted)
    next
      case client
      with s show thesis by (intro joined [OF Accepted]) (auto simp: Accepted)
    qed
  next
    case False
    with assms(1) Accepted have "G' = (without None G)\<lparr>lv_context := lv_context G\<rparr>" by (auto split: option.splits)
    then show thesis by (rule idle) (simp_all add: Accepted)
  qed
next
  case (Signalled ec)
  with assms(1) have "G' = (without None G)\<lparr>lv_context := lv_context G'\<rparr>" by (auto split: if_splits)
  then show thesis by (rule idle) (simp_all add: Signalled)
next
  case (Master_completed r ev)
  show thesis
  proof (cases "\<exists>s. map_of (lv_masters G) r = Some s \<and> master_completion ev \<and> event_fits s ev")
    case True
    then obtain s where s: "map_of (lv_masters G) r = Some s" "master_completion ev" "event_fits s ev" by blast
    with assms(1) Master_completed have "master_acts_live L d r s ev G = Done G'" by simp
    then obtain s' os where step: "master_step L d s ev = Done (s', os)" by (auto simp: master_acts_live_def and_then_Done_iff)
    with \<open>master_acts_live L d r s ev G = Done G'\<close> master_acts_after [OF step, of r G] s show thesis
      by (intro master [OF s(1) step, where t = None]) (auto simp: Master_completed split: option.split)
  next
    case False
    with assms(1) Master_completed have "G' = (without None G)\<lparr>lv_context := lv_context G\<rparr>"
      by (auto split: option.splits if_splits)
    then show thesis using False by (intro idle [where t = None and c = "lv_context G"]) (auto simp: Master_completed split: option.split)
  qed
next
  case (Received a now ec buffer sz)
  show thesis
  proof (cases "\<exists>n. lv_slaves G a = Some n \<and> a \<in> lv_reading G")
    case True
    then obtain n where n: "lv_slaves G a = Some n" "a \<in> lv_reading G" by blast
    let ?ev = "node_received n now ec buffer sz" and ?G = "G\<lparr>lv_reading := lv_reading G - {a}\<rparr>"
    from n assms(1) Received have act: "slave_acts_live L d a n ?ev ?G = Done G'" by simp
    then obtain n' os where step: "slave_step L d n ?ev = Done (n', os)" by (auto simp: slave_acts_live_def and_then_Done_iff)
    with act slave_acts_after [OF step, of a ?G] n show thesis
      by (intro slave [OF n(1) step, where t = None and R = "lv_reading G - {a}"]) (auto simp: Received split: option.split)
  next
    case False
    with assms(1) Received have "G' = (without None G)\<lparr>lv_context := lv_context G\<rparr>" by (auto split: option.splits if_splits)
    then show thesis using False by (intro idle [where t = None and c = "lv_context G"]) (auto simp: Received split: option.split)
  qed
next
  case (Written a ec)
  show thesis
  proof (cases "lv_slaves G a")
    case (Some n)
    with assms(1) Written have act: "slave_acts_live L d a n (node_written n ec) G = Done G'" by simp
    then obtain n' os where step: "slave_step L d n (node_written n ec) = Done (n', os)"
      by (auto simp: slave_acts_live_def and_then_Done_iff)
    with act slave_acts_after [OF step, of a G] Some show thesis
      by (intro slave [OF Some step, where t = None and R = "lv_reading G"]) (auto simp: Written split: option.split)
  next
    case None
    with assms(1) Written have "G' = (without None G)\<lparr>lv_context := lv_context G\<rparr>" by simp
    then show thesis using None by (intro idle [where t = None and c = "lv_context G"]) (auto simp: Written split: option.split)
  qed
next
  case (Delivered now i)
  show thesis
  proof (cases "i < length (lv_mail G)")
    case False
    with assms(1) Delivered have "G' = (without None G)\<lparr>lv_context := lv_context G\<rparr>" by simp
    then show thesis using False by (intro idle [where t = None and c = "lv_context G"]) (auto simp: Delivered split: option.split)
  next
    case True
    obtain a m where letter: "lv_mail G ! i = (a, m)" by fastforce
    let ?G = "without (Some i) G"
    from assms(1) Delivered True letter have act: "deliver L d now (a, m) ?G = Done G'" by (simp add: without_def)
    have master_at: "master_handed q G e = (if q = a then case map_of (lv_masters G) a of None \<Rightarrow> []
        | Some s \<Rightarrow> [actor_message now s m] else [])" for q
      using True letter by (simp add: Delivered split: option.split)
    have slave_at: "slave_handed b G e = (if b = a then case lv_slaves G a of None \<Rightarrow> []
        | Some n \<Rightarrow> [node_message n m] else [])" for b
      using True letter by (simp add: Delivered split: option.split)
    have nodes: "lv_slaves G a = None" if "map_of (lv_masters G) a \<noteq> None \<or> map_of (lv_servers G) a \<noteq> None"
      using assms(2) that unfolding named_def by (metis domIff dom_map_of_conv_image_fst option.exhaust)
    show thesis
    proof (cases "map_of (lv_masters G) a")
      case (Some s)
      with act have acts: "master_acts_live L d a s (actor_message now s m) ?G = Done G'" by (simp add: deliver_def)
      then obtain s' os where step: "master_step L d s (actor_message now s m) = Done (s', os)"
        by (auto simp: master_acts_live_def and_then_Done_iff)
      have "G' = after_effects a os (?G\<lparr>lv_masters := AList.update a s' (lv_masters G)\<rparr>)"
        using acts master_acts_after [OF step, of a ?G] by simp
      then show thesis
        by (rule master [OF Some step]) (use True letter Some nodes in \<open>auto simp: master_at slave_at\<close>)
    next
      case no_master: None
      show thesis
      proof (cases "map_of (lv_servers G) a")
        case (Some s)
        with act no_master have acts: "server_acts_live d a s (Server_message m) ?G = Done G'" by (simp add: deliver_def)
        have none: "master_handed q G e = []" "slave_handed b G e = []" for q b
          using no_master nodes Some by (simp_all add: master_at slave_at)
        show thesis
        proof (cases "\<exists>c. m = ClientDisconnectMessage c")
          case left_letter: True
          then obtain c where m: "m = ClientDisconnectMessage c" by blast
          from acts m obtain s' where G': "G' = ?G\<lparr>lv_servers := AList.update a s' (lv_servers G),
              lv_slaves := (lv_slaves G)(c := None), lv_reading := lv_reading G - {c}\<rparr>"
            by (auto simp: server_acts_live_def TcpServer_defs and_then_Done_iff)
          have "lv_mail G ! i = (a, ClientDisconnectMessage c)" and "map_of (lv_servers G) a \<noteq> None"
            using letter m Some by simp_all
          from left [OF True this G' none] show thesis .
        next
          case False
          with acts update_same [OF Some] have "G' = ?G"
            by (cases m) (auto simp: server_acts_live_def TcpServer_defs and_then_Done_iff without_def)
          then have "G' = ?G\<lparr>lv_context := lv_context G\<rparr>" by (simp add: without_def)
          then show thesis by (rule idle) (rule none)+
        qed
      next
        case no_server: None
        show thesis
        proof (cases "lv_slaves G a")
          case (Some n)
          with act no_master no_server have acts: "slave_acts_live L d a n (node_message n m) ?G = Done G'"
            by (simp add: deliver_def)
          then obtain n' os where step: "slave_step L d n (node_message n m) = Done (n', os)"
            by (auto simp: slave_acts_live_def and_then_Done_iff)
          have "G' = after_effects a os (?G\<lparr>lv_reading := lv_reading G, lv_slaves := (lv_slaves G)(a \<mapsto> n')\<rparr>)"
            using acts slave_acts_after [OF step, of a ?G] by (simp add: without_def)
          then show thesis
            by (rule slave [OF Some step]) (use True letter Some no_master in \<open>auto simp: master_at slave_at\<close>)
        next
          case None
          with act no_master no_server have "G' = ?G" by (simp add: deliver_def)
          then have "G' = ?G\<lparr>lv_context := lv_context G\<rparr>" by (simp add: without_def)
          then show thesis by (rule idle) (use None no_master in \<open>simp_all add: master_at slave_at\<close>)
        qed
      qed
    qed
  qed
qed

subsection \<open>The run of one actor\<close>

text \<open>The frames an actor has started to write, and what it was handed in a run of the loop.\<close>

definition wire_of :: "actor_id \<Rightarrow> ('b, 't) live \<Rightarrow> 'b list" where
  "wire_of a G = map snd (filter (\<lambda>x. fst x = a) (lv_wire G))"

lemma after_effects_simps [simp]:
  "lv_masters (after_effects w os G) = lv_masters G" "lv_servers (after_effects w os G) = lv_servers G"
  "lv_slaves (after_effects w os G) = lv_slaves G" "lv_router (after_effects w os G) = lv_router G"
  "lv_mail (after_effects w os G) = lv_mail G @ letters os"
  "lv_wire (after_effects w os G) = lv_wire G @ map (Pair w) (writes os)"
  by (simp_all add: after_effects_def)

lemma wire_of_after: "wire_of a (after_effects w os G) = wire_of a G @ (if w = a then writes os else [])"
  by (auto simp: wire_of_def filter_map comp_def)

lemma wire_of_cong: "lv_wire G = lv_wire H \<Longrightarrow> wire_of a G = wire_of a H"
  by (simp add: wire_of_def)

fun master_history :: "('b, 'u::len word, 't::len word) modbus_lib \<Rightarrow> actor_id \<Rightarrow> actor_id \<Rightarrow>
    ('b, 't word) live \<Rightarrow> ('b, 't word) gateway_event list \<Rightarrow> ('b, 't word) master_event list" where
  "master_history L d r G [] = []"
| "master_history L d r G (e # es) = (if ctx_stopped (lv_context G) then []
     else master_handed r G e @ (case gateway_step L d G e of Done G' \<Rightarrow> master_history L d r G' es | _ \<Rightarrow> []))"

fun slave_history :: "('b, 'u::len word, 't::len word) modbus_lib \<Rightarrow> actor_id \<Rightarrow> actor_id \<Rightarrow>
    ('b, 't word) live \<Rightarrow> ('b, 't word) gateway_event list \<Rightarrow> ('b, 't word) slave_event list" where
  "slave_history L d a G [] = []"
| "slave_history L d a G (e # es) = (if ctx_stopped (lv_context G) then []
     else slave_handed a G e @ (case gateway_step L d G e of Done G' \<Rightarrow> slave_history L d a G' es | _ \<Rightarrow> []))"

lemma master_handed_run:
  assumes "gateway_step L d G e = Done G'" and "named T d G" and "map_of (lv_masters G) r = Some s"
  shows "\<exists>s' os. map_of (lv_masters G') r = Some s' \<and> run (master_step L d) s (master_handed r G e) = Done (s', os) \<and>
    wire_of r G' = wire_of r G @ writes os"
  using assms(1,2)
proof (cases rule: gateway_step_cases)
  case (idle t c)
  then have "wire_of r G' = wire_of r G" by (intro wire_of_cong) simp
  with idle assms(3) show ?thesis by simp
next
  case (master q s1 ev t s' os)
  let ?G = "(without t G)\<lparr>lv_masters := AList.update q s' (lv_masters G)\<rparr>"
  have "wire_of r ?G = wire_of r G" by (rule wire_of_cong) simp
  then have "wire_of r G' = wire_of r G @ (if q = r then writes os else [])" by (simp add: master(3) wire_of_after)
  with master assms(3) show ?thesis by (cases "q = r") (simp_all add: map_of_update)
next
  case (slave a n ev t R n' os)
  let ?G = "(without t G)\<lparr>lv_reading := R, lv_slaves := (lv_slaves G)(a \<mapsto> n')\<rparr>"
  have "a \<noteq> r" using assms(2,3) slave(1) unfolding named_def by (metis domI dom_map_of_conv_image_fst)
  moreover have "wire_of r ?G = wire_of r G" by (rule wire_of_cong) simp
  ultimately have "wire_of r G' = wire_of r G" by (simp add: slave(3) wire_of_after)
  with slave assms(3) show ?thesis by simp
next
  case (joined v ec peer started i s')
  then have "wire_of r G' = wire_of r G" by (intro wire_of_cong) simp
  with joined assms(3) show ?thesis by simp
next
  case (left v i c s')
  then have "wire_of r G' = wire_of r G" by (intro wire_of_cong) simp
  with left assms(3) show ?thesis by simp
qed

lemma slave_handed_run:
  assumes "gateway_step L d G e = Done G'" and "named T d G" and "lv_slaves G' a = Some n'"
  shows "case lv_slaves G a of None \<Rightarrow> \<exists>v ec peer started. e = Accepted v ec peer started a \<and>
        n' = new_connection d v (lv_router G) a
    | Some n \<Rightarrow> (\<exists>os. run (slave_step L d) n (slave_handed a G e) = Done (n', os) \<and> wire_of a G' = wire_of a G @ writes os)"
  using assms(1,2)
proof (cases rule: gateway_step_cases)
  case (idle t c)
  then have "wire_of a G' = wire_of a G" by (intro wire_of_cong) simp
  with idle assms(3) show ?thesis by simp
next
  case (master r s1 ev t s' os)
  let ?G = "(without t G)\<lparr>lv_masters := AList.update r s' (lv_masters G)\<rparr>"
  from master assms(3) have a: "lv_slaves G a = Some n'" by simp
  have "r \<noteq> a" using assms(2) a master(1) unfolding named_def by (metis domI dom_map_of_conv_image_fst)
  moreover have "wire_of a ?G = wire_of a G" by (rule wire_of_cong) simp
  ultimately have "wire_of a G' = wire_of a G" by (simp add: master(3) wire_of_after)
  with master a show ?thesis by simp
next
  case (slave b n ev t R n1 os)
  let ?G = "(without t G)\<lparr>lv_reading := R, lv_slaves := (lv_slaves G)(b \<mapsto> n1)\<rparr>"
  have "wire_of a ?G = wire_of a G" by (rule wire_of_cong) simp
  then have "wire_of a G' = wire_of a G @ (if b = a then writes os else [])" by (simp add: slave(3) wire_of_after)
  with slave assms(3) show ?thesis by (cases "b = a") simp_all
next
  case (joined v ec peer started i s')
  then have "wire_of a G' = wire_of a G" by (intro wire_of_cong) simp
  with joined assms(3) show ?thesis by (cases "i = a") (auto simp: free_id_def split: option.split)
next
  case (left v i c s')
  then have "wire_of a G' = wire_of a G" by (intro wire_of_cong) simp
  with left assms(3) show ?thesis by (simp split: if_splits)
qed

lemma gateway_step_masters:
  assumes "gateway_step L d G e = Done G'" and "named T d G"
  shows "fst ` set (lv_masters G') = fst ` set (lv_masters G)"
  using assms by (cases rule: gateway_step_cases) (auto simp: update_known_keys simp del: set_map)

lemma event_loop_masters:
  assumes "event_loop L d G es = Waiting G' \<or> event_loop L d G es = Returned G'" and "live_inv T d G"
  shows "fst ` set (lv_masters G') = fst ` set (lv_masters G)"
  using event_loop_induct [OF assms(1), of "\<lambda>H. live_inv T d H \<and> fst ` set (lv_masters H) = fst ` set (lv_masters G)"]
    assms(2) gateway_step_inv gateway_step_masters unfolding live_inv_def by metis

text \<open>Over a run of the loop.\<close>

lemma master_history_run:
  fixes L :: "('b, 'u::len word, 't::len word) modbus_lib"
  assumes "event_loop L d G es = Waiting G' \<or> event_loop L d G es = Returned G'"
    and "live_inv TYPE('u word) d G" and "map_of (lv_masters G) r = Some s"
  shows "\<exists>s' os. map_of (lv_masters G') r = Some s' \<and> run (master_step L d) s (master_history L d r G es) = Done (s', os) \<and>
    wire_of r G' = wire_of r G @ writes os"
  using assms
proof (induction es arbitrary: G s)
  case Nil
  then show ?case by (auto split: if_splits)
next
  case (Cons e es)
  show ?case
  proof (cases "ctx_stopped (lv_context G)")
    case True
    with Cons.prems show ?thesis by auto
  next
    case False
    with Cons.prems(1) obtain G1 where step: "gateway_step L d G e = Done G1"
      and rest: "event_loop L d G1 es = Waiting G' \<or> event_loop L d G1 es = Returned G'" by (auto split: outcome.splits)
    have inv: "live_inv TYPE('u word) d G1" by (rule gateway_step_inv [OF Cons.prems(2) step])
    have named: "named TYPE('u word) d G" using Cons.prems(2) by (simp add: live_inv_def)
    from master_handed_run [OF step named Cons.prems(3)] obtain s1 os1 where one: "map_of (lv_masters G1) r = Some s1"
      "run (master_step L d) s (master_handed r G e) = Done (s1, os1)" "wire_of r G1 = wire_of r G @ writes os1" by blast
    from Cons.IH [OF rest inv one(1)] obtain s2 os2 where two: "map_of (lv_masters G') r = Some s2"
      "run (master_step L d) s1 (master_history L d r G1 es) = Done (s2, os2)" "wire_of r G' = wire_of r G1 @ writes os2" by blast
    from run_append [OF one(2) two(2)] one(3) two(1,3) False step show ?thesis by simp
  qed
qed

text \<open>
  A slave-side actor that is there at the end was there all the time, or the last accept that
  made it known is in the run, and it was there since.
\<close>

lemma slave_history_run:
  fixes L :: "('b, 'u::len word, 't::len word) modbus_lib"
  assumes "event_loop L d G es = Waiting G' \<or> event_loop L d G es = Returned G'"
    and "live_inv TYPE('u word) d G" and "lv_slaves G' a = Some n'"
  obtains (always) n os where "lv_slaves G a = Some n" "run (slave_step L d) n (slave_history L d a G es) = Done (n', os)"
      "wire_of a G' = wire_of a G @ writes os"
  | (accepted) es1 v ec peer started es2 G1 os where "es = es1 @ Accepted v ec peer started a # es2"
      "event_loop L d G (es1 @ [Accepted v ec peer started a]) = Waiting G1"
      "run (slave_step L d) (new_connection d v (lv_router G) a) (slave_history L d a G1 es2) = Done (n', os)"
      "wire_of a G' = wire_of a G1 @ writes os"
  using assms(1,2)
proof (induction es arbitrary: G thesis)
  case Nil
  then show ?case using assms(3) by (auto split: if_splits)
next
  case (Cons e es)
  show ?case
  proof (cases "ctx_stopped (lv_context G)")
    case True
    with Cons.prems(1,3) assms(3) show ?thesis by auto
  next
    case False
    with Cons.prems(3) obtain G1 where step: "gateway_step L d G e = Done G1"
      and rest: "event_loop L d G1 es = Waiting G' \<or> event_loop L d G1 es = Returned G'" by (auto split: outcome.splits)
    have inv: "live_inv TYPE('u word) d G1" by (rule gateway_step_inv [OF Cons.prems(4) step])
    have named: "named TYPE('u word) d G" using Cons.prems(4) by (simp add: live_inv_def)
    show ?thesis
    proof (rule Cons.IH [OF _ _ rest inv])
      fix es1 v ec peer started es2 H os
      assume later: "es = es1 @ Accepted v ec peer started a # es2"
        "event_loop L d G1 (es1 @ [Accepted v ec peer started a]) = Waiting H"
        "run (slave_step L d) (new_connection d v (lv_router G1) a) (slave_history L d a H es2) = Done (n', os)"
        "wire_of a G' = wire_of a H @ writes os"
      from later(2) step False have "event_loop L d G ((e # es1) @ [Accepted v ec peer started a]) = Waiting H" by simp
      with later(1,3,4) gateway_step_router [OF step] show thesis
        by (intro Cons.prems(2) [of "e # es1" v ec peer started es2 H os]) simp_all
    next
      fix n os
      assume now: "lv_slaves G1 a = Some n" "run (slave_step L d) n (slave_history L d a G1 es) = Done (n', os)"
        "wire_of a G' = wire_of a G1 @ writes os"
      show thesis
      proof (cases "lv_slaves G a")
        case None
        with slave_handed_run [OF step named now(1)] obtain v ec peer started where
          new: "e = Accepted v ec peer started a" "n = new_connection d v (lv_router G) a" by auto
        have "\<not> ctx_stopped (lv_context G1)"
          using step new(1) False by (auto simp: server_acts_live_def and_then_Done_iff split: option.splits if_splits)
        with step False new(1) have "event_loop L d G ([] @ [Accepted v ec peer started a]) = Waiting G1" by simp
        with now(2,3) new show thesis by (intro Cons.prems(2) [of "[]" v ec peer started es G1 os]) simp_all
      next
        case (Some m)
        with slave_handed_run [OF step named now(1)] obtain os1 where
          one: "run (slave_step L d) m (slave_handed a G e) = Done (n, os1)" "wire_of a G1 = wire_of a G @ writes os1" by auto
        from run_append [OF one(1) now(2)] one(2) now(3) step False Some show thesis
          by (intro Cons.prems(1) [of m "os1 @ os"]) simp_all
      qed
    qed
  qed
qed

subsection \<open>The actors a gateway starts with\<close>

text \<open>A master and a serial slave as the gateway makes them from their configuration, with the id they are given.\<close>

definition configured_master :: "actor_id \<Rightarrow> actor_id \<Rightarrow> ('a, 'u) transport_config \<Rightarrow> ('b, 't::len word) master_actor option" where
  "configured_master d i c = (case c of
     TcpClientConfig mc address port \<Rightarrow> Some (ClientActor (TcpClient_SetId i (ModbusTcpClient d (mc_timeout mc))))
   | RtuMasterConfig mc device options frameType \<Rightarrow>
       (case ModbusRtuMaster d (mc_timeout mc) frameType of Done x \<Rightarrow> Some (RtuActor (RtuMaster_SetId i x)) | _ \<Rightarrow> None)
   | _ \<Rightarrow> None)"

definition configured_line :: "actor_id \<Rightarrow> actor_id \<Rightarrow> router \<Rightarrow> ('a, 'u) transport_config \<Rightarrow> 't::len word rtu_slave option" where
  "configured_line d i router c = (case c of
     RtuSlaveConfig device options frameType \<Rightarrow>
       (case ModbusRtuSlave d router frameType of Done x \<Rightarrow> Some (RtuSlave_SetId i x) | _ \<Rightarrow> None)
   | _ \<Rightarrow> None)"

lemma configured_new:
  assumes "configured_master d i c = Some s"
  shows "master_GetId s = i" "master_wf s" "master_pipeline s = []"
    "s = ClientActor x \<Longrightarrow> tc_currentMessage x = None \<and> lq_items (tc_messageQueue x) = [] \<and> tc_transactionIdGenerator x = 0"
    "s = RtuActor y \<Longrightarrow> rm_currentMessage y = None \<and> lq_items (rm_messageQueue y) = []"
  using assms
  by (auto simp: configured_master_def ModbusRtuMaster_def ModbusTcpClient_def TcpClient_SetId_def RtuMaster_SetId_def
      master_GetId_def TcpClient_GetId_def RtuMaster_GetId_def tc_wf_def tc_pipeline_def rm_wf_def rm_pipeline_def
      LimitQueue_default_def LimitQueue_invar_def split: transport_config.splits if_splits)

lemma MakeMasters_configured:
  assumes "MakeMasters opens add_id d n ms cfgs = Ok (ms', n')"
  shows "n' = n + length cfgs \<and> (\<forall>m \<in> set ms'. m \<in> set ms \<or>
    (\<exists>k < length cfgs. configured_master d (add_id (n + k)) (cfgs ! k) = Some (gm_actor m)))"
  using assms
proof (induction cfgs arbitrary: n ms)
  case (Cons c rest)
  from Cons.prems obtain mc s where s: "configured_master d (add_id n) c = Some s"
    and made: "MakeMasters opens add_id d (Suc n) (insert_master mc \<lparr>gm_config = c, gm_actor = s\<rparr> ms) rest = Ok (ms', n')"
    by (cases c) (auto simp: configured_master_def Let_def st_bind_Ok of_outcome_def split: if_splits outcome.splits)
  from Cons.IH [OF made] have n': "n' = Suc n + length rest" by blast
  have old: "m \<in> set ms \<or> gm_actor m = s \<or>
      (\<exists>k < length rest. configured_master d (add_id (Suc n + k)) (rest ! k) = Some (gm_actor m))" if "m \<in> set ms'" for m
    using that Cons.IH [OF made] by (auto simp: insert_master_def split: if_splits)
  have new: "\<exists>k < length (c # rest). configured_master d (add_id (n + k)) ((c # rest) ! k) = Some a"
    if "a = s \<or> (\<exists>k < length rest. configured_master d (add_id (Suc n + k)) (rest ! k) = Some a)" for a
    using that
  proof
    assume "a = s"
    with s show ?thesis by (intro exI [of _ 0]) simp
  next
    assume "\<exists>k < length rest. configured_master d (add_id (Suc n + k)) (rest ! k) = Some a"
    then obtain k where "k < length rest" "configured_master d (add_id (Suc n + k)) (rest ! k) = Some a" by blast
    then show ?thesis by (intro exI [of _ "Suc k"]) simp
  qed
  show ?case
  proof (intro conjI ballI)
    show "n' = n + length (c # rest)" using n' by simp
    show "m \<in> set ms \<or> (\<exists>k < length (c # rest). configured_master d (add_id (n + k)) ((c # rest) ! k) = Some (gm_actor m))"
      if "m \<in> set ms'" for m using old [OF that] new by blast
  qed
qed simp

lemma MakeSlaves_configured:
  assumes "MakeSlaves opens add_id d rt n cfgs = Ok ss"
  shows "\<forall>s \<in> set ss. \<forall>x. gs_actor s = SlaveActor x \<longrightarrow>
    (\<exists>k < length cfgs. configured_line d (add_id (n + k)) rt (cfgs ! k) = Some x)"
  using assms
proof (induction cfgs arbitrary: n ss)
  case (Cons c rest)
  from Cons.prems obtain s xs where ss: "ss = s # xs" "MakeSlaves opens add_id d rt (Suc n) rest = Ok xs"
    and s: "\<forall>x. gs_actor s = SlaveActor x \<longrightarrow> configured_line d (add_id n) rt c = Some x"
    by (cases c) (auto simp: configured_line_def st_bind_Ok of_outcome_def split: if_splits outcome.splits)
  have "\<exists>k < length (c # rest). configured_line d (add_id (n + k)) rt ((c # rest) ! k) = Some x"
    if "t \<in> set ss" "gs_actor t = SlaveActor x" for t x
  proof (cases "t = s")
    case True
    with s that show ?thesis by (intro exI [of _ 0]) simp
  next
    case False
    with that ss(1) Cons.IH [OF ss(2)] obtain k where "k < length rest"
      "configured_line d (add_id (Suc n + k)) rt (rest ! k) = Some x" by auto
    then show ?thesis by (intro exI [of _ "Suc k"]) simp
  qed
  then show ?case by blast
qed simp

lemma started_configured:
  fixes g :: "('a, 'u::len word, 'b, unit, 't::len word) gateway"
  assumes "Gateway_start opens add_id d cfg = Ok g"
  shows "map_of (lv_masters (live_of g)) r = Some s \<Longrightarrow>
      \<exists>k < length (masters cfg). r = add_id k \<and> configured_master d r (masters cfg ! k) = Some s"
    and "lv_slaves (live_of g) a = Some n \<Longrightarrow> \<exists>k x. k < length (slaves cfg) \<and> a = add_id (length (masters cfg) + k) \<and>
      configured_line d a (gw_router g) (slaves cfg ! k) = Some x \<and> n = Serial_slave_node x"
proof -
  from assms obtain i ss os where
    ms: "MakeMasters opens add_id d 0 [] (masters cfg) = Ok (gw_masters g, i)"
    and ss: "MakeSlaves opens add_id d (gw_router g) i (slaves cfg) = Ok ss"
    and start: "StartSlaves d ss = Ok (gw_slaves g, os :: ('b, 't word) effect list)"
    by (auto simp: Gateway_start_def st_bind_Ok split: if_splits option.splits)
  note made = MakeMasters_configured [OF ms]
  show "\<exists>k < length (masters cfg). r = add_id k \<and> configured_master d r (masters cfg ! k) = Some s"
    if "map_of (lv_masters (live_of g)) r = Some s"
  proof -
    from map_of_SomeD [OF that] obtain m where m: "m \<in> set (gw_masters g)" "r = master_GetId (gm_actor m)" "s = gm_actor m"
      by (auto simp: live_of_def)
    with made obtain k where "k < length (masters cfg)" "configured_master d (add_id k) (masters cfg ! k) = Some s" by auto
    with configured_new(1) m show ?thesis by metis
  qed
  show "\<exists>k x. k < length (slaves cfg) \<and> a = add_id (length (masters cfg) + k) \<and>
      configured_line d a (gw_router g) (slaves cfg ! k) = Some x \<and> n = Serial_slave_node x"
    if "lv_slaves (live_of g) a = Some n"
  proof -
    from that have "(a, n) \<in> set (serial_lines (gw_slaves g))" by (simp add: live_of_def map_of_SomeD)
    then obtain s x where s: "s \<in> set (gw_slaves g)" "gs_actor s = SlaveActor x" "n = Serial_slave_node x" "a = RtuSlave_GetId x"
      by (auto simp: serial_lines_def split: slave_actor.splits) (metis)
    from s(1,2) have "SlaveActor x \<in> set (map gs_actor (gw_slaves g))" by force
    with StartSlaves_actors [OF start] obtain s0 where "s0 \<in> set ss" "gs_actor s0 = SlaveActor x" by auto
    with MakeSlaves_configured [OF ss] made obtain k where k: "k < length (slaves cfg)"
      "configured_line d (add_id (length (masters cfg) + k)) (gw_router g) (slaves cfg ! k) = Some x" by fastforce
    moreover from this(2) have "RtuSlave_GetId x = add_id (length (masters cfg) + k)"
      by (auto simp: configured_line_def RtuSlave_SetId_def RtuSlave_GetId_def split: transport_config.splits outcome.splits)
    ultimately show ?thesis using s(3,4) by auto
  qed
qed

lemma started_wire: "wire_of a (live_of g) = []"
  by (simp add: wire_of_def live_of_def)

subsection \<open>Runs of one kind of actor\<close>

text \<open>A run of an actor as one of its kind is a run of its class.\<close>

lemma run_embedded:
  assumes "\<And>s e t os. big (f s) e = Done (t, os) \<Longrightarrow> \<exists>e' s'. e = h e' \<and> t = f s' \<and> small s e' = Done (s', os)"
    and "run big (f s) es = Done (t, os)"
  shows "\<exists>es' s'. es = map h es' \<and> t = f s' \<and> run small s es' = Done (s', os)"
  using assms(2)
proof (induction es arbitrary: s os)
  case Nil
  then show ?case by (intro exI [of _ "[]"]) auto
next
  case (Cons e es)
  then obtain t1 os1 os2 where one: "big (f s) e = Done (t1, os1)"
    and rest: "run big t1 es = Done (t, os2)" and os: "os = os1 @ os2"
    by (auto simp: run_Cons_Done simp del: run.simps)
  from assms(1) [OF one] obtain e' s1 where e': "e = h e'" "t1 = f s1" "small s e' = Done (s1, os1)" by blast
  from Cons.IH [of s1 os2] rest e'(2) obtain es' s' where "es = map h es'" "t = f s'" "run small s1 es' = Done (s', os2)" by blast
  with e' os show ?case by (intro exI [of _ "e' # es'"] exI [of _ s']) simp
qed

lemma client_master_run:
  assumes "run (master_step L d) (ClientActor s) es = Done (m, os)"
  shows "\<exists>es' s'. es = map Client_event es' \<and> m = ClientActor s' \<and> run (TcpClient_step L d) s es' = Done (s', os)"
proof (rule run_embedded [where f = ClientActor and h = Client_event and small = "TcpClient_step L d", OF _ assms])
  show "\<exists>e' s'. e = Client_event e' \<and> t = ClientActor s' \<and> TcpClient_step L d s e' = Done (s', os)"
    if "master_step L d (ClientActor s) e = Done (t, os)" for s e t os
    using that
    by (cases e) (auto simp: and_then_Done_iff)
qed

lemma serial_master_run:
  assumes "run (master_step L d) (RtuActor s) es = Done (m, os)"
  shows "\<exists>es' s'. es = map Serial_master_event es' \<and> m = RtuActor s' \<and> run (RtuMaster_step L d) s es' = Done (s', os)"
proof (rule run_embedded [where f = RtuActor and h = Serial_master_event and small = "RtuMaster_step L d", OF _ assms])
  show "\<exists>e' s'. e = Serial_master_event e' \<and> t = RtuActor s' \<and> RtuMaster_step L d s e' = Done (s', os)"
    if "master_step L d (RtuActor s) e = Done (t, os)" for s e t os
    using that
    by (cases e) (auto simp: and_then_Done_iff)
qed

lemma line_run:
  assumes "run (slave_step L d) (Serial_slave_node x) es = Done (n, os)"
  shows "\<exists>es' x'. es = map Serial_slave_event es' \<and> n = Serial_slave_node x' \<and> run (RtuSlave_step L d) x es' = Done (x', os)"
proof (rule run_embedded [where f = Serial_slave_node and h = Serial_slave_event and small = "RtuSlave_step L d", OF _ assms])
  show "\<exists>e' s'. e = Serial_slave_event e' \<and> t = Serial_slave_node s' \<and> RtuSlave_step L d s e' = Done (s', os)"
    if "slave_step L d (Serial_slave_node s) e = Done (t, os)" for s e t os
    using that
    by (cases e) (auto simp: and_then_Done_iff)
qed

lemma connection_run:
  assumes "run (slave_step L d) (Connection_node c) es = Done (n, os)"
  shows "\<exists>es' c'. es = map Connection_event es' \<and> n = Connection_node c' \<and> run (TcpConnection_step L d) c es' = Done (c', os)"
proof (rule run_embedded [where f = Connection_node and h = Connection_event and small = "TcpConnection_step L d", OF _ assms])
  show "\<exists>e' s'. e = Connection_event e' \<and> t = Connection_node s' \<and> TcpConnection_step L d s e' = Done (s', os)"
    if "slave_step L d (Connection_node s) e = Done (t, os)" for s e t os
    using that
    by (cases e) (auto simp: and_then_Done_iff)
qed

subsection \<open>Properties\<close>

text \<open>
  What the theories of the single actors show of a run of a master with the events \<open>es\<close> and the
  effects \<open>os\<close>: its replies are, in order and each at most once, requests it was handed, each to
  the request's sender; and a TCP client passes on only frames with the transaction id it sent last.
\<close>

definition master_contract :: "('b, 'u, 't::len word) modbus_lib \<Rightarrow> ('b, 't word) master_actor \<Rightarrow>
    ('b, 't word) master_event list \<Rightarrow> ('b, 't word) effect list \<Rightarrow> bool" where
  "master_contract L s es os \<longleftrightarrow> subseq (replies os) (concat (map master_arrivals es)) \<and>
     (\<forall>(a, i) \<in> set (replies os). a = sourceId i) \<and> (\<forall>x. s = ClientActor x \<longrightarrow> tids_match L None os)"

text \<open>Every answer directly follows the request it belongs to.\<close>

definition answers_follow :: "'k slot_event list \<Rightarrow> bool" where
  "answers_follow v \<longleftrightarrow> (\<forall>g k h. v = g @ Answered k # h \<longrightarrow> (\<exists>g'. g = g' @ [Opened k]))"

lemma master_arrivals_addressed: "(a, i) \<in> set (master_arrivals e) \<Longrightarrow> a = sourceId i"
  by (cases e) (auto dest: rm_arrivals_addressed tc_arrivals_addressed)

lemma configured_contract:
  assumes "configured_master d r c = Some s0" and "run (master_step L d) s0 es = Done (s, os)" and "tid_readback L"
  shows "master_contract L s es os"
proof -
  note new = configured_new [OF assms(1)]
  have sub: "subseq (replies os) (concat (map master_arrivals es))"
    by (rule ms.answers_in_order [OF new(2,3) assms(2)])
  have "\<forall>(a, i) \<in> set (concat (map master_arrivals es)). a = sourceId i"
    using master_arrivals_addressed by fastforce
  with subseq_set [OF sub] have "\<forall>(a, i) \<in> set (replies os). a = sourceId i" by blast
  moreover have "tids_match L None os" if s: "s = ClientActor x" for x
  proof (cases s0)
    case (ClientActor c)
    from client_master_run [OF assms(2) [unfolded ClientActor]] obtain es' x' where
      "run (TcpClient_step L d) c es' = Done (x', os)" by blast
    then show ?thesis using new(4) [OF ClientActor] by (intro TcpClient_run_wire [OF assms(3)]) (auto simp: wire_inv_def)
  next
    case (RtuActor y)
    from serial_master_run [OF assms(2) [unfolded RtuActor]] s show ?thesis by auto
  qed
  ultimately show ?thesis using sub by (simp add: master_contract_def)
qed

lemma line_log:
  assumes "run (RtuSlave_step L d) s es = Done (s', os)"
  shows "\<exists>log. run (RtuSlave_logged_step L d) s es = Done (s', log) \<and> concat (map snd log) = os \<and> map fst log = es"
  using assms
proof (induction es arbitrary: s os)
  case (Cons e es)
  then obtain s1 os1 os2 where one: "RtuSlave_step L d s e = Done (s1, os1)"
    and rest: "run (RtuSlave_step L d) s1 es = Done (s', os2)" and os: "os = os1 @ os2"
    by (auto simp: run_Cons_Done simp del: run.simps)
  from Cons.IH [OF rest] obtain log where "run (RtuSlave_logged_step L d) s1 es = Done (s', log)"
    "concat (map snd log) = os2" "map fst log = es" by blast
  moreover have "RtuSlave_logged_step L d s e = Done (s1, [(e, os1)])" using one by (simp add: RtuSlave_logged_step_def)
  ultimately show ?case using os by (intro exI [of _ "(e, os1) # log"]) simp
qed simp

text \<open>
  C5: the actors of the running gateway are runs of their classes and keep their contracts.
  Whatever completions the event loop handled in whatever order, and whatever other actors there are:

  every master is the one made from its entry of the configuration (with the timeout and the frame
  type of the entry and the id of its position), after exactly the messages and completions it was
  handed; it wrote on its line exactly what that run writes; its replies are, in order and at
  most once each, requests it was handed, to their senders, and a TCP client replies only with frames that
  carry the transaction id it sent last;

  the same for every serial slave, which wrote only answers that directly follow a request of
  the same transaction id;

  and every connection is one that its server accepted in the run and that has only been handed messages and
  completions since; since then its client was written exactly what that run writes, and these
  frames are answers with the transaction id of the request forwarded last, at most one to each.
\<close>

theorem Gateway_actor_contracts:
  fixes g :: "('a, 'u::len word, 'b, unit, 't::len word) gateway" and L :: "('b, 'u word, 't word) modbus_lib"
  assumes "Gateway_start opens add_id d cfg = Ok g" and "ids_fresh add_id d"
    and "event_loop L d (live_of g) es = Waiting G \<or> event_loop L d (live_of g) es = Returned G"
    and "tid_readback L"
  shows "(\<forall>r s. map_of (lv_masters G) r = Some s \<longrightarrow> (\<exists>k s0 os. k < length (masters cfg) \<and> r = add_id k \<and>
      configured_master d r (masters cfg ! k) = Some s0 \<and>
      run (master_step L d) s0 (master_history L d r (live_of g) es) = Done (s, os) \<and> wire_of r G = writes os \<and>
      master_contract L s (master_history L d r (live_of g) es) os)) \<and>
    (\<forall>a x. lv_slaves G a = Some (Serial_slave_node x) \<longrightarrow> (\<exists>k x0 fs log. k < length (slaves cfg) \<and>
      a = add_id (length (masters cfg) + k) \<and> configured_line d a (gw_router g) (slaves cfg ! k) = Some x0 \<and>
      slave_history L d a (live_of g) es = map Serial_slave_event fs \<and>
      run (RtuSlave_logged_step L d) x0 fs = Done (x, log) \<and> wire_of a G = writes (concat (map snd log)) \<and>
      answers_follow (concat (map line_view log)))) \<and>
    (\<forall>a c. lv_slaves G a = Some (Connection_node c) \<longrightarrow> (\<exists>es1 v ec peer started es2 G1 fs os.
      es = es1 @ Accepted v ec peer started a # es2 \<and>
      event_loop L d (live_of g) (es1 @ [Accepted v ec peer started a]) = Waiting G1 \<and>
      slave_history L d a G1 es2 = map Connection_event fs \<and>
      run (TcpConnection_step L d) (TcpConnection_SetId a (ModbusTcpConnection d v (gw_router g))) fs = Done (c, os) \<and>
      wire_of a G = wire_of a G1 @ writes os \<and> answers_follow (concat (map (conn_view L) os))))"
proof (intro conjI allI impI)
  note inv = live_of_inv [OF assms(1,2)]
  show "\<exists>k s0 os. k < length (masters cfg) \<and> r = add_id k \<and> configured_master d r (masters cfg ! k) = Some s0 \<and>
      run (master_step L d) s0 (master_history L d r (live_of g) es) = Done (s, os) \<and> wire_of r G = writes os \<and>
      master_contract L s (master_history L d r (live_of g) es) os" if s: "map_of (lv_masters G) r = Some s" for r s
  proof -
    have "fst ` set (lv_masters G) = fst ` set (lv_masters (live_of g))"
      by (rule event_loop_masters [OF assms(3) inv])
    moreover have "r \<in> fst ` set (lv_masters G)" using s by (metis domI dom_map_of_conv_image_fst)
    ultimately obtain s0 where s0: "map_of (lv_masters (live_of g)) r = Some s0"
      by (metis dom_map_of_conv_image_fst domD)
    from master_history_run [OF assms(3) inv s0] s obtain os where
      run: "run (master_step L d) s0 (master_history L d r (live_of g) es) = Done (s, os)" "wire_of r G = writes os"
      by (auto simp: started_wire)
    from started_configured(1) [OF assms(1) s0] configured_contract [OF _ run(1) assms(4)] run show ?thesis by blast
  qed
  fix a
  show "\<exists>k x0 fs log. k < length (slaves cfg) \<and> a = add_id (length (masters cfg) + k) \<and>
      configured_line d a (gw_router g) (slaves cfg ! k) = Some x0 \<and>
      slave_history L d a (live_of g) es = map Serial_slave_event fs \<and>
      run (RtuSlave_logged_step L d) x0 fs = Done (x, log) \<and> wire_of a G = writes (concat (map snd log)) \<and>
      answers_follow (concat (map line_view log))" if x: "lv_slaves G a = Some (Serial_slave_node x)" for x
    using assms(3) inv x
  proof (cases rule: slave_history_run)
    case (always n os)
    from started_configured(2) [OF assms(1) always(1)] obtain k x0 where k: "k < length (slaves cfg)"
      "a = add_id (length (masters cfg) + k)" "configured_line d a (gw_router g) (slaves cfg ! k) = Some x0"
      "n = Serial_slave_node x0" by blast
    from line_run [OF always(2) [unfolded k(4)]] obtain fs where
      fs: "slave_history L d a (live_of g) es = map Serial_slave_event fs" "run (RtuSlave_step L d) x0 fs = Done (x, os)" by auto
    from line_log [OF fs(2)] obtain log where
      log: "run (RtuSlave_logged_step L d) x0 fs = Done (x, log)" "concat (map snd log) = os" by blast
    have "map_option (\<lambda>i. Some (transactionId i)) (rs_requestInfo x0) = None"
      using k(3) by (auto simp: configured_line_def ModbusRtuSlave_def RtuSlave_SetId_def
          split: transport_config.splits if_splits)
    from line.answers_follow_requests [OF TrueI log(1) this] have "answers_follow (concat (map line_view log))"
      unfolding answers_follow_def by blast
    with k fs(1) log always(3) show ?thesis by (auto simp: started_wire)
  next
    case (accepted es1 v ec peer started es2 G1 os)
    from connection_run [OF accepted(3) [unfolded new_connection_def]] show ?thesis by auto
  qed
  show "\<exists>es1 v ec peer started es2 G1 fs os. es = es1 @ Accepted v ec peer started a # es2 \<and>
      event_loop L d (live_of g) (es1 @ [Accepted v ec peer started a]) = Waiting G1 \<and>
      slave_history L d a G1 es2 = map Connection_event fs \<and>
      run (TcpConnection_step L d) (TcpConnection_SetId a (ModbusTcpConnection d v (gw_router g))) fs = Done (c, os) \<and>
      wire_of a G = wire_of a G1 @ writes os \<and> answers_follow (concat (map (conn_view L) os))"
    if c: "lv_slaves G a = Some (Connection_node c)" for c
    using assms(3) inv c
  proof (cases rule: slave_history_run)
    case (always n os)
    from started_configured(2) [OF assms(1) always(1)] obtain x0 where "n = Serial_slave_node x0" by blast
    from line_run [OF always(2) [unfolded this]] show ?thesis by auto
  next
    case (accepted es1 v ec peer started es2 G1 os)
    have router: "lv_router (live_of g) = gw_router g" by (simp add: live_of_def)
    from connection_run [OF accepted(3) [unfolded new_connection_def router]] obtain fs where
      fs: "slave_history L d a G1 es2 = map Connection_event fs"
      "run (TcpConnection_step L d) (TcpConnection_SetId a (ModbusTcpConnection d v (gw_router g))) fs = Done (c, os)" by auto
    have "map_option transactionId (conn_requestInfo (TcpConnection_SetId a (ModbusTcpConnection d v (gw_router g)))) = None"
      by (simp add: TcpConnection_SetId_def ModbusTcpConnection_def)
    from conn.answers_follow_requests [OF assms(4) fs(2) this] have "answers_follow (concat (map (conn_view L) os))"
      unfolding answers_follow_def by blast
    with accepted(1,2,4) fs show ?thesis by blast
  qed
qed

theorem Gateway_actor_contracts_witness:
  "\<exists>(g :: (nat, 8 word, frame, unit, 16 word) gateway) G s0 s os wire.
     event_loop sample_lib 0 (live_of g) answered_events = Waiting G \<and>
     configured_master 0 1 (TcpClientConfig sample_units (1 :: nat) 502) = Some s0 \<and>
     run (master_step sample_lib 0) s0 (master_history sample_lib 0 1 (live_of g) answered_events) = Done (s, os) \<and>
     wire_of 1 G = [wire] \<and> writes os = [wire] \<and>
     master_contract sample_lib s (master_history sample_lib 0 1 (live_of g) answered_events) os"
proof -
  from answered_gateway obtain g :: "(nat, 8 word, frame, unit, 16 word) gateway" and G s wire out where
    g: "Gateway_start (\<lambda>c. True) Suc 0 (one_master_config (TcpClientConfig sample_units 1 502)) = Ok g"
    and run: "event_loop sample_lib 0 (live_of g) answered_events = Waiting G"
    and G: "lv_wire G = [(1, wire), (5, out)]" "lv_masters G = [(1, ClientActor s)]" by blast
  have "map_of (lv_masters G) 1 = Some (ClientActor s)" by (simp add: G)
  with conjunct1 [OF Gateway_actor_contracts [OF g ids_fresh_Suc disjI1 [OF run] sample_lib_lawful(1)]]
  obtain k s0 os where "k < length [TcpClientConfig sample_units (1 :: nat) 502]"
    "configured_master 0 1 ([TcpClientConfig sample_units (1 :: nat) 502] ! k) = Some s0"
    "run (master_step sample_lib 0) s0 (master_history sample_lib 0 1 (live_of g) answered_events) = Done (ClientActor s, os)"
    "wire_of 1 G = writes os"
    "master_contract sample_lib (ClientActor s) (master_history sample_lib 0 1 (live_of g) answered_events) os"
    unfolding config.simps by blast
  moreover from this(1) have "k = 0" by simp
  moreover have "wire_of 1 G = [wire]" by (simp add: wire_of_def G)
  ultimately show ?thesis using run by (metis nth_Cons_0)
qed

end
