(* ===== verification/Traffic.thy ===== *)
theory Traffic
  imports Actor_Runs
begin

text \<open>
  What goes over the lines of the running gateway: of which type the frames are and how they are
  numbered, and how many there are: the gateway never writes more frames to devices than it read
  requests, nor more answers than frames to devices.
\<close>

subsection \<open>The frames of one master\<close>

lemma RtuMaster_QueueProcess_writes:
  assumes "RtuMaster_QueueProcessUnsafe L now s = Done (s', os)" and "convert_types L"
  shows "rm_frameType s' = rm_frameType s \<and> (\<forall>b \<in> set (writes os). mb_type L b = rm_frameType s)"
  using assms(1)
  by (rule RtuMaster_QueueProcess_cases)
    (use assms(2) in \<open>auto simp: rm_take_def rm_frame_def convert_types_def\<close>)

lemma RtuMaster_step_writes:
  assumes "RtuMaster_step L d s e = Done (s', os)" and "convert_types L"
  shows "rm_frameType s' = rm_frameType s \<and> (\<forall>b \<in> set (writes os). mb_type L b = rm_frameType s)"
proof (cases e)
  case (Master_message now m)
  with assms(1) show ?thesis
    by (cases m) (auto simp: RtuMaster_Receive_def RtuMaster_MessageProcess_def
        dest!: RtuMaster_QueueProcess_writes [OF _ assms(2)])
next
  case (Master_read exch now ec buffer sz)
  obtain r s1 where r: "RtuMaster_MakeResponse L buffer sz s = (r, s1)" by fastforce
  then have "rm_frameType s1 = rm_frameType s"
    by (auto simp: RtuMaster_MakeResponse_def Let_def split: option.splits if_splits)
  with assms(1) Master_read r show ?thesis
    by (auto simp: RtuMaster_on_read_def and_then_Done_iff Let_def split: if_splits option.splits
        dest!: RtuMaster_QueueProcess_writes [OF _ assms(2)])
qed (use assms(1) in \<open>auto simp: handler_defs split: option.splits\<close>)

text \<open>A TCP client writes at most one frame per step, with the next transaction id.\<close>

definition numbers_next :: "('b, 'u, 't::len word) modbus_lib \<Rightarrow> ('b, 't word) tcp_client \<Rightarrow>
    ('b, 't word) tcp_client \<Rightarrow> 'b list \<Rightarrow> bool" where
  "numbers_next L s s' bs \<longleftrightarrow> (case bs of
     [] \<Rightarrow> tc_transactionIdGenerator s' = tc_transactionIdGenerator s
   | b # cs \<Rightarrow> cs = [] \<and> mb_type L b = TCP \<and> tcp_get_tid L b = tc_transactionIdGenerator s + 1 \<and>
       tc_transactionIdGenerator s' = tc_transactionIdGenerator s + 1)"

lemma numbers_next_updates [simp]:
  "numbers_next L (s\<lparr>tc_messageQueue := q\<rparr>) s' bs = numbers_next L s s' bs"
  "numbers_next L (s\<lparr>tc_state := st\<rparr>) s' bs = numbers_next L s s' bs"
  "numbers_next L s s' [] \<longleftrightarrow> tc_transactionIdGenerator s' = tc_transactionIdGenerator s"
  by (simp_all add: numbers_next_def split: list.split)

lemma TcpClient_QueueProcess_writes:
  assumes "TcpClient_QueueProcessUnsafe L now s = Done (s', os)" and "convert_types L" and "tid_readback L"
  shows "numbers_next L s s' (writes os)"
  using assms(1)
  by (rule TcpClient_QueueProcess_cases)
    (use assms(2,3) in \<open>auto simp: numbers_next_def tc_take_def tc_frame_def convert_types_def tid_readback_def\<close>)

lemma TcpClient_step_writes:
  assumes "TcpClient_step L d s e = Done (s', os)" and "convert_types L" and "tid_readback L"
  shows "numbers_next L s s' (writes os)"
proof (cases e)
  case (Client_message now m)
  show ?thesis
  proof (cases m)
    case (ModbusMsg x)
    with assms(1) Client_message have "TcpClient_QueueProcessUnsafe L now
        (s\<lparr>tc_messageQueue := LimitQueue_Push x (tc_messageQueue s)\<rparr>) = Done (s', os)"
      by (simp add: TcpClient_Receive_def TcpClient_MessageProcess_def)
    from TcpClient_QueueProcess_writes [OF this assms(2,3)] show ?thesis by simp
  qed (use assms(1) Client_message in \<open>auto simp: TcpClient_Receive_def numbers_next_def\<close>)
next
  case (Client_connected now ec known)
  with assms(1) show ?thesis
    using TcpClient_QueueProcess_writes [OF _ assms(2,3), of now "s\<lparr>tc_state := Connected\<rparr>" s' os]
    by (auto simp: TcpClient_on_connect_def Let_def split: option.splits if_splits)
next
  case (Client_received exch now ec is_open buffer sz)
  with assms(1) have "TcpClient_on_receive L exch now ec is_open buffer sz s = Done (s', os)" by simp
  then show ?thesis
  proof (cases rule: TcpClient_on_receive_cases)
    case (failed e os1)
    then show ?thesis by (auto simp: TcpClient_fail_def TcpClient_CloseSocket_def Let_def numbers_next_def split: if_splits)
  next
    case (reply r s1 os1)
    then have "tc_transactionIdGenerator s1 = tc_transactionIdGenerator s"
      by (auto simp: TcpClient_MakeResponse_def Let_def split: option.splits if_splits)
    with TcpClient_QueueProcess_writes [OF reply(4) assms(2,3)] reply(5) show ?thesis
      by (simp add: numbers_next_def split: option.splits list.splits)
  qed (simp add: numbers_next_def)
qed (use assms(1) in \<open>auto simp: handler_defs TcpClient_fail_def Let_def numbers_next_def split: option.splits if_splits\<close>)

lemma TcpClient_run_writes:
  assumes "run (TcpClient_step L d) s es = Done (s', os)" and "convert_types L" and "tid_readback L"
  shows "tc_transactionIdGenerator s' = tc_transactionIdGenerator s + of_nat (length (writes os)) \<and>
    map (tcp_get_tid L) (writes os) =
      map (\<lambda>k. tc_transactionIdGenerator s + of_nat (Suc k)) [0 ..< length (writes os)]"
  using assms(1)
proof (induction es arbitrary: s os)
  case Nil
  then show ?case by simp
next
  case (Cons e es)
  then obtain s1 os1 os2 where one: "TcpClient_step L d s e = Done (s1, os1)"
    and rest: "run (TcpClient_step L d) s1 es = Done (s', os2)" and os: "os = os1 @ os2"
    by (auto simp: run_Cons_Done simp del: run.simps)
  note num = TcpClient_step_writes [OF one assms(2,3)] and IH = Cons.IH [OF rest]
  show ?case
  proof (cases "writes os1")
    case Nil
    with num IH os show ?thesis by (simp add: numbers_next_def)
  next
    case (Cons b bs)
    with num have b: "writes os1 = [b]" "tcp_get_tid L b = tc_transactionIdGenerator s + 1"
      "tc_transactionIdGenerator s1 = tc_transactionIdGenerator s + 1" by (auto simp: numbers_next_def)
    let ?n = "length (writes os2)"
    have "map (\<lambda>k. tc_transactionIdGenerator s + of_nat (Suc k)) [0 ..< Suc ?n] =
        (tc_transactionIdGenerator s + 1) # map (\<lambda>k. tc_transactionIdGenerator s1 + of_nat (Suc k)) [0 ..< ?n]"
      by (simp add: b(3) upt_conv_Cons map_Suc_upt [symmetric] comp_def ac_simps del: upt_Suc)
    with IH b os show ?thesis by (simp add: ac_simps del: upt_Suc)
  qed
qed

subsection \<open>The type of a line\<close>

text \<open>The frame type a master or a slave-side actor writes.\<close>

fun master_type :: "('b, 't) master_actor \<Rightarrow> frame_type" where
  "master_type (RtuActor s) = rm_frameType s"
| "master_type (ClientActor s) = TCP"

fun slave_type :: "'t slave_node \<Rightarrow> frame_type" where
  "slave_type (Serial_slave_node s) = rs_frameType s"
| "slave_type (Connection_node c) = TCP"

definition line_type :: "('b, 't) live \<Rightarrow> actor_id \<Rightarrow> frame_type" where
  "line_type G a = (case map_of (lv_masters G) a of Some s \<Rightarrow> master_type s
     | None \<Rightarrow> (case lv_slaves G a of Some n \<Rightarrow> slave_type n | None \<Rightarrow> TCP))"

lemma master_step_type:
  assumes "master_step L d s e = Done (s', os)" and "convert_types L" and "tid_readback L"
  shows "master_type s' = master_type s \<and> (\<forall>b \<in> set (writes os). mb_type L b = master_type s)"
proof (cases "(L, d, s, e)" rule: master_step.cases)
  case (1 L' d' x e')
  with assms(1) RtuMaster_step_writes [OF _ assms(2)] show ?thesis by (fastforce simp: and_then_Done_iff)
next
  case (2 L' d' x e')
  with assms(1) obtain x' where "TcpClient_step L d x e' = Done (x', os)" and s': "s' = ClientActor x'"
    by (auto simp: and_then_Done_iff)
  from TcpClient_step_writes [OF this(1) assms(2,3)] have "\<forall>b \<in> set (writes os). mb_type L b = TCP"
    by (auto simp: numbers_next_def split: list.splits)
  with 2 s' show ?thesis by simp
qed (use assms(1) in simp_all)

lemma slave_step_type:
  assumes "slave_step L d n e = Done (n', os)" and "convert_types L" and "tid_readback L"
  shows "slave_type n' = slave_type n \<and> (\<forall>b \<in> set (writes os). mb_type L b = slave_type n)"
proof (cases "(L, d, n, e)" rule: slave_step.cases)
  case (1 L' d' c e')
  with assms show ?thesis
    by (cases e') (auto simp: handler_defs step_simps Let_def and_then_Done_iff convert_types_def tid_readback_def
        split: option.splits if_splits message.splits)
next
  case (2 L' d' x e')
  with assms show ?thesis
    by (cases e') (auto simp: handler_defs step_simps Let_def and_then_Done_iff convert_types_def
        split: option.splits if_splits message.splits)
qed (use assms(1) in simp_all)

text \<open>A serial slave never leaves, so that the type of a line never changes.\<close>

lemma left_connection:
  assumes "live_inv T d G" and "i < length (lv_mail G)" "lv_mail G ! i = (v, ClientDisconnectMessage c)"
  shows "\<exists>n. lv_slaves G c = Some n \<and> node_server n = Some v"
proof -
  have "watched G c" using assms(1) by (simp add: live_inv_def)
  with notices_without [OF assms(2,3), of c] show ?thesis
    by (cases "lv_slaves G c"; cases "node_server (the (lv_slaves G c))")
      (auto simp: watched_def append_eq_Cons_conv split: if_splits)
qed

lemma gateway_step_line_type:
  assumes "gateway_step L d G e = Done G'" and inv: "live_inv T d G" and "convert_types L" and "tid_readback L"
  shows "line_type G' = line_type G \<and> (\<exists>new. lv_wire G' = lv_wire G @ new \<and>
    (\<forall>(a, b) \<in> set new. mb_type L b = line_type G a))"
proof -
  have named: "named T d G" using inv by (simp add: live_inv_def)
  from assms(1) named show ?thesis
  proof (cases rule: gateway_step_cases)
    case (idle t c)
    then show ?thesis by (simp add: line_type_def fun_eq_iff split: option.split)
  next
    case (master r s ev t s' os)
    note type = master_step_type [OF master(2) assms(3,4)]
    have "line_type G' = line_type G"
      using type master(1) by (auto simp: master(3) line_type_def map_of_update fun_eq_iff split: option.split)
    moreover have "\<forall>(a, b) \<in> set (map (Pair r) (writes os)). mb_type L b = line_type G a"
      using type master(1) by (auto simp: line_type_def)
    ultimately show ?thesis by (simp add: master(3))
  next
    case (slave a n ev t R n' os)
    note type = slave_step_type [OF slave(2) assms(3,4)]
    have a: "map_of (lv_masters G) a = None"
      using named slave(1) unfolding named_def by (metis map_of_eq_None_iff)
    have "line_type G' = line_type G"
      using type slave(1) by (auto simp: slave(3) line_type_def fun_eq_iff split: option.split)
    moreover have "\<forall>(x, b) \<in> set (map (Pair a) (writes os)). mb_type L b = line_type G x"
      using type slave(1) a by (auto simp: line_type_def)
    ultimately show ?thesis by (simp add: slave(3))
  next
    case (joined v ec peer started i s')
    then show ?thesis by (auto simp: line_type_def free_id_def new_connection_def fun_eq_iff split: option.split)
  next
    case (left v i c s')
    from left_connection [OF inv left(1,2)] obtain n where "lv_slaves G c = Some n" "node_server n = Some v" by blast
    then show ?thesis by (cases n) (auto simp: left(4) line_type_def fun_eq_iff split: option.split)
  qed
qed

lemma event_loop_line_type:
  fixes L :: "('b, 'u::len word, 't::len word) modbus_lib"
  assumes "event_loop L d G0 es = Waiting G \<or> event_loop L d G0 es = Returned G"
    and "live_inv TYPE('u word) d G0" and "lv_wire G0 = []" and "convert_types L" and "tid_readback L"
  shows "line_type G = line_type G0 \<and> (\<forall>(a, b) \<in> set (lv_wire G). mb_type L b = line_type G0 a)"
proof -
  let ?P = "\<lambda>H. live_inv TYPE('u word) d H \<and> line_type H = line_type G0 \<and>
    (\<forall>(a, b) \<in> set (lv_wire H). mb_type L b = line_type G0 a)"
  have "?P G"
  proof (rule event_loop_induct [where P = ?P, OF assms(1)])
    show "?P G0" using assms(2,3) by simp
    fix H e H'
    assume H: "?P H" and step: "gateway_step L d H e = Done H'"
    from H have inv: "live_inv TYPE('u word) d H" by blast
    from gateway_step_line_type [OF step inv assms(4,5)] obtain new where "line_type H' = line_type H"
      "lv_wire H' = lv_wire H @ new" "\<forall>(a, b) \<in> set new. mb_type L b = line_type H a" by blast
    with H gateway_step_inv [OF inv step] show "?P H'" by auto
  qed
  then show ?thesis by blast
qed

subsection \<open>Counting\<close>

text \<open>What one master has waiting and in process, and how a step of it changes that.\<close>

fun waiting :: "('b, 't) master_actor \<Rightarrow> nat" where
  "waiting (RtuActor s) = length (lq_items (rm_messageQueue s))"
| "waiting (ClientActor s) = length (lq_items (tc_messageQueue s))"

fun in_process :: "('b, 't) master_actor \<Rightarrow> nat" where
  "in_process (RtuActor s) = (if rm_currentMessage s = None then 0 else 1)"
| "in_process (ClientActor s) = (if tc_currentMessage s = None then 0 else 1)"

lemma push_length: "length (lq_items (LimitQueue_Push x q)) \<le> Suc (length (lq_items q))"
  by (simp add: LimitQueue_defs Let_def)

definition balanced :: "nat \<Rightarrow> ('b, 't) master_actor \<Rightarrow> ('b, 't) master_actor \<Rightarrow> ('b, 't) effect list \<Rightarrow> bool" where
  "balanced k s s' os \<longleftrightarrow> length (writes os) + waiting s' \<le> waiting s + k \<and>
     length (sends os) + in_process s' \<le> in_process s + length (writes os)"

lemma RtuMaster_QueueProcess_balanced:
  assumes "RtuMaster_QueueProcessUnsafe L now s = Done (s', os)"
  shows "balanced 0 (RtuActor s) (RtuActor s') os"
  using assms
  by (rule RtuMaster_QueueProcess_cases) (auto simp: balanced_def rm_take_def dest: suffix_length_le)

lemma TcpClient_QueueProcess_balanced:
  assumes "TcpClient_QueueProcessUnsafe L now s = Done (s', os)"
  shows "balanced 0 (ClientActor s) (ClientActor s') os"
  using assms
  by (rule TcpClient_QueueProcess_cases) (auto simp: balanced_def tc_take_def dest: suffix_length_le)

lemma RtuMaster_step_balanced:
  assumes "RtuMaster_step L d s e = Done (s', os)"
  shows "balanced (length (rm_arrivals e)) (RtuActor s) (RtuActor s') os"
proof (cases e)
  case (Master_message now m)
  show ?thesis
  proof (cases m)
    case (ModbusMsg x)
    with assms Master_message have "RtuMaster_QueueProcessUnsafe L now
        (s\<lparr>rm_messageQueue := LimitQueue_Push x (rm_messageQueue s)\<rparr>) = Done (s', os)"
      by (simp add: RtuMaster_Receive_def RtuMaster_MessageProcess_def)
    from RtuMaster_QueueProcess_balanced [OF this] push_length [of x "rm_messageQueue s"] show ?thesis
      by (simp add: Master_message ModbusMsg balanced_def)
  qed (use assms in \<open>auto simp: Master_message RtuMaster_Receive_def balanced_def\<close>)
next
  case (Master_read exch now ec buffer sz)
  obtain r s1 where r: "RtuMaster_MakeResponse L buffer sz s = (r, s1)" by fastforce
  then have s1: "rm_messageQueue s1 = rm_messageQueue s \<and>
      (if r = None then 0 else 1) + in_process (RtuActor s1) \<le> in_process (RtuActor s)"
    by (cases rule: RtuMaster_MakeResponse_cases) auto
  show ?thesis
  proof (cases "exch \<and> ec = success")
    case True
    with assms Master_read r obtain os1 where q: "RtuMaster_QueueProcessUnsafe L now s1 = Done (s', os1)"
      and os: "os = Timer_cancel # (case r of None \<Rightarrow> []
        | Some m \<Rightarrow> [Exchange_send (GetSourceId (GetModbusMessageInfo m)) (ModbusMsg m)]) @ os1"
      by (auto simp: RtuMaster_on_read_def and_then_Done_iff Let_def)
    from RtuMaster_QueueProcess_balanced [OF q] s1 show ?thesis
      by (cases r) (simp_all add: Master_read balanced_def os)
  qed (use assms in \<open>auto simp: Master_read RtuMaster_on_read_def balanced_def split: option.splits if_splits\<close>)
qed (use assms in \<open>auto simp: handler_defs balanced_def split: option.splits\<close>)

lemma TcpClient_step_balanced:
  assumes "TcpClient_step L d s e = Done (s', os)"
  shows "balanced (length (tc_arrivals e)) (ClientActor s) (ClientActor s') os"
proof (cases e)
  case (Client_message now m)
  show ?thesis
  proof (cases m)
    case (ModbusMsg x)
    with assms Client_message have "TcpClient_QueueProcessUnsafe L now
        (s\<lparr>tc_messageQueue := LimitQueue_Push x (tc_messageQueue s)\<rparr>) = Done (s', os)"
      by (simp add: TcpClient_Receive_def TcpClient_MessageProcess_def)
    from TcpClient_QueueProcess_balanced [OF this] push_length [of x "tc_messageQueue s"] show ?thesis
      by (simp add: Client_message ModbusMsg balanced_def)
  qed (use assms in \<open>auto simp: Client_message TcpClient_Receive_def balanced_def\<close>)
next
  case (Client_connected now ec known)
  with assms TcpClient_QueueProcess_balanced [of L now "s\<lparr>tc_state := Connected\<rparr>" s' os] show ?thesis
    by (auto simp: TcpClient_on_connect_def Let_def balanced_def split: option.splits if_splits)
next
  case (Client_received exch now ec is_open buffer sz)
  with assms have "TcpClient_on_receive L exch now ec is_open buffer sz s = Done (s', os)" by simp
  then show ?thesis
  proof (cases rule: TcpClient_on_receive_cases)
    case (failed e os1)
    then show ?thesis
      by (auto simp: Client_received TcpClient_fail_def TcpClient_CloseSocket_def Let_def balanced_def split: if_splits)
  next
    case (reply r s1 os1)
    from reply(3) have s1: "tc_messageQueue s1 = tc_messageQueue s \<and>
        (if r = None then 0 else 1) + in_process (ClientActor s1) \<le> in_process (ClientActor s)"
      by (cases rule: TcpClient_MakeResponse_cases) auto
    from TcpClient_QueueProcess_balanced [OF reply(4)] s1 show ?thesis
      by (cases r) (simp_all add: Client_received balanced_def reply(5))
  qed (simp add: Client_received balanced_def)
qed (use assms in \<open>auto simp: handler_defs TcpClient_fail_def Let_def balanced_def split: option.splits if_splits\<close>)

lemma master_step_balanced:
  assumes "master_step L d s e = Done (s', os)"
  shows "balanced (length (master_arrivals e)) s s' os"
  using assms by (cases "(L, d, s, e)" rule: master_step.cases)
    (auto simp: and_then_Done_iff dest: RtuMaster_step_balanced TcpClient_step_balanced)

subsection \<open>Counting in the gateway\<close>

text \<open>The frames a group of actors wrote, the messages in transit to it, and sums over the masters.\<close>

definition frames_by :: "actor_id set \<Rightarrow> ('b, 't) live \<Rightarrow> nat" where
  "frames_by A G = length (filter (\<lambda>x. fst x \<in> A) (lv_wire G))"

definition mail_for :: "actor_id set \<Rightarrow> (actor_id \<times> ('b, 't) message) list \<Rightarrow> nat" where
  "mail_for A xs = length (filter (\<lambda>x. fst x \<in> A) (modbus_part xs))"

definition pool :: "(('b, 't) master_actor \<Rightarrow> nat) \<Rightarrow> ('b, 't) live \<Rightarrow> nat" where
  "pool f G = (\<Sum>x \<leftarrow> lv_masters G. f (snd x))"

text \<open>An event that completes a read of a frame that is passed on as a request.\<close>

definition reads_request :: "('b, 'u, 't) modbus_lib \<Rightarrow> ('b, 't) live \<Rightarrow> ('b, 't) gateway_event \<Rightarrow> bool" where
  "reads_request L G e = (case e of
     Received a now ec buffer sz \<Rightarrow> ec = success \<and> a \<in> lv_reading G \<and>
       (case mb_set_adu_size L sz buffer of None \<Rightarrow> False
        | Some b \<Rightarrow> (case lv_slaves G a of None \<Rightarrow> False
            | Some (Connection_node c) \<Rightarrow> tcp_check L b | Some (Serial_slave_node s) \<Rightarrow> mb_check L b))
   | _ \<Rightarrow> False)"

fun requests_read :: "('b, 'u::len word, 't::len word) modbus_lib \<Rightarrow> actor_id \<Rightarrow> ('b, 't word) live \<Rightarrow>
    ('b, 't word) gateway_event list \<Rightarrow> nat" where
  "requests_read L d G [] = 0"
| "requests_read L d G (e # es) = (if ctx_stopped (lv_context G) then 0
     else (if reads_request L G e then 1 else 0) +
       (case gateway_step L d G e of Done G' \<Rightarrow> requests_read L d G' es | _ \<Rightarrow> 0))"

lemma mail_for_append [simp]: "mail_for A (xs @ ys) = mail_for A xs + mail_for A ys"
  by (simp add: mail_for_def)

lemma mail_for_letters: "mail_for A (letters os) = length (filter (\<lambda>x. fst x \<in> A) (sends os))"
  by (simp add: mail_for_def modbus_part_letters)

lemma mail_for_take:
  assumes "i < length xs" and "xs ! i = (a, m)"
  shows "mail_for A (take i xs @ drop (Suc i) xs) + (if a \<in> A \<and> (\<exists>x. m = ModbusMsg x) then 1 else 0) = mail_for A xs"
proof -
  from assms have "xs = take i xs @ [(a, m)] @ drop (Suc i) xs" using id_take_nth_drop [OF assms(1)] by simp
  then have "mail_for A xs = mail_for A (take i xs) + mail_for A [(a, m)] + mail_for A (drop (Suc i) xs)"
    by (metis mail_for_append add.assoc)
  then show ?thesis by (cases m) (auto simp: mail_for_def)
qed

lemma mail_for_without: "mail_for A (lv_mail (without t G)) \<le> mail_for A (lv_mail G)"
proof (cases t)
  case (Some i)
  show ?thesis
  proof (cases "i < length (lv_mail G)")
    case True
    obtain a m where "lv_mail G ! i = (a, m)" by fastforce
    from mail_for_take [OF True this, of A] show ?thesis by (simp add: Some)
  qed (simp add: Some)
qed simp

lemma frames_by_after: "frames_by A (after_effects w os G) = frames_by A G + (if w \<in> A then length (writes os) else 0)"
  by (simp add: frames_by_def filter_map comp_def)

lemma frames_by_cong: "lv_wire G = lv_wire H \<Longrightarrow> frames_by A G = frames_by A H"
  by (simp add: frames_by_def)

lemma pool_update:
  assumes "map_of (lv_masters G) r = Some s"
  shows "pool f (H\<lparr>lv_masters := AList.update r s' (lv_masters G)\<rparr>) + f s = pool f G + f s'"
proof -
  from update_split [OF assms, of s'] obtain xs ys where
    a: "lv_masters G = xs @ (r, s) # ys" and b: "AList.update r s' (lv_masters G) = xs @ (r, s') # ys" by blast
  have "pool f (H\<lparr>lv_masters := AList.update r s' (lv_masters G)\<rparr>) = (\<Sum>x \<leftarrow> xs @ (r, s') # ys. f (snd x))"
    by (simp add: pool_def b)
  then show ?thesis by (simp add: pool_def a)
qed

lemma pool_cong: "lv_masters G = lv_masters H \<Longrightarrow> pool f G = pool f H"
  by (simp add: pool_def)

text \<open>What a slave-side actor sends and writes.\<close>

lemma node_received_counts:
  assumes "slave_step L d n (node_received n now ec buffer sz) = Done (n', os)"
  shows "writes os = [] \<and> (sends os = [] \<or> (\<exists>r m u. sends os = [(r, m)] \<and> Router_Route (slave_router n) (u :: 'u::len word) = Some r)) \<and>
    (sends os \<noteq> [] \<longrightarrow> ec = success \<and> (case mb_set_adu_size (L :: ('b, 'u word, 't::len word) modbus_lib) sz buffer of None \<Rightarrow> False
      | Some b \<Rightarrow> (case n of Connection_node c \<Rightarrow> tcp_check L b | Serial_slave_node s \<Rightarrow> mb_check L b)))"
proof (cases n)
  case (Connection_node c)
  with assms show ?thesis
    by (auto simp: node_received_def TcpConnection_defs step_simps Let_def and_then_Done_iff split: option.splits if_splits)
next
  case (Serial_slave_node s)
  with assms show ?thesis
    by (auto simp: node_received_def RtuSlave_defs step_simps Let_def and_then_Done_iff split: option.splits if_splits)
qed

lemma node_other_counts:
  assumes "slave_step L d n ev = Done (n', os)"
  shows "ev = node_written n ec \<Longrightarrow> writes os = [] \<and> sends os = []"
    and "ev = node_message n m \<Longrightarrow> sends os = [] \<and> length (writes os) \<le> (if \<exists>x. m = ModbusMsg x then 1 else 0)"
proof -
  show "writes os = [] \<and> sends os = []" if "ev = node_written n ec"
    using that assms by (cases n) (auto simp: node_written_def TcpConnection_defs RtuSlave_defs)
  show "sends os = [] \<and> length (writes os) \<le> (if \<exists>x. m = ModbusMsg x then 1 else 0)" if "ev = node_message n m"
  proof (cases n)
    case (Connection_node c)
    with that assms show ?thesis
      by (auto simp: node_message_def TcpConnection_defs step_simps Let_def split: option.splits if_splits message.splits)
  next
    case (Serial_slave_node s)
    with that assms show ?thesis
      by (auto simp: node_message_def RtuSlave_defs step_simps Let_def split: option.splits if_splits message.splits)
  qed
qed

text \<open>No master has a request of another master.\<close>

definition sourced :: "('b, 't) live \<Rightarrow> bool" where
  "sourced G \<longleftrightarrow> (\<forall>r s. map_of (lv_masters G) r = Some s \<longrightarrow>
       master_wf s \<and> (\<forall>(a, i) \<in> set (master_pipeline s). a \<notin> fst ` set (lv_masters G))) \<and>
     (\<forall>(r, m) \<in> set (modbus_part (lv_mail G)). r \<in> fst ` set (lv_masters G) \<longrightarrow>
       sourceId (modbusMessageInfo m) \<notin> fst ` set (lv_masters G))"

lemma net_sourced:
  assumes inv: "net_inv T d N" and abs: "abstracts N G"
  shows "sourced G"
proof -
  have ids: "master_ids N = fst ` set (lv_masters G)" using abs by (simp add: abstracts_def master_ids_def)
  have away: "a \<notin> master_ids N" if "(a, i) \<in># net_pending N + requests_sent N" for a i
  proof -
    have "net_pending N + requests_sent N \<subseteq># net_issued N"
      by (rule subset_mset.order_trans [OF _ net_invD(5) [OF inv]]) (simp add: add.assoc)
    with that net_invD(4) [OF inv] show ?thesis by (fastforce dest: mset_subset_eqD)
  qed
  have "master_wf s \<and> (\<forall>(a, i) \<in> set (master_pipeline s). a \<notin> master_ids N)" if s: "map_of (lv_masters G) r = Some s" for r s
  proof -
    from update_split [OF s, of s] obtain xs ys where "lv_masters G = xs @ (r, s) # ys" by blast
    with abs have N: "net_masters N = xs @ (r, s) # ys" by (simp add: abstracts_def)
    have "set (master_pipeline s) \<subseteq> set_mset (net_pending N)" by (auto simp: net_pending_def N)
    then have "a \<notin> master_ids N" if "(a, i) \<in> set (master_pipeline s)" for a i
      using that away [of a i] by auto
    with master_actor_inv(2) [OF inv N] show ?thesis by auto
  qed
  moreover have "sourceId (modbusMessageInfo m) \<notin> master_ids N"
    if "(r, m) \<in> set (modbus_part (lv_mail G))" "r \<in> master_ids N" for r m
  proof -
    from that abs have "(r, m) \<in># filter_mset (\<lambda>(r, m). r \<in> master_ids N) (net_mail N)" by (simp add: abstracts_def)
    then have "addressed (modbusMessageInfo m) \<in># requests_sent N" unfolding requests_sent_def by force
    then show ?thesis by (intro away [of _ "modbusMessageInfo m"]) (simp add: addressed_def)
  qed
  ultimately show ?thesis unfolding sourced_def ids by blast
qed

text \<open>
  Everything read is waiting, in transit to a master or on the line of a master, and every answer
  was preceded by a frame on the line of a master.
\<close>

definition balance :: "actor_id \<Rightarrow> ('b, 't) live \<Rightarrow> nat \<Rightarrow> bool" where
  "balance d G n \<longleftrightarrow> (let M = fst ` set (lv_masters G) in
     frames_by M G + mail_for M (lv_mail G) + pool waiting G \<le> n \<and>
     frames_by (- M) G + mail_for (- insert d M) (lv_mail G) + pool in_process G \<le> frames_by M G)"

lemma master_step_sends:
  assumes "master_step L d s ev = Done (s', os)" and "master_wf s"
    and "\<forall>(a, i) \<in> set (master_pipeline s). a \<notin> M" and "\<forall>(a, i) \<in> set (master_arrivals ev). a \<notin> M"
  shows "\<forall>x \<in> set (sends os). fst x \<notin> M"
proof
  fix x assume "x \<in> set (sends os)"
  then have "(fst x, modbusMessageInfo (snd x)) \<in># mset (replies os)" by (force simp: replies_sends)
  then have "(fst x, modbusMessageInfo (snd x)) \<in># mset (master_pipeline s) + mset (master_arrivals ev)"
    using master_answers [OF assms(2,1)] by (meson mset_subset_eqD mset_subset_eq_add_left)
  with assms(3,4) show "fst x \<notin> M" by auto
qed

lemma actor_message_arrivals:
  "master_arrivals (actor_message now s m) = (case m of ModbusMsg x \<Rightarrow> [addressed (modbusMessageInfo x)] | _ \<Rightarrow> [])"
  by (cases s; cases m) (simp_all add: actor_message_def)

lemma filter_none: "\<forall>x \<in> set xs. \<not> P x \<Longrightarrow> length (filter P xs) = 0"
  by simp

lemma gateway_step_balance:
  fixes L :: "('b, 'u::len word, 't::len word) modbus_lib"
  assumes "gateway_step L d G e = Done G'" and named: "named TYPE('u word) d G" and src: "sourced G" and bal: "balance d G n"
  shows "balance d G' (n + (if reads_request L G e then 1 else 0))"
proof -
  let ?M = "fst ` set (lv_masters G)"
  from bal have one: "frames_by ?M G + mail_for ?M (lv_mail G) + pool waiting G \<le> n"
    and two: "frames_by (- ?M) G + mail_for (- insert d ?M) (lv_mail G) + pool in_process G \<le> frames_by ?M G"
    by (simp_all add: balance_def Let_def)
  note less = mail_for_without [of ?M _ G] mail_for_without [of "- insert d ?M" _ G]
  have keys: "fst ` set (lv_masters G') = ?M" by (rule gateway_step_masters [OF assms(1) named])
  have quiet: "balance d G' n" if "lv_wire G' = lv_wire G" "lv_masters G' = lv_masters G"
    "lv_mail G' = lv_mail (without t G)" for t
    using one two less [of t] frames_by_cong [OF that(1), of ?M] frames_by_cong [OF that(1), of "- ?M"]
      pool_cong [OF that(2), of waiting] pool_cong [OF that(2), of in_process]
    by (simp add: balance_def Let_def keys that(3))
  have more: "balance d G' k \<Longrightarrow> k \<le> k' \<Longrightarrow> balance d G' k'" for k k' by (auto simp: balance_def Let_def)
  from assms(1) named show ?thesis
  proof (cases rule: gateway_step_cases)
    case (idle t c)
    then have "balance d G' n" by (intro quiet [of t]) simp_all
    then show ?thesis by (rule more) simp
  next
    case (joined v ec peer started i s')
    then have "balance d G' n" by (intro quiet [of None]) simp_all
    then show ?thesis by (rule more) simp
  next
    case (left v i c s')
    then have "balance d G' n" by (intro quiet [of "Some i"]) simp_all
    then show ?thesis by (rule more) simp
  next
    case (master r s ev t s' os)
    have r: "r \<in> ?M" using master(1) by (metis domI dom_map_of_conv_image_fst)
    have arrived: "mail_for ?M (lv_mail (without t G)) + length (master_arrivals ev) \<le> mail_for ?M (lv_mail G) \<and>
      (\<forall>(a, i) \<in> set (master_arrivals ev). a \<notin> ?M)"
    proof (cases t)
      case None
      with master(6) have "master_arrivals ev = []" using master_completion_local master_local_arrivals by auto
      then show ?thesis by (simp add: None)
    next
      case (Some i)
      with master(6) obtain now m where i: "i < length (lv_mail G)" "lv_mail G ! i = (r, m)" "ev = actor_message now s m" by auto
      have "sourceId (modbusMessageInfo x) \<notin> ?M" if "m = ModbusMsg x" for x
      proof -
        have "(r, x) \<in> set (modbus_part (lv_mail G))" using mail_without [OF i(1,2)] that by simp
        with src r show ?thesis unfolding sourced_def by blast
      qed
      with mail_for_take [OF i(1,2), of ?M] r show ?thesis
        by (cases m) (auto simp: Some i(3) actor_message_arrivals addressed_def)
    qed
    have "\<forall>x \<in> set (sends os). fst x \<notin> ?M"
      using master_step_sends [OF master(2), of ?M] src master(1) arrived unfolding sourced_def by blast
    then have sent: "mail_for ?M (letters os) = 0" "mail_for (- insert d ?M) (letters os) \<le> length (sends os)"
      unfolding mail_for_letters by (simp_all add: filter_none)
    let ?G = "(without t G)\<lparr>lv_masters := AList.update r s' (lv_masters G)\<rparr>"
    have frames: "frames_by ?M G' = frames_by ?M G + length (writes os)" "frames_by (- ?M) G' = frames_by (- ?M) G"
      using r frames_by_cong [of ?G G ?M] frames_by_cong [of ?G G "- ?M"] by (simp_all add: master(3) frames_by_after)
    have pools: "pool f G' + f s = pool f G + f s'" for f
      using pool_update [OF master(1), where f = f and H = "without t G" and s' = s'] pool_cong [of G' ?G f] by (simp add: master(3))
    from master_step_balanced [OF master(2)] have step: "length (writes os) + waiting s' \<le> waiting s + length (master_arrivals ev)"
      "length (sends os) + in_process s' \<le> in_process s + length (writes os)" by (simp_all add: balanced_def)
    have mail: "lv_mail G' = lv_mail (without t G) @ letters os" by (simp add: master(3))
    have "balance d G' n"
      unfolding balance_def Let_def keys mail mail_for_append frames
      using one two arrived sent step pools [of waiting] pools [of in_process] less [of t] by linarith
    then show ?thesis by (rule more) simp
  next
    case (slave a nd ev t R n' os)
    from named slave(1) have a: "a \<notin> ?M" "a \<noteq> d" "slave_router nd = lv_router G"
      and table: "routes_to_masters TYPE('u word) d ?M (lv_router G)"
      unfolding named_def table_typed_def by blast+
    let ?G = "(without t G)\<lparr>lv_reading := R, lv_slaves := (lv_slaves G)(a \<mapsto> n')\<rparr>"
    have frames: "frames_by ?M G' = frames_by ?M G" "frames_by (- ?M) G' = frames_by (- ?M) G + length (writes os)"
      using a(1) frames_by_cong [of ?G G ?M] frames_by_cong [of ?G G "- ?M"] by (simp_all add: slave(3) frames_by_after)
    have pools: "pool f G' = pool f G" for f by (rule pool_cong) (simp add: slave(3))
    have mail: "lv_mail G' = lv_mail (without t G) @ letters os" by (simp add: slave(3))
    let ?k = "if reads_request L G e then 1 else (0 :: nat)"
    have "mail_for ?M (letters os) \<le> ?k \<and> mail_for (- insert d ?M) (letters os) = 0 \<and>
      length (writes os) + mail_for (- insert d ?M) (lv_mail (without t G)) \<le> mail_for (- insert d ?M) (lv_mail G)"
    proof (cases t)
      case (Some i)
      with slave(6) obtain m where i: "i < length (lv_mail G)" "lv_mail G ! i = (a, m)" "ev = node_message nd m" by auto
      from node_other_counts(2) [OF slave(2) i(3)] mail_for_take [OF i(1,2), of "- insert d ?M"] a(1,2)
      show ?thesis unfolding mail_for_letters by (simp add: Some split: if_splits)
    next
      case None
      with slave(6) consider (read) now ec buffer sz where "ev = node_received nd now ec buffer sz"
          "e = Received a now ec buffer sz" "a \<in> lv_reading G" | (written) ec where "ev = node_written nd ec" by auto
      then show ?thesis
      proof cases
        case read
        from slave(2) have counts: "slave_step L d nd (node_received nd now ec buffer sz) = Done (n', os)" by (simp add: read(1))
        note c = node_received_counts [OF this]
        have "sends os \<noteq> [] \<longrightarrow> reads_request L G e"
          using c slave(1) read(2,3) by (auto simp: reads_request_def split: option.splits slave_node.splits)
        moreover have "r = d \<or> r \<in> ?M" if "Router_Route (lv_router G) (u :: 'u word) = Some r" for r u
          using that table unfolding routes_to_masters_def by blast
        ultimately show ?thesis using c unfolding mail_for_letters a(3) by (auto simp: None)
      next
        case written
        with node_other_counts(1) [OF slave(2)] show ?thesis unfolding mail_for_letters by (simp add: None)
      qed
    qed
    then show ?thesis
      unfolding balance_def Let_def keys mail mail_for_append frames pools
      using one two less [of t] by linarith
  qed
qed

lemma event_loop_balance:
  fixes L :: "('b, 'u::len word, 't::len word) modbus_lib"
  assumes "event_loop L d G es = Waiting G' \<or> event_loop L d G es = Returned G'" and "live_inv TYPE('u word) d G"
    and "net_inv TYPE('u word) d N" and "abstracts N G" and "balance d G n"
  shows "balance d G' (n + requests_read L d G es)"
  using assms
proof (induction es arbitrary: G N n)
  case Nil
  then show ?case by (auto split: if_splits)
next
  case (Cons e es)
  show ?case
  proof (cases "ctx_stopped (lv_context G)")
    case True
    with Cons.prems show ?thesis by auto
  next
    case False
    with Cons.prems(1) obtain G1 where step: "gateway_step L d G e = Done G1"
      and rest: "event_loop L d G1 es = Waiting G' \<or> event_loop L d G1 es = Returned G'" by (auto split: outcome.splits)
    from Cons.prems(2) have named: "named TYPE('u word) d G"
      and routes: "routes_to_masters TYPE('u word) d (fst ` set (lv_masters G)) (lv_router G)"
      unfolding live_inv_def named_def table_typed_def by blast+
    from gateway_step_simulates [OF step Cons.prems(4) routes] obtain N1 where
      N1: "rtranclp (net_step L d) N N1" "abstracts N1 G1" by blast
    from N1(1) Cons.prems(3) have "net_inv TYPE('u word) d N1"
      by (induction rule: rtranclp_induct) (auto intro: net_step_inv)
    note next_state = rest gateway_step_inv [OF Cons.prems(2) step] this N1(2)
      gateway_step_balance [OF step named net_sourced [OF Cons.prems(3,4)] Cons.prems(5)]
    from Cons.IH [OF next_state] step False show ?thesis by (simp add: add.assoc)
  qed
qed

subsection \<open>Properties\<close>

text \<open>
  C6: no amplification. Whatever completions the event loop of a started gateway handled, it has
  started to write at most as many frames to devices as it read requests from clients, and at
  most as many frames to clients as frames to devices: no request is put on a line twice and no
  answer is invented or duplicated.
\<close>

theorem Gateway_no_amplification:
  fixes g :: "('a, 'u::len word, 'b, unit, 't::len word) gateway" and L :: "('b, 'u word, 't word) modbus_lib"
  assumes "Gateway_start opens add_id d cfg = Ok g" and "ids_fresh add_id d"
    and "event_loop L d (live_of g) es = Waiting G \<or> event_loop L d (live_of g) es = Returned G"
  shows "frames_by (- fst ` set (lv_masters G)) G \<le> frames_by (fst ` set (lv_masters G)) G \<and>
    frames_by (fst ` set (lv_masters G)) G \<le> requests_read L d (live_of g) es"
proof -
  from live_of_network [OF assms(1,2), of L] obtain N where N: "net_reach L d N" "abstracts N (live_of g)" by blast
  have "waiting (gm_actor m) = 0 \<and> in_process (gm_actor m) = 0" if "m \<in> set (gw_masters g)" for m
  proof -
    from assms(1) obtain k where ms: "MakeMasters opens add_id d 0 [] (masters cfg) = Ok (gw_masters g, k)"
      by (auto simp: Gateway_start_def st_bind_Ok split: if_splits option.splits)
    with that MakeMasters_configured [OF ms] obtain j where
      "configured_master d (add_id j) (masters cfg ! j) = Some (gm_actor m)" by (simp, blast)
    from configured_new(4,5) [OF this] show ?thesis by (cases "gm_actor m") auto
  qed
  then have "balance d (live_of g) 0"
    by (simp add: balance_def frames_by_def mail_for_def pool_def live_of_def comp_def cong: map_cong)
  from event_loop_balance [OF assms(3) live_of_inv [OF assms(1,2)] net_reach_inv [OF N(1)] N(2) this]
  show ?thesis by (simp add: balance_def Let_def)
qed

theorem Gateway_no_amplification_witness:
  "\<exists>(g :: (nat, 8 word, frame, unit, 16 word) gateway) G.
     event_loop sample_lib 0 (live_of g) answered_events = Waiting G \<and> frames_by (- {1}) G = 1 \<and>
     frames_by {1} G = 1 \<and> 1 \<le> requests_read sample_lib 0 (live_of g) answered_events"
proof -
  from answered_gateway obtain g :: "(nat, 8 word, frame, unit, 16 word) gateway" and G s wire out where
    g: "Gateway_start (\<lambda>c. True) Suc 0 (one_master_config (TcpClientConfig sample_units 1 502)) = Ok g"
    and run: "event_loop sample_lib 0 (live_of g) answered_events = Waiting G"
    and G: "lv_wire G = [(1, wire), (5, out)]" "lv_masters G = [(1, ClientActor s)]" by blast
  have "frames_by (- {1}) G = 1" "frames_by {1} G = 1" by (simp_all add: frames_by_def G)
  with Gateway_no_amplification [OF g ids_fresh_Suc disjI1 [OF run]] run show ?thesis
    by (intro exI [of _ g] exI [of _ G]) (simp add: G)
qed

text \<open>
  C7: what goes over the lines. In every state the running gateway reaches, every frame it has
  written is of the type of its line (as configured for a serial line, Modbus TCP for all
  others), and the frames a TCP client has sent carry the transaction ids 1, 2, 3, ... in order,
  modulo the width of an id, over all its connections and whatever failed.
\<close>

theorem Gateway_wire_typed:
  fixes g :: "('a, 'u::len word, 'b, unit, 't::len word) gateway" and L :: "('b, 'u word, 't word) modbus_lib"
  assumes "Gateway_start opens add_id d cfg = Ok g" and "ids_fresh add_id d"
    and "event_loop L d (live_of g) es = Waiting G \<or> event_loop L d (live_of g) es = Returned G"
    and "convert_types L" and "tid_readback L"
  shows "(\<forall>(a, b) \<in> set (lv_wire G). mb_type L b = line_type (live_of g) a) \<and>
    (\<forall>r s. map_of (lv_masters G) r = Some (ClientActor s) \<longrightarrow>
      map (tcp_get_tid L) (wire_of r G) = map (\<lambda>k. of_nat (Suc k)) [0 ..< length (wire_of r G)])"
proof (intro conjI allI impI)
  note inv = live_of_inv [OF assms(1,2)]
  show "\<forall>(a, b) \<in> set (lv_wire G). mb_type L b = line_type (live_of g) a"
    using event_loop_line_type [OF assms(3) inv _ assms(4,5)] by (simp add: live_of_def)
  fix r s assume s: "map_of (lv_masters G) r = Some (ClientActor s)"
  then have "r \<in> fst ` set (lv_masters (live_of g))"
    using event_loop_masters [OF assms(3) inv] by (metis domI dom_map_of_conv_image_fst)
  then obtain s0 where s0: "map_of (lv_masters (live_of g)) r = Some s0" by (metis dom_map_of_conv_image_fst domD)
  from master_history_run [OF assms(3) inv s0] s obtain os where
    run: "run (master_step L d) s0 (master_history L d r (live_of g) es) = Done (ClientActor s, os)"
    and wire: "wire_of r G = writes os" by (auto simp: started_wire)
  show "map (tcp_get_tid L) (wire_of r G) = map (\<lambda>k. of_nat (Suc k)) [0 ..< length (wire_of r G)]"
  proof (cases s0)
    case (ClientActor c)
    from started_configured(1) [OF assms(1) s0] configured_new(4) [OF _ ClientActor]
    have "tc_transactionIdGenerator c = 0" by blast
    moreover from client_master_run [OF run [unfolded ClientActor]] obtain s' es' where
      "run (TcpClient_step L d) c es' = Done (s', os)" by blast
    ultimately show ?thesis using TcpClient_run_writes [OF _ assms(4,5)] by (simp add: wire)
  next
    case (RtuActor c)
    from serial_master_run [OF run [unfolded RtuActor]] show ?thesis by auto
  qed
qed

theorem Gateway_wire_typed_witness:
  "\<exists>(g :: (nat, 8 word, frame, unit, 16 word) gateway) G wire out.
     event_loop sample_lib 0 (live_of g) answered_events = Waiting G \<and>
     lv_wire G = [(1, wire), (5, out)] \<and> fr_tid wire = 1 \<and> fr_type out = line_type (live_of g) 5"
proof -
  from answered_gateway obtain g :: "(nat, 8 word, frame, unit, 16 word) gateway" and G s wire out where
    g: "Gateway_start (\<lambda>c. True) Suc 0 (one_master_config (TcpClientConfig sample_units 1 502)) = Ok g"
    and run: "event_loop sample_lib 0 (live_of g) answered_events = Waiting G"
    and G: "lv_wire G = [(1, wire), (5, out)]" "lv_masters G = [(1, ClientActor s)]" by blast
  note typed = Gateway_wire_typed [OF g ids_fresh_Suc disjI1 [OF run] sample_lib_lawful(2,1)]
  have "map_of (lv_masters G) 1 = Some (ClientActor s)" and "wire_of 1 G = [wire]" by (simp_all add: G wire_of_def)
  with conjunct2 [OF typed] have "map fr_tid [wire] = [1]" by fastforce
  with conjunct1 [OF typed] run G(1) show ?thesis
    by (intro exI [of _ g] exI [of _ G] exI [of _ wire] exI [of _ out]) simp
qed

end
