(* ===== verification/Undisturbed.thy ===== *)
theory Undisturbed
  imports Traffic
begin

text \<open>
  A request through the running gateway while anything else goes on: what
  \<open>Gateway_Answers\<close> shows of a transaction in which nothing else completes holds of
  every run in which the same happens to the connection and to the master, whatever other actors
  do in between (by the isolation of the two from the rest, \<open>Isolation\<close>).
\<close>

subsection \<open>A master that gets an acceptable answer\<close>

text \<open>
  An idle master that is handed the request \<open>m\<close> in time, and the completions with which a device
  answers it by the frame \<open>rp\<close>: for a TCP client one that is not connected yet.
\<close>

inductive device_answers :: "('b, 'u, 't::len word) modbus_lib \<Rightarrow> ('b, 't word) modbus_message \<Rightarrow> chrono_rep \<Rightarrow>
    ('b, 't word) master_actor \<Rightarrow> ('b, 't word) master_event list \<Rightarrow> 'b \<Rightarrow> bool" for L m now' where
  serial: "rm_currentMessage s = None \<Longrightarrow> lq_items (rm_messageQueue s) = [] \<Longrightarrow> \<not> message_expired now' (rm_timeout s) m \<Longrightarrow>
    mb_set_adu_size L rsz rbuffer = Some rp \<Longrightarrow> mb_check L rp \<Longrightarrow>
    device_answers L m now' (RtuActor s) (serial_completions t rbuffer rsz) rp"
| client: "tc_state s = Idle \<Longrightarrow> tc_currentMessage s = None \<Longrightarrow> lq_items (tc_messageQueue s) = [] \<Longrightarrow>
    \<not> message_expired t1 (tc_timeout s) m \<Longrightarrow> mb_set_adu_size L rsz rbuffer = Some rp \<Longrightarrow> tcp_check L rp \<Longrightarrow>
    tcp_get_tid L rp = tc_transactionIdGenerator s + 1 \<Longrightarrow>
    device_answers L m now' (ClientActor s) (client_completions t1 is_open t2 rbuffer rsz) rp"

fun idle_master :: "('b, 't) master_actor \<Rightarrow> bool" where
  "idle_master (RtuActor s) = (rm_currentMessage s = None \<and> lq_items (rm_messageQueue s) = [])"
| "idle_master (ClientActor s) = (tc_currentMessage s = None \<and> lq_items (tc_messageQueue s) = [])"

lemma device_answers_transaction:
  assumes "device_answers L (request_of L now rq c) now' s es rp"
    and laws: "convert_types L" "unit_id_kept L" "tid_readback L"
  obtains s1 os1 s2 os2 wire where
    "master_step L d s (actor_message now' s (ModbusMsg (request_of L now rq c))) = Done (s1, os1)" "letters os1 = []"
    and "run (master_step L d) s1 es = Done (s2, os2)" "list_all (\<lambda>e. master_completion e \<and> event_fits s e) es"
    and "letters os2 = [(conn_id c, ModbusMsg (ModbusMessage (ModbusMessageInfo now (conn_id c) (tcp_get_tid L rq)) (Some rp)))]"
    and "writes (os1 @ os2) = [wire]" "mb_type L wire = master_type s" "mb_unit_id L wire = mb_unit_id L rq" "idle_master s2"
  using assms(1)
proof cases
  case (serial s' rsz rbuffer t)
  from serial_transaction [OF serial(3-7), of d t] obtain s1 s2 where t:
    "master_step L d (RtuActor s') (actor_message now' (RtuActor s') (ModbusMsg (request_of L now rq c))) =
      Done (RtuActor s1, [Async_send (rm_frame L s' rq)])"
    "run (master_step L d) (RtuActor s1) (serial_completions t rbuffer rsz) =
      Done (RtuActor s2, [Async_wait (rm_timeout s'), Async_receive (rm_frameType s'), Timer_cancel,
        Exchange_send (conn_id c) (ModbusMsg (ModbusMessage (ModbusMessageInfo now (conn_id c) (tcp_get_tid L rq)) (Some rp)))])"
    "rm_currentMessage s2 = None" "lq_items (rm_messageQueue s2) = []" by blast
  have w: "mb_type L (rm_frame L s' rq) = rm_frameType s'" "mb_unit_id L (rm_frame L s' rq) = mb_unit_id L rq"
    using laws by (simp_all add: rm_frame_def convert_types_def unit_id_kept_def)
  show thesis
    by (rule that [unfolded serial(1,2), where wire = "rm_frame L s' rq", OF t(1) _ t(2)]) (use t(3,4) w in simp_all)
next
  case (client s' t1 rsz rbuffer is_open t2)
  from client_transaction [OF client(3-9), of d now' is_open t2] obtain s1 s2 where t:
    "master_step L d (ClientActor s') (actor_message now' (ClientActor s') (ModbusMsg (request_of L now rq c))) =
      Done (ClientActor s1, [Async_connect])"
    "run (master_step L d) (ClientActor s1) (client_completions t1 is_open t2 rbuffer rsz) =
      Done (ClientActor s2, [Async_send (tc_frame L s' rq), Async_wait (tc_timeout s'), Async_receive TCP, Timer_cancel,
        Exchange_send (conn_id c) (ModbusMsg (ModbusMessage (ModbusMessageInfo now (conn_id c) (tcp_get_tid L rq)) (Some rp)))])"
    "tc_currentMessage s2 = None" "lq_items (tc_messageQueue s2) = []" by blast
  have w: "mb_type L (tc_frame L s' rq) = TCP" "mb_unit_id L (tc_frame L s' rq) = mb_unit_id L rq"
    using laws by (simp_all add: tc_frame_def convert_types_def unit_id_kept_def tid_readback_def)
  show thesis
    by (rule that [unfolded client(1,2), where wire = "tc_frame L s' rq", OF t(1) _ t(2)]) (use t(3,4) w in simp_all)
qed

subsection \<open>From the transaction to any run\<close>

lemma wire_of_part: "part A G = part A H \<Longrightarrow> a \<in> A \<Longrightarrow> wire_of a G = wire_of a H"
proof -
  assume part: "part A G = part A H" and a: "a \<in> A"
  have own: "filter (\<lambda>x. fst x = a) (filter (\<lambda>x. fst x \<in> A) xs) = filter (\<lambda>x. fst x = a) xs"
    for xs :: "(actor_id \<times> 'c) list" using a by (auto simp: filter_filter intro: filter_cong)
  from part have "filter (\<lambda>x. fst x \<in> A) (lv_wire G) = filter (\<lambda>x. fst x \<in> A) (lv_wire H)" by (simp add: part_eq_iff)
  then show ?thesis unfolding wire_of_def by (metis own)
qed

text \<open>A transaction of a connection, and what it leaves in every run in which the same happens to the two.\<close>

lemma connection_transaction:
  fixes L :: "('b, 'u::len word, 't::len word) modbus_lib"
  assumes named: "named TYPE('u word) d G" and running: "\<not> ctx_stopped (lv_context G)"
    and laws: "tid_readback L" "convert_types L" "unit_id_kept L"
    and conn: "lv_slaves G a = Some (Connection_node c)" "a \<in> lv_reading G"
    and request: "mb_set_adu_size L sz buffer = Some rq" "tcp_check L rq" "Router_Route (lv_router G) (mb_unit_id L rq) = Some r"
    and master: "map_of (lv_masters G) r = Some s" "device_answers L (request_of L now rq c) now' s completions rp"
  shows "\<exists>G' s' wire. event_loop L d G (transaction a r (length (lv_mail G)) now buffer sz now' completions now'') = Waiting G' \<and>
    local_trace L d {a, r} G (transaction a r (length (lv_mail G)) now buffer sz now' completions now'') =
      exchange_trace a r now buffer sz now' (request_of L now rq c) completions now''
        (ModbusMessage (ModbusMessageInfo now a (tcp_get_tid L rq)) (Some rp)) \<and>
    wire_of r G' = wire_of r G @ [wire] \<and> wire_of a G' = wire_of a G @ [answer_frame L rq rp] \<and>
    mb_type L wire = master_type s \<and> mb_unit_id L wire = mb_unit_id L rq \<and>
    lv_slaves G' a = Some (Connection_node (c\<lparr>conn_requestInfo := None\<rparr>)) \<and> a \<in> lv_reading G' \<and>
    map_of (lv_masters G') r = Some s' \<and> idle_master s'"
proof -
  from named conn(1) have id: "conn_id c = a" unfolding named_def by (metis slave_id.simps(1))
  have ne: "a \<noteq> r" using named conn(1) master(1) unfolding named_def by (metis domI dom_map_of_conv_image_fst)
  from device_answers_transaction [OF master(2) laws(2,3,1), of d]
  obtain s1 os1 s2 os2 wire where
    accept: "master_step L d s (actor_message now' s (ModbusMsg (request_of L now rq c))) = Done (s1, os1)" "letters os1 = []"
    and completes: "run (master_step L d) s1 completions = Done (s2, os2)"
      "list_all (\<lambda>e. master_completion e \<and> event_fits s e) completions"
    and reply: "letters os2 = [(a, ModbusMsg (ModbusMessage (ModbusMessageInfo now a (tcp_get_tid L rq)) (Some rp)))]"
    and wire: "writes (os1 @ os2) = [wire]" "mb_type L wire = master_type s" "mb_unit_id L wire = mb_unit_id L rq" "idle_master s2"
    unfolding id by blast
  from loop_transaction [OF named running conn request master(1) accept completes reply, of now''] obtain G' where
    G': "event_loop L d G (transaction a r (length (lv_mail G)) now buffer sz now' completions now'') = Waiting G'"
    "lv_wire G' = lv_wire G @ map (Pair r) (writes (os1 @ os2)) @ [(a, answer_frame L rq rp)]"
    "lv_masters G' = AList.update r s2 (lv_masters G)"
    "lv_slaves G' = (lv_slaves G)(a \<mapsto> Connection_node (c\<lparr>conn_requestInfo := None\<rparr>))" "a \<in> lv_reading G'"
    "local_trace L d {a, r} G (transaction a r (length (lv_mail G)) now buffer sz now' completions now'') =
      exchange_trace a r now buffer sz now' (request_of L now rq c) completions now''
        (ModbusMessage (ModbusMessageInfo now a (tcp_get_tid L rq)) (Some rp))" by blast
  have "wire_of r G' = wire_of r G @ [wire]" "wire_of a G' = wire_of a G @ [answer_frame L rq rp]"
    using ne unfolding wire_of_def G'(2) wire(1) by auto
  with G' wire show ?thesis
    by (intro exI [of _ G'] exI [of _ s2] exI [of _ wire]) (simp add: map_of_update)
qed

subsection \<open>Properties\<close>

text \<open>
  C8: answered while anything else goes on. In every state the running gateway reaches, take a
  connection that waits for a read, and a request for an idle master (of either kind; a TCP client not
  connected) that is in time and whose answer is acceptable. In every run from there in which exactly
  this happens to the two, namely the connection reads the request, the master is
  handed it and its operations complete with the answer, and the connection is handed the reply, while
  any number of other clients, requests, masters, accepts and removals come in between in any
  order: exactly one frame goes out on the master's line, of its type and for the same unit, and
  exactly one to that client, with the transaction id of its request and the unit id of the answer; in the
  end the connection reads and has no open request, and the master is idle.
\<close>

theorem Gateway_answers_undisturbed:
  fixes g :: "('a, 'u::len word, 'b, unit, 't::len word) gateway" and L :: "('b, 'u word, 't word) modbus_lib"
  assumes "Gateway_start opens add_id d cfg = Ok g" and "ids_fresh add_id d"
    and "event_loop L d (live_of g) es = Waiting G"
    and "tid_readback L" and "convert_types L" and "unit_id_kept L"
    and "lv_slaves G a = Some (Connection_node c)" and "a \<in> lv_reading G"
    and "mb_set_adu_size L sz buffer = Some rq" and "tcp_check L rq"
    and "Router_Route (gw_router g) (mb_unit_id L rq) = Some r"
    and "map_of (lv_masters G) r = Some s" and "device_answers L (request_of L now rq c) now' s completions rp"
    and "event_loop L d G fs = Waiting H \<or> event_loop L d G fs = Returned H"
    and "local_trace L d {a, r} G fs = exchange_trace a r now buffer sz now' (request_of L now rq c) completions now''
      (ModbusMessage (ModbusMessageInfo now a (tcp_get_tid L rq)) (Some rp))"
  shows "\<exists>wire out s'. wire_of r H = wire_of r G @ [wire] \<and> wire_of a H = wire_of a G @ [out] \<and>
    mb_type L wire = master_type s \<and> mb_unit_id L wire = mb_unit_id L rq \<and>
    mb_type L out = TCP \<and> tcp_get_tid L out = tcp_get_tid L rq \<and> mb_unit_id L out = mb_unit_id L rp \<and>
    lv_slaves H a = Some (Connection_node (c\<lparr>conn_requestInfo := None\<rparr>)) \<and> a \<in> lv_reading H \<and>
    map_of (lv_masters H) r = Some s' \<and> idle_master s'"
proof -
  note reached = reached_connection [OF assms(1-3,7)]
  from assms(11) reached(3) have route: "Router_Route (lv_router G) (mb_unit_id L rq) = Some r" by simp
  from connection_transaction [OF reached(1) event_loop_waiting [OF assms(3)] assms(4-10) route assms(12,13), of now'']
  obtain G' s' wire where
    loop: "event_loop L d G (transaction a r (length (lv_mail G)) now buffer sz now' completions now'') = Waiting G'"
    and trace: "local_trace L d {a, r} G (transaction a r (length (lv_mail G)) now buffer sz now' completions now'') =
      local_trace L d {a, r} G fs"
    and G': "wire_of r G' = wire_of r G @ [wire]" "wire_of a G' = wire_of a G @ [answer_frame L rq rp]"
      "mb_type L wire = master_type s" "mb_unit_id L wire = mb_unit_id L rq"
      "lv_slaves G' a = Some (Connection_node (c\<lparr>conn_requestInfo := None\<rparr>))" "a \<in> lv_reading G'"
      "map_of (lv_masters G') r = Some s'" "idle_master s'" unfolding assms(15) by blast
  have part: "part {a, r} H = part {a, r} G'"
    using local_run_trace [OF disjI1 [OF loop], of "{a, r}"] local_run_trace [OF assms(14), of "{a, r}"] trace by simp
  note same = part_lookup [OF part] wire_of_part [OF part]
  show ?thesis
    using G' same(3,4,5) [of a] same(1,5) [of r]
    by (intro exI [of _ wire] exI [of _ "answer_frame L rq rp"] exI [of _ s']) (simp add: answer_frame_laws [OF assms(4-6)])
qed

text \<open>The witness: a second client connects before the request of the first is read.\<close>

theorem Gateway_answers_undisturbed_witness:
  "\<exists>(g :: (nat, 8 word, frame, unit, 16 word) gateway) G H wire out.
     event_loop sample_lib 0 (live_of g) [Accepted 2 None True True 5] = Waiting G \<and>
     event_loop sample_lib 0 G (Accepted 2 None True True 6 #
       transaction 5 1 0 0 (sample_frame TCP 1 7) 9 0 (client_completions 0 True 0 (sample_frame TCP 1 1) 9) 0) = Waiting H \<and>
     wire_of 1 H = wire_of 1 G @ [wire] \<and> wire_of 5 H = wire_of 5 G @ [out] \<and> fr_type wire = TCP \<and> fr_tid out = 7"
proof -
  let ?s = "TcpClient_SetId 1 (ModbusTcpClient 0 1000) :: (frame, 16 word) tcp_client"
    and ?c = "TcpClientConfig sample_units 1 502 :: (nat, 8 word) transport_config"
  have "MakeMasters (\<lambda>c. True) Suc 0 0 [] [?c] = Ok ([\<lparr>gm_config = ?c, gm_actor = ClientActor ?s\<rparr>], 1)"
    by (simp add: insert_master_def Let_def)
  from one_master [OF this] obtain g :: "(nat, 8 word, frame, unit, 16 word) gateway" where
    g: "Gateway_start (\<lambda>c. True) Suc 0 (one_master_config ?c) = Ok g"
    and live: "lv_masters (live_of g) = [(1, ClientActor ?s)]" "lv_servers (live_of g) = [(2, \<lparr>srv_id = 2, srv_clientDb = []\<rparr>)]"
      "lv_slaves (live_of g) = Map.empty" "lv_reading (live_of g) = {}" "lv_context (live_of g) = SignalSet_start"
    and more: "Router_Route (gw_router g) (1 :: 8 word) = Some 1" "lv_mail (live_of g) = []" "lv_wire (live_of g) = []"
    by (auto simp: master_GetId_def TcpClient_GetId_def TcpClient_SetId_def as_MasterConfig_def)
  note run = run_accept [OF live, of sample_lib]
  let ?G = "(live_of g)\<lparr>lv_servers := [(2, \<lparr>srv_id = 2, srv_clientDb = [(5, ())]\<rparr>)],
     lv_slaves := [5 \<mapsto> new_connection 0 2 (lv_router (live_of g)) 5], lv_reading := {5}\<rparr>"
  let ?H = "?G\<lparr>lv_servers := [(2, \<lparr>srv_id = 2, srv_clientDb = [(5, ()), (6, ())]\<rparr>)],
     lv_slaves := (lv_slaves ?G)(6 \<mapsto> new_connection 0 2 (lv_router (live_of g)) 6), lv_reading := {6, 5}\<rparr>"
  let ?conn = "TcpConnection_SetId 5 (ModbusTcpConnection 0 2 (lv_router (live_of g))) :: 16 word tcp_connection"
  let ?rq = "(sample_frame TCP 1 7)\<lparr>fr_size := 9\<rparr>" and ?rp = "(sample_frame TCP 1 1)\<lparr>fr_size := 9\<rparr>"
  let ?es = "client_completions 0 True 0 (sample_frame TCP 1 1) 9 :: (frame, 16 word) master_event list"
  let ?tr = "transaction 5 1 0 0 (sample_frame TCP 1 7) 9 0 ?es 0"
  have second: "gateway_step sample_lib 0 ?G (Accepted 2 None True True 6) = Done ?H"
    using live by (simp add: free_id_def server_acts_live_def TcpServer_defs Let_def)
  have up: "\<not> ctx_stopped (lv_context ?G)" "\<not> ctx_stopped (lv_context ?H)" using live(5) by (simp_all add: SignalSet_start_def)
  have run2: "event_loop sample_lib 0 (live_of g) ([Accepted 2 None True True 5] @ [Accepted 2 None True True 6]) = Waiting ?H"
    unfolding event_loop_append [OF run] using second up by simp
  have conn: "lv_slaves ?G 5 = Some (Connection_node ?conn)" "5 \<in> lv_reading ?G"
    "lv_slaves ?H 5 = Some (Connection_node ?conn)" "5 \<in> lv_reading ?H" by (simp_all add: new_connection_def)
  have request: "mb_set_adu_size sample_lib 9 (sample_frame TCP 1 7) = Some ?rq" "tcp_check sample_lib ?rq"
    "Router_Route (gw_router g) (mb_unit_id sample_lib ?rq) = Some 1" using more by simp_all
  have master: "map_of (lv_masters ?G) 1 = Some (ClientActor ?s)" "map_of (lv_masters ?H) 1 = Some (ClientActor ?s)"
    using live(1) by simp_all
  have device: "device_answers sample_lib (request_of sample_lib 0 ?rq ?conn) 0 (ClientActor ?s) ?es ?rp"
    using request_of_fresh [of sample_lib ?rq ?conn]
    by (intro device_answers.client) (simp_all add: ModbusTcpClient_def TcpClient_SetId_def LimitQueue_default_def)
  note reached = reached_node [OF g ids_fresh_Suc run2 conn(3)]
  have route: "Router_Route (lv_router ?H) (mb_unit_id sample_lib ?rq) = Some 1" using request(3) by (simp add: live_of_def)
  have mail: "length (lv_mail ?H) = 0" using more(2) by simp
  from connection_transaction [OF reached(1) up(2) sample_lib_lawful conn(3,4) request(1,2) route master(2) device, of 0, unfolded mail]
  obtain H where loop: "event_loop sample_lib 0 ?H ?tr = Waiting H"
    and trace: "local_trace sample_lib 0 {5, 1} ?H ?tr = exchange_trace 5 1 0 (sample_frame TCP 1 7) 9 0
      (request_of sample_lib 0 ?rq ?conn) ?es 0 (ModbusMessage (ModbusMessageInfo 0 5 (tcp_get_tid sample_lib ?rq)) (Some ?rp))"
    by blast
  have all: "event_loop sample_lib 0 ?G (Accepted 2 None True True 6 # ?tr) = Waiting H"
    using second up loop by (simp del: gateway_step.simps)
  have "local_trace sample_lib 0 {5, 1} ?G (Accepted 2 None True True 6 # ?tr) = local_trace sample_lib 0 {5, 1} ?H ?tr"
    using second up by (simp del: gateway_step.simps)
  from Gateway_answers_undisturbed [OF g ids_fresh_Suc run sample_lib_lawful conn(1,2) request master(1) device
      disjI1 [OF all] this [unfolded trace]]
  obtain wire out where "wire_of 1 H = wire_of 1 ?G @ [wire]" "wire_of 5 H = wire_of 5 ?G @ [out]"
    "fr_type wire = TCP" "fr_tid out = 7" by auto
  with run all show ?thesis by blast
qed

end
