(* ===== verification/Validators.thy ===== *)
theory Validators
  imports Gateway_Config
begin

text \<open>
  The validators of the two sections of a configuration (\<^verbatim>\<open>validators.cpp\<close>).
  The file is in the repository but its line in the build file is commented out, and it reads the
  configuration objects through accessors that have since become public members; the model reads
  the members. The type test of the old class hierarchy, the rendering of addresses and unit ids
  and the limits of the frame library are the fields of a record.
\<close>

record ('a, 'u) validator_lib =
  type_is_TCP :: "('a, 'u) transport_config \<Rightarrow> bool"
  address_v4_any :: 'a
  address_to_string :: "'a \<Rightarrow> string"
  show_unit_id :: "'u \<Rightarrow> string"
  modbus_unitIdMin :: 'u
  modbus_unitIdMax :: 'u

text \<open>\<^verbatim>\<open>std::map<port_type, AddressSet>\<close>\<close>

type_synonym 'a endpoints = "16 word \<Rightarrow> 'a list option"

subsection \<open>Servers\<close>

text \<open>The body of the loop; a port whose address list is empty is bound to the any address.\<close>

definition ValidateServer :: "('a, 'u) validator_lib \<Rightarrow> string \<Rightarrow> ('a, 'u) transport_config \<Rightarrow>
    'a endpoints \<Rightarrow> 'a endpoints parser" where
  "ValidateServer V tdServer server tcpServerEnpoints =
     (if type_is_TCP V server then
        (case server of
           TcpServerConfig address port \<Rightarrow>
             (case tcpServerEnpoints port of
                None \<Rightarrow> if address = address_v4_any V then pret (tcpServerEnpoints(port \<mapsto> []))
                        else pret (tcpServerEnpoints(port \<mapsto> [address]))
              | Some addressSet \<Rightarrow>
                  if address = address_v4_any V
                  then throw_InvalidValue tdServer ''any ip address intersected with ip address on other server''
                  else if addressSet = []
                  then throw_InvalidValue tdServer (''ip address '' @ address_to_string V address @
                         '' intersected with any address on other server'')
                  else if List.member addressSet address
                  then throw_InvalidValue tdServer (''ip address '' @ address_to_string V address @
                         '' intersected with ip address '' @ address_to_string V address @ '' on other server'')
                  else pret (tcpServerEnpoints(port \<mapsto> addressSet @ [address])))
         | _ \<Rightarrow> praise (RuntimeError ''cast to TcpServerConfig failed''))
      else praise (LogicError ''unknown server type''))"

text \<open>The loop; \<^verbatim>\<open>index\<close> is declared before it and never incremented.\<close>

fun ValidateServers_loop :: "('a, 'u) validator_lib \<Rightarrow> nat \<Rightarrow> ('a, 'u) transport_config list \<Rightarrow>
    'a endpoints \<Rightarrow> unit parser" where
  "ValidateServers_loop V index [] tcpServerEnpoints = pret ()"
| "ValidateServers_loop V index (server # servers) tcpServerEnpoints =
     pbind (with_trace (to_string index) (\<lambda>tdServer. ValidateServer V tdServer server tcpServerEnpoints))
       (ValidateServers_loop V index servers)"

definition ValidateServers :: "('a, 'u) validator_lib \<Rightarrow> ('a, 'u) transport_config list \<Rightarrow> unit parser" where
  "ValidateServers V servers = with_trace ''servers'' (\<lambda>td. ValidateServers_loop V 0 servers (\<lambda>p. None))"

subsection \<open>The set of unit id ranges\<close>

definition UnitIdRangeComparator :: "'u::linorder unit_id_range \<Rightarrow> 'u unit_id_range \<Rightarrow> bool" where
  "UnitIdRangeComparator lhs rhs \<longleftrightarrow> range_end lhs < range_begin rhs"

text \<open>
  \<^verbatim>\<open>std::set::insert\<close> under a comparator: the element goes before the first one it
  is less than, unless an element is equivalent to it.
\<close>

fun set_insert :: "('r \<Rightarrow> 'r \<Rightarrow> bool) \<Rightarrow> 'r \<Rightarrow> 'r list \<Rightarrow> 'r list \<times> bool" where
  "set_insert cmp r [] = ([r], True)"
| "set_insert cmp r (x # xs) =
     (if cmp r x then (r # x # xs, True)
      else if cmp x r then (case set_insert cmp r xs of (xs', ok) \<Rightarrow> (x # xs', ok))
      else (x # xs, False))"

record 'u unit_id_range_validator =
  v_unitIdSet :: "'u unit_id_range list"
  v_defaultUnitIdsClient :: bool
  v_unitIdCounter :: 'u

definition UnitIdRangeValidator_default :: "'u::len word unit_id_range_validator" where
  "UnitIdRangeValidator_default =
     \<lparr>v_unitIdSet = [], v_defaultUnitIdsClient = False, v_unitIdCounter = 0\<rparr>"

text \<open>What one range adds to the counter.\<close>

definition range_weight :: "'u::len word unit_id_range \<Rightarrow> 'u word" where
  "range_weight r = (if range_begin r = range_end r then 1 else range_end r - range_begin r)"

fun Insert_ranges :: "('a, 'u::len word) validator_lib \<Rightarrow> string \<Rightarrow> 'u word unit_id_range list \<Rightarrow>
    'u word unit_id_range_validator \<Rightarrow> 'u word unit_id_range_validator parser" where
  "Insert_ranges V td [] v = pret v"
| "Insert_ranges V td (r # rs) v =
     (case set_insert UnitIdRangeComparator r (v_unitIdSet v) of (s, inserted) \<Rightarrow>
        if \<not> inserted
        then throw_InvalidValue td (''unit id range '' @ show_unit_id V (range_begin r) @ ''-'' @
               show_unit_id V (range_end r) @ '' intersected with unit id range on other client'')
        else Insert_ranges V td rs
               (v\<lparr>v_unitIdSet := s, v_unitIdCounter := v_unitIdCounter v + range_weight r\<rparr>))"

definition UnitIdRangeValidator_Insert :: "('a, 'u::len word) validator_lib \<Rightarrow> string \<Rightarrow>
    'u word unit_id_range list \<Rightarrow> 'u word unit_id_range_validator \<Rightarrow>
    'u word unit_id_range_validator parser" where
  "UnitIdRangeValidator_Insert V td unitIdRanges v =
     (if unitIdRanges = [] \<and> v_defaultUnitIdsClient v
      then throw_InvalidValue td ''default unit id range already exist on other client''
      else Insert_ranges V td unitIdRanges
             (if unitIdRanges = [] then v\<lparr>v_defaultUnitIdsClient := True\<rparr> else v))"

text \<open>
  The comparison of the counter with the difference of the limits; a unit id is narrower than
  \<^verbatim>\<open>int\<close>, to which both sides are promoted.
\<close>

definition CheckCoverage :: "('a, 'u::len word) validator_lib \<Rightarrow> string \<Rightarrow>
    'u word unit_id_range_validator \<Rightarrow> unit parser" where
  "CheckCoverage V td v =
     (if uint (v_unitIdCounter v) < uint (modbus_unitIdMax V) - uint (modbus_unitIdMin V) \<and>
         \<not> v_defaultUnitIdsClient v
      then throw_InvalidValue td (''unit id for all clients not coverage all supported unit id ('' @
             show_unit_id V (modbus_unitIdMin V) @ ''-'' @ show_unit_id V (modbus_unitIdMax V) @
             ''), set default client'')
      else pret ())"

subsection \<open>Clients\<close>

definition ValidateClient :: "('a, 'u::len word) validator_lib \<Rightarrow> string \<Rightarrow> ('a, 'u word) transport_config \<Rightarrow>
    'a endpoints \<times> 'u word unit_id_range_validator \<Rightarrow>
    ('a endpoints \<times> 'u word unit_id_range_validator) parser" where
  "ValidateClient V tdClient client st = (case st of (tcpClientEnpoints, v) \<Rightarrow>
     if type_is_TCP V client then
       (case client of
          TcpClientConfig m address port \<Rightarrow>
            if address = address_v4_any V
            then throw_InvalidValue tdClient ''any ip address don't allow for client''
            else (case tcpClientEnpoints port of
                None \<Rightarrow>
                  pbind (UnitIdRangeValidator_Insert V tdClient (unitIdSet m) v) (\<lambda>v'.
                  pret (tcpClientEnpoints(port \<mapsto> [address]), v'))
              | Some addressSet \<Rightarrow>
                  if List.member addressSet address
                  then throw_InvalidValue tdClient (''ip address '' @ address_to_string V address @
                         '' intersected with ip address '' @ address_to_string V address @ '' on other client'')
                  else pbind (UnitIdRangeValidator_Insert V tdClient (unitIdSet m) v) (\<lambda>v'.
                       pret (tcpClientEnpoints(port \<mapsto> addressSet @ [address]), v')))
        | _ \<Rightarrow> praise (RuntimeError ''cast to TcpClientConfig failed''))
     else praise (LogicError ''unknown server type''))"

fun ValidateClients_loop :: "('a, 'u::len word) validator_lib \<Rightarrow> nat \<Rightarrow> ('a, 'u word) transport_config list \<Rightarrow>
    'a endpoints \<times> 'u word unit_id_range_validator \<Rightarrow>
    ('a endpoints \<times> 'u word unit_id_range_validator) parser" where
  "ValidateClients_loop V index [] st = pret st"
| "ValidateClients_loop V index (client # clients) st =
     pbind (with_trace (to_string index) (\<lambda>tdClient. ValidateClient V tdClient client st))
       (ValidateClients_loop V index clients)"

definition ValidateClients :: "('a, 'u::len word) validator_lib \<Rightarrow> ('a, 'u word) transport_config list \<Rightarrow>
    unit parser" where
  "ValidateClients V clients = with_trace ''clients'' (\<lambda>td.
     pbind (ValidateClients_loop V 0 clients (\<lambda>p. None, UnitIdRangeValidator_default)) (\<lambda>st.
     CheckCoverage V td (snd st)))"

subsection \<open>The set against interval arithmetic\<close>

text \<open>Two ranges meet when some unit id lies in both.\<close>

definition units_of :: "'u::linorder unit_id_range \<Rightarrow> 'u set" where
  "units_of r = {range_begin r .. range_end r}"

definition range_ordered :: "'u::linorder unit_id_range \<Rightarrow> bool" where
  "range_ordered r \<longleftrightarrow> range_begin r \<le> range_end r"

definition disjoint_from :: "'u::linorder unit_id_range \<Rightarrow> 'u unit_id_range list \<Rightarrow> bool" where
  "disjoint_from r xs \<longleftrightarrow> (\<forall>x \<in> set xs. units_of r \<inter> units_of x = {})"

definition set_invariant :: "'u::linorder unit_id_range list \<Rightarrow> bool" where
  "set_invariant xs \<longleftrightarrow> list_all range_ordered xs \<and> sorted_wrt UnitIdRangeComparator xs"

lemma units_disjoint_iff:
  assumes "range_ordered r" and "range_ordered x"
  shows "units_of r \<inter> units_of x = {} \<longleftrightarrow> UnitIdRangeComparator r x \<or> UnitIdRangeComparator x r"
  using assms
  by (auto simp: units_of_def range_ordered_def UnitIdRangeComparator_def Int_atLeastAtMost)

lemma comparator_trans:
  "UnitIdRangeComparator r x \<Longrightarrow> range_ordered x \<Longrightarrow> UnitIdRangeComparator x y \<Longrightarrow> UnitIdRangeComparator r y"
  by (auto simp: range_ordered_def UnitIdRangeComparator_def)

lemma set_insert_spec:
  assumes "set_invariant xs" and "range_ordered r"
  shows "(snd (set_insert UnitIdRangeComparator r xs) \<longleftrightarrow> disjoint_from r xs) \<and>
    set_invariant (fst (set_insert UnitIdRangeComparator r xs)) \<and>
    set (fst (set_insert UnitIdRangeComparator r xs)) = (if disjoint_from r xs then insert r (set xs) else set xs)"
  using assms(1)
proof (induction xs)
  case Nil
  with assms(2) show ?case by (simp add: set_invariant_def disjoint_from_def)
next
  case (Cons x xs)
  let ?c = UnitIdRangeComparator
  from Cons.prems have x: "range_ordered x" and xs: "set_invariant xs" and above: "\<forall>y \<in> set xs. ?c x y"
    by (auto simp: set_invariant_def)
  then have all: "\<forall>y \<in> set xs. range_ordered y" by (auto simp: set_invariant_def list_all_iff)
  note meets = units_disjoint_iff [OF assms(2)]
  consider "?c r x" | "\<not> ?c r x" "?c x r" | "\<not> ?c r x" "\<not> ?c x r" by blast
  then show ?case
  proof cases
    case 1
    with above x have "\<forall>y \<in> set xs. ?c r y" by (blast intro: comparator_trans)
    with 1 x all assms(2) Cons.prems show ?thesis
      by (auto simp: set_invariant_def disjoint_from_def meets)
  next
    case 2
    obtain xs' ok where "set_insert ?c r xs = (xs', ok)" by fastforce
    with 2 x above Cons.IH [OF xs] show ?thesis
      by (auto simp: set_invariant_def disjoint_from_def meets)
  next
    case 3
    with Cons.prems x show ?thesis by (auto simp: disjoint_from_def meets)
  qed
qed

subsection \<open>Servers against pairwise conflicts\<close>

text \<open>Two endpoints conflict on the same port when the addresses agree or one of them is the any address.\<close>

definition endpoint_conflict :: "'a \<Rightarrow> 'a \<times> 16 word \<Rightarrow> 'a \<times> 16 word \<Rightarrow> bool" where
  "endpoint_conflict any x y \<longleftrightarrow> snd x = snd y \<and> (fst x = any \<or> fst y = any \<or> fst x = fst y)"

definition server_endpoint :: "('a, 'u) transport_config \<Rightarrow> ('a \<times> 16 word) option" where
  "server_endpoint c = (case c of TcpServerConfig a p \<Rightarrow> Some (a, p) | _ \<Rightarrow> None)"

definition is_tcp_server :: "('a, 'u) validator_lib \<Rightarrow> ('a, 'u) transport_config \<Rightarrow> bool" where
  "is_tcp_server V c \<longleftrightarrow> type_is_TCP V c \<and> server_endpoint c \<noteq> None"

text \<open>What the map of address lists says of the endpoints that were accepted.\<close>

definition server_map_of :: "'a \<Rightarrow> ('a \<times> 16 word) set \<Rightarrow> 'a endpoints \<Rightarrow> bool" where
  "server_map_of any es eps \<longleftrightarrow> (\<forall>p. case eps p of
     None \<Rightarrow> {a. (a, p) \<in> es} = {}
   | Some as \<Rightarrow> if as = [] then {a. (a, p) \<in> es} = {any}
                else any \<notin> set as \<and> {a. (a, p) \<in> es} = set as)"

lemma server_map_ofD:
  assumes "server_map_of any es eps"
  shows "eps p = None \<Longrightarrow> (a, p) \<notin> es"
    and "eps p = Some [] \<Longrightarrow> (a, p) \<in> es \<longleftrightarrow> a = any"
    and "eps p = Some as \<Longrightarrow> as \<noteq> [] \<Longrightarrow> any \<notin> set as \<and> ((a, p) \<in> es \<longleftrightarrow> a \<in> set as)"
  using spec [OF assms [unfolded server_map_of_def], of p] by (auto split: if_splits)

lemma server_map_of_update:
  assumes "server_map_of any es eps"
    and "if as = [] then {b. (b, p) \<in> insert (a, p) es} = {any}
         else any \<notin> set as \<and> {b. (b, p) \<in> insert (a, p) es} = set as"
  shows "server_map_of any (insert (a, p) es) (eps(p \<mapsto> as))"
  unfolding server_map_of_def
proof
  fix q
  show "case (eps(p \<mapsto> as)) q of None \<Rightarrow> {b. (b, q) \<in> insert (a, p) es} = {}
    | Some as \<Rightarrow> if as = [] then {b. (b, q) \<in> insert (a, p) es} = {any}
        else any \<notin> set as \<and> {b. (b, q) \<in> insert (a, p) es} = set as"
    using assms(2) spec [OF assms(1) [unfolded server_map_of_def], of q]
    by (cases "q = p") (auto split: option.splits)
qed

lemma ValidateServer_step:
  assumes "server_map_of (address_v4_any V) es eps"
  shows "snd (ValidateServer V td c eps path) = path \<and>
    (case fst (ValidateServer V td c eps path) of
       Inl e \<Rightarrow> \<not> (is_tcp_server V c \<and> (\<forall>e \<in> es. \<not> endpoint_conflict (address_v4_any V) (the (server_endpoint c)) e)) \<and>
         (\<forall>b. parser_base e = Some b \<longrightarrow> b = ParserException path td)
     | Inr eps' \<Rightarrow> is_tcp_server V c \<and>
         (\<forall>e \<in> es. \<not> endpoint_conflict (address_v4_any V) (the (server_endpoint c)) e) \<and>
         server_map_of (address_v4_any V) (insert (the (server_endpoint c)) es) eps')"
proof (cases "is_tcp_server V c")
  case False
  then show ?thesis
    by (auto simp: ValidateServer_def is_tcp_server_def server_endpoint_def praise_def parser_base_def
        split: transport_config.split)
next
  case True
  then obtain a p where c: "c = TcpServerConfig a p" and t: "type_is_TCP V c"
    by (auto simp: is_tcp_server_def server_endpoint_def split: transport_config.splits)
  let ?any = "address_v4_any V"
  note D = server_map_ofD [OF assms, of p]
  note defs = ValidateServer_def c server_endpoint_def endpoint_conflict_def pret_def
    throw_InvalidValue_def praise_def parser_base_def
  note up = server_map_of_update [OF assms]
  consider "eps p = None" | "eps p = Some []" | as where "eps p = Some as" "as \<noteq> []"
    by (cases "eps p") auto
  then show ?thesis
  proof cases
    case 1
    then have "{b. (b, p) \<in> es} = {}" using D(1) by blast
    with 1 t True show ?thesis
      using up [of "[]" p a] up [of "[a]" p a] by (auto simp: defs)
  next
    case 2
    then have "(?any, p) \<in> es" using D(2) by blast
    then have "\<exists>e \<in> es. p = snd e \<and> fst e = ?any" by force
    with 2 t True show ?thesis by (auto simp: defs)
  next
    case 3
    then have "{b. (b, p) \<in> es} = set as" and "?any \<notin> set as" using D(3) by blast+
    then have free: "(\<forall>e \<in> es. \<not> endpoint_conflict ?any (a, p) e) \<longleftrightarrow> a \<noteq> ?any \<and> a \<notin> set as"
    proof -
      have "(\<forall>e \<in> es. \<not> endpoint_conflict ?any (a, p) e) \<longleftrightarrow>
          (\<forall>b. (b, p) \<in> es \<longrightarrow> a \<noteq> ?any \<and> b \<noteq> ?any \<and> a \<noteq> b)"
        by (auto simp: endpoint_conflict_def)
      also have "\<dots> \<longleftrightarrow> (\<forall>b \<in> set as. a \<noteq> ?any \<and> b \<noteq> ?any \<and> a \<noteq> b)"
        using D(3) [OF 3] by blast
      also have "\<dots> \<longleftrightarrow> a \<noteq> ?any \<and> a \<notin> set as"
        using 3(2) \<open>?any \<notin> set as\<close> by (cases as) auto
      finally show ?thesis .
    qed
    have acc: "server_map_of ?any (insert (a, p) es) (eps(p \<mapsto> as @ [a]))" if "a \<noteq> ?any"
      using up [of "as @ [a]" p a] that \<open>{b. (b, p) \<in> es} = set as\<close> \<open>?any \<notin> set as\<close> by auto
    have e: "the (server_endpoint c) = (a, p)" by (simp add: c server_endpoint_def)
    show ?thesis unfolding e free
      using 3 t True acc
      by (simp add: ValidateServer_def c pret_def throw_InvalidValue_def praise_def parser_base_def)
  qed
qed

lemma ValidateServers_loop_spec:
  assumes "server_map_of (address_v4_any V) (set es) eps"
    and "sorted_wrt (\<lambda>x y. \<not> endpoint_conflict (address_v4_any V) x y) es"
  shows "snd (ValidateServers_loop V i cs eps path) = path \<and>
    (fst (ValidateServers_loop V i cs eps path) = Inr () \<longleftrightarrow>
       list_all (is_tcp_server V) cs \<and>
       sorted_wrt (\<lambda>x y. \<not> endpoint_conflict (address_v4_any V) x y) (es @ map (the \<circ> server_endpoint) cs)) \<and>
    (\<forall>e b. fst (ValidateServers_loop V i cs eps path) = Inl e \<longrightarrow> parser_base e = Some b \<longrightarrow>
       b = ParserException (path @ [to_string i]) (to_string i))"
  using assms
proof (induction cs arbitrary: es eps)
  case Nil
  then show ?case by (simp add: pret_def)
next
  case (Cons c cs)
  let ?any = "address_v4_any V" and ?td = "to_string i"
  let ?ok = "\<lambda>x y. \<not> endpoint_conflict ?any x y"
  let ?r = "ValidateServer V ?td c eps (path @ [?td])"
  have sym: "endpoint_conflict ?any x y \<longleftrightarrow> endpoint_conflict ?any y x" for x y
    by (auto simp: endpoint_conflict_def)
  note step = ValidateServer_step [OF Cons.prems(1), of ?td c "path @ [?td]"]
  have scope: "with_trace ?td (\<lambda>td. ValidateServer V td c eps) path = (fst ?r, path)"
    by (rule with_trace_keeps) (use step in blast)
  show ?case
  proof (cases "fst ?r")
    case (Inl e)
    with step Cons.prems(2) show ?thesis
      by (auto simp: pbind_def scope sorted_wrt_append sym)
  next
    case (Inr eps')
    let ?e = "the (server_endpoint c)"
    from Inr step have c: "is_tcp_server V c" and free: "\<forall>e \<in> set es. ?ok e ?e"
      and rep: "server_map_of ?any (set (es @ [?e])) eps'" by (auto simp: sym)
    from free Cons.prems(2) have "sorted_wrt ?ok (es @ [?e])" by (simp add: sorted_wrt_append)
    from Cons.IH [OF rep this] c show ?thesis by (simp add: pbind_def scope Inr)
  qed
qed

lemma ValidateServers_spec:
  "(fst (ValidateServers V cs path) = Inr () \<longleftrightarrow> list_all (is_tcp_server V) cs \<and>
     sorted_wrt (\<lambda>x y. \<not> endpoint_conflict (address_v4_any V) x y) (map (the \<circ> server_endpoint) cs)) \<and>
   snd (ValidateServers V cs path) = path \<and>
   (\<forall>e b. fst (ValidateServers V cs path) = Inl e \<longrightarrow> parser_base e = Some b \<longrightarrow>
     b = ParserException (path @ [''servers'', ''0'']) ''0'')"
proof -
  have "server_map_of (address_v4_any V) (set []) (\<lambda>p. None)" by (simp add: server_map_of_def)
  from ValidateServers_loop_spec [OF this, of 0 cs "path @ [''servers'']"]
  have loop: "snd (ValidateServers_loop V 0 cs (\<lambda>p. None) (path @ [''servers''])) = path @ [''servers'']"
    "fst (ValidateServers_loop V 0 cs (\<lambda>p. None) (path @ [''servers''])) = Inr () \<longleftrightarrow>
      list_all (is_tcp_server V) cs \<and>
      sorted_wrt (\<lambda>x y. \<not> endpoint_conflict (address_v4_any V) x y) (map (the \<circ> server_endpoint) cs)"
    "\<forall>e b. fst (ValidateServers_loop V 0 cs (\<lambda>p. None) (path @ [''servers''])) = Inl e \<longrightarrow>
      parser_base e = Some b \<longrightarrow> b = ParserException ((path @ [''servers'']) @ [to_string 0]) (to_string 0)"
    by simp_all
  have "to_string 0 = ''0''" by code_simp
  with loop show ?thesis by (simp add: ValidateServers_def with_trace_keeps)
qed

subsection \<open>Clients against pairwise conflicts\<close>

abbreviation ranges_apart :: "'u::linorder unit_id_range list \<Rightarrow> bool" where
  "ranges_apart \<equiv> sorted_wrt (\<lambda>x y. units_of x \<inter> units_of y = {})"

text \<open>What the validator's members say of the ranges inserted so far.\<close>

definition validator_of :: "'u::len word unit_id_range list \<Rightarrow> bool \<Rightarrow> 'u word unit_id_range_validator \<Rightarrow> bool" where
  "validator_of rs d v \<longleftrightarrow> set_invariant (v_unitIdSet v) \<and> set (v_unitIdSet v) = set rs \<and> ranges_apart rs \<and>
     v_defaultUnitIdsClient v = d \<and> v_unitIdCounter v = sum_list (map range_weight rs)"

lemma Insert_ranges_spec:
  assumes "validator_of rs d v" and "list_all range_ordered rs'"
  shows "snd (Insert_ranges V td rs' v path) = path \<and>
    (case fst (Insert_ranges V td rs' v path) of
       Inr v' \<Rightarrow> validator_of (rs @ rs') d v'
     | Inl e \<Rightarrow> \<not> ranges_apart (rs @ rs') \<and> parser_base e = Some (ParserException path td))"
  using assms
proof (induction rs' arbitrary: rs v)
  case Nil
  then show ?case by (simp add: pret_def)
next
  case (Cons r rs')
  from Cons.prems have inv: "set_invariant (v_unitIdSet v)" and r: "range_ordered r"
    by (simp_all add: validator_of_def)
  note ins = set_insert_spec [OF inv r]
  obtain s ok where i: "set_insert UnitIdRangeComparator r (v_unitIdSet v) = (s, ok)" by fastforce
  from Cons.prems have free: "disjoint_from r (v_unitIdSet v) \<longleftrightarrow> ranges_apart (rs @ [r])"
    by (auto simp: validator_of_def disjoint_from_def sorted_wrt_append Int_commute)
  show ?case
  proof (cases ok)
    case False
    with ins i free have "\<not> ranges_apart (rs @ [r])" by simp
    then have "\<not> ranges_apart ((rs @ [r]) @ rs')" unfolding sorted_wrt_append by blast
    with False i show ?thesis by (simp add: throw_InvalidValue_def praise_def parser_base_def)
  next
    case True
    let ?v = "v\<lparr>v_unitIdSet := s, v_unitIdCounter := v_unitIdCounter v + range_weight r\<rparr>"
    from True ins i free Cons.prems have "validator_of (rs @ [r]) d ?v"
      by (auto simp: validator_of_def)
    note next_ranges = Cons.IH [OF this]
    have snoc: "(rs @ [r]) @ rs' = rs @ r # rs'" by simp
    from Cons.prems True i next_ranges [unfolded snoc] show ?thesis by simp
  qed
qed

lemma Insert_spec:
  assumes "validator_of rs d v" and "list_all range_ordered rs'"
  shows "snd (UnitIdRangeValidator_Insert V td rs' v path) = path \<and>
    (case fst (UnitIdRangeValidator_Insert V td rs' v path) of
       Inr v' \<Rightarrow> \<not> (d \<and> rs' = []) \<and> validator_of (rs @ rs') (d \<or> rs' = []) v'
     | Inl e \<Rightarrow> \<not> (ranges_apart (rs @ rs') \<and> \<not> (d \<and> rs' = [])) \<and>
         parser_base e = Some (ParserException path td))"
proof (cases "rs' = []")
  case True
  with assms show ?thesis
    by (auto simp: UnitIdRangeValidator_Insert_def validator_of_def throw_InvalidValue_def praise_def
        pret_def parser_base_def)
next
  case False
  with Insert_ranges_spec [OF assms, of V td path] show ?thesis
    by (auto simp: UnitIdRangeValidator_Insert_def split: sum.splits)
qed

definition client_endpoint :: "('a, 'u) transport_config \<Rightarrow> ('a \<times> 16 word) option" where
  "client_endpoint c = (case c of TcpClientConfig m a p \<Rightarrow> Some (a, p) | _ \<Rightarrow> None)"

definition client_units :: "('a, 'u) transport_config \<Rightarrow> 'u unit_id_range list" where
  "client_units c = (case c of TcpClientConfig m a p \<Rightarrow> unitIdSet m | _ \<Rightarrow> [])"

text \<open>A client that stands on its own: of the right class and not bound to the any address.\<close>

definition is_tcp_client :: "('a, 'u) validator_lib \<Rightarrow> ('a, 'u) transport_config \<Rightarrow> bool" where
  "is_tcp_client V c \<longleftrightarrow> type_is_TCP V c \<and> (case client_endpoint c of None \<Rightarrow> False
     | Some (a, p) \<Rightarrow> a \<noteq> address_v4_any V)"

definition default_clients :: "('a, 'u) transport_config list \<Rightarrow> nat" where
  "default_clients cs = length (filter (\<lambda>c. client_units c = []) cs)"

definition client_map_of :: "('a \<times> 16 word) set \<Rightarrow> 'a endpoints \<Rightarrow> bool" where
  "client_map_of es eps \<longleftrightarrow> (\<forall>p. {a. (a, p) \<in> es} = (case eps p of None \<Rightarrow> {} | Some as \<Rightarrow> set as))"

lemma ValidateClient_step:
  fixes V :: "('a, 'u::len word) validator_lib"
  assumes "client_map_of es eps" and "validator_of rs d v" and "list_all range_ordered (client_units c)"
  defines "ok \<equiv> is_tcp_client V c \<and> the (client_endpoint c) \<notin> es \<and> \<not> (d \<and> client_units c = [])"
  shows "snd (ValidateClient V td c (eps, v) path) = path \<and>
    (case fst (ValidateClient V td c (eps, v) path) of
       Inr (eps', v') \<Rightarrow> ok \<and> client_map_of (insert (the (client_endpoint c)) es) eps' \<and>
         validator_of (rs @ client_units c) (d \<or> client_units c = []) v'
     | Inl e \<Rightarrow> \<not> (ok \<and> ranges_apart (rs @ client_units c)) \<and>
         (\<forall>b. parser_base e = Some b \<longrightarrow> b = ParserException path td))"
proof (cases c)
  case (TcpClientConfig m a p)
  have units: "client_units c = unitIdSet m" and e: "the (client_endpoint c) = (a, p)"
    by (simp_all add: TcpClientConfig client_units_def client_endpoint_def)
  let ?I = "UnitIdRangeValidator_Insert V td (unitIdSet m) v path"
  from Insert_spec [OF assms(2,3), of V td path, unfolded units]
  have I: "snd ?I = path" "case fst ?I of
      Inr v' \<Rightarrow> \<not> (d \<and> unitIdSet m = []) \<and> validator_of (rs @ unitIdSet m) (d \<or> unitIdSet m = []) v'
    | Inl e \<Rightarrow> \<not> (ranges_apart (rs @ unitIdSet m) \<and> \<not> (d \<and> unitIdSet m = [])) \<and>
        parser_base e = Some (ParserException path td)" by auto
  define as where "as = (case eps p of None \<Rightarrow> [] | Some as \<Rightarrow> as)"
  have as: "{b. (b, p) \<in> es} = set as"
    using spec [OF assms(1) [unfolded client_map_of_def], of p] by (auto simp: as_def split: option.splits)
  have up: "client_map_of (insert (a, p) es) (eps(p \<mapsto> as @ [a]))"
    using assms(1) as by (auto simp: client_map_of_def)
  have code: "ValidateClient V td c (eps, v) =
      (if \<not> type_is_TCP V c then praise (LogicError ''unknown server type'')
       else if a = address_v4_any V
       then throw_InvalidValue td ''any ip address don't allow for client''
       else if a \<in> set as
       then throw_InvalidValue td (''ip address '' @ address_to_string V a @
         '' intersected with ip address '' @ address_to_string V a @ '' on other client'')
       else pbind (UnitIdRangeValidator_Insert V td (unitIdSet m) v)
         (\<lambda>v'. pret (eps(p \<mapsto> as @ [a]), v')))"
    by (auto simp: ValidateClient_def TcpClientConfig as_def split: option.split)
  have fresh: "(a, p) \<in> es \<longleftrightarrow> a \<in> set as" using as by blast
  have cl: "is_tcp_client V c \<longleftrightarrow> type_is_TCP V c \<and> a \<noteq> address_v4_any V"
    by (simp add: is_tcp_client_def client_endpoint_def TcpClientConfig)
  show ?thesis
  proof (cases "type_is_TCP V c \<and> a \<noteq> address_v4_any V \<and> a \<notin> set as")
    case False
    then show ?thesis
      by (auto simp: code ok_def cl e fresh throw_InvalidValue_def praise_def parser_base_def)
  next
    case True
    then have run: "ValidateClient V td c (eps, v) path =
        (case ?I of (Inl x, q) \<Rightarrow> (Inl x, q) | (Inr v', q) \<Rightarrow> (Inr (eps(p \<mapsto> as @ [a]), v'), q))"
      by (auto simp: code pbind_def pret_def split: prod.split sum.split)
    show ?thesis
      unfolding run ok_def cl e fresh units
      using True I up by (cases ?I; cases "fst ?I") auto
  qed
qed (auto simp: ValidateClient_def ok_def is_tcp_client_def client_endpoint_def praise_def parser_base_def)

text \<open>The clients a pass over the section accepts, given what it has seen before.\<close>

definition clients_compatible :: "('a, 'u::linorder) validator_lib \<Rightarrow> ('a \<times> 16 word) list \<Rightarrow> 'u unit_id_range list \<Rightarrow>
    bool \<Rightarrow> ('a, 'u) transport_config list \<Rightarrow> bool" where
  "clients_compatible V es rs d cs \<longleftrightarrow> list_all (is_tcp_client V) cs \<and>
     distinct (es @ map (the \<circ> client_endpoint) cs) \<and> ranges_apart (rs @ concat (map client_units cs)) \<and>
     (if d then 1 else 0) + default_clients cs \<le> 1"

lemma clients_compatible_Cons:
  "clients_compatible V es rs d (c # cs) \<longleftrightarrow>
     is_tcp_client V c \<and> the (client_endpoint c) \<notin> set es \<and> \<not> (d \<and> client_units c = []) \<and>
     clients_compatible V (es @ [the (client_endpoint c)]) (rs @ client_units c) (d \<or> client_units c = []) cs"
  by (auto simp: clients_compatible_def default_clients_def simp del: sorted_wrt_append)

lemma clients_compatible_apart: "clients_compatible V es (rs @ rs') d cs \<Longrightarrow> ranges_apart (rs @ rs')"
  unfolding clients_compatible_def by (metis sorted_wrt_append)

lemma ValidateClients_loop_spec:
  assumes "client_map_of (set es) eps" and "validator_of rs d v" and "distinct es"
    and "list_all (\<lambda>c. list_all range_ordered (client_units c)) cs"
  shows "snd (ValidateClients_loop V i cs (eps, v) path) = path \<and>
    (case fst (ValidateClients_loop V i cs (eps, v) path) of
       Inr st' \<Rightarrow> clients_compatible V es rs d cs \<and>
         validator_of (rs @ concat (map client_units cs)) (d \<or> 0 < default_clients cs) (snd st')
     | Inl e \<Rightarrow> \<not> clients_compatible V es rs d cs \<and>
         (\<forall>b. parser_base e = Some b \<longrightarrow> b = ParserException (path @ [to_string i]) (to_string i)))"
  using assms
proof (induction cs arbitrary: es eps rs d v)
  case Nil
  then show ?case
    by (simp add: pret_def clients_compatible_def default_clients_def validator_of_def)
next
  case (Cons c cs)
  let ?td = "to_string i" and ?e = "the (client_endpoint c)"
  let ?r = "ValidateClient V ?td c (eps, v) (path @ [?td])"
  from Cons.prems have units: "list_all range_ordered (client_units c)" by simp
  note step = ValidateClient_step [OF Cons.prems(1,2) units, of V ?td "path @ [?td]"]
  have scope: "with_trace ?td (\<lambda>td. ValidateClient V td c (eps, v)) path = (fst ?r, path)"
    by (rule with_trace_keeps) (use step in blast)
  show ?case
  proof (cases "fst ?r")
    case (Inl e)
    with step have "\<not> clients_compatible V es rs d (c # cs)"
      unfolding clients_compatible_Cons using clients_compatible_apart by fastforce
    with Inl step show ?thesis by (simp add: pbind_def scope)
  next
    case (Inr st)
    obtain eps' v' where st: "st = (eps', v')" by fastforce
    with Inr step have here: "is_tcp_client V c" "?e \<notin> set es" "\<not> (d \<and> client_units c = [])"
      and m: "client_map_of (set (es @ [?e])) eps'"
      and v: "validator_of (rs @ client_units c) (d \<or> client_units c = []) v'" by auto
    from Cons.IH [OF m v] Cons.prems here(2)
    have "snd (ValidateClients_loop V i cs (eps', v') path) = path \<and>
      (case fst (ValidateClients_loop V i cs (eps', v') path) of
         Inr st' \<Rightarrow> clients_compatible V es rs d (c # cs) \<and>
           validator_of (rs @ concat (map client_units (c # cs))) (d \<or> 0 < default_clients (c # cs)) (snd st')
       | Inl e \<Rightarrow> \<not> clients_compatible V es rs d (c # cs) \<and>
           (\<forall>b. parser_base e = Some b \<longrightarrow> b = ParserException (path @ [to_string i]) (to_string i)))"
      unfolding clients_compatible_Cons
      using here by (cases "client_units c") (auto simp: default_clients_def split: sum.splits)
    then show ?thesis by (simp add: pbind_def scope Inr st)
  qed
qed

text \<open>The counter of the ranges of all clients.\<close>

definition units_counter :: "('a, 'u::len word) transport_config list \<Rightarrow> 'u word" where
  "units_counter cs = sum_list (map range_weight (concat (map client_units cs)))"

lemma ValidateClients_spec:
  assumes "list_all (\<lambda>c. list_all range_ordered (client_units c)) cs"
  shows "snd (ValidateClients V cs path) = path \<and>
    (fst (ValidateClients V cs path) = Inr () \<longleftrightarrow> clients_compatible V [] [] False cs \<and>
      (0 < default_clients cs \<or>
       uint (modbus_unitIdMax V) - uint (modbus_unitIdMin V) \<le> uint (units_counter cs)))"
proof -
  let ?p = "path @ [''clients'']"
  let ?r = "ValidateClients_loop V 0 cs (\<lambda>p. None, UnitIdRangeValidator_default) ?p"
  have m: "client_map_of (set []) (\<lambda>p. None)" by (simp add: client_map_of_def)
  have v: "validator_of [] False UnitIdRangeValidator_default"
    by (simp add: validator_of_def UnitIdRangeValidator_default_def set_invariant_def)
  have "distinct []" by simp
  from ValidateClients_loop_spec [OF m v this assms, of V 0 ?p]
  have loop: "snd ?r = ?p" "case fst ?r of
      Inr st' \<Rightarrow> clients_compatible V [] [] False cs \<and>
        validator_of (concat (map client_units cs)) (0 < default_clients cs) (snd st')
    | Inl e \<Rightarrow> \<not> clients_compatible V [] [] False cs"
    by (auto split: sum.splits)
  have "ValidateClients V cs path =
      (case fst ?r of Inl e \<Rightarrow> Inl e | Inr st \<Rightarrow> fst (CheckCoverage V ''clients'' (snd st) ?p), path)"
    unfolding ValidateClients_def
    by (subst with_trace_keeps)
      (use loop in \<open>auto simp: pbind_def CheckCoverage_def throw_InvalidValue_def praise_def pret_def
        split: prod.split sum.split\<close>)
  with loop(2) show ?thesis
    by (cases "fst ?r") (auto simp: CheckCoverage_def throw_InvalidValue_def praise_def pret_def
      validator_of_def units_counter_def)
qed

subsection \<open>What the counter counts\<close>

lemma card_word_interval:
  fixes a b :: "'u::len word"
  assumes "a \<le> b"
  shows "card {a..b} = Suc (unat b - unat a)"
proof -
  have "unat ` {a..b} = {unat a..unat b}"
  proof
    show "unat ` {a..b} \<subseteq> {unat a..unat b}" by (auto simp: word_le_nat_alt)
    show "{unat a..unat b} \<subseteq> unat ` {a..b}"
    proof
      fix n assume n: "n \<in> {unat a..unat b}"
      then have "n \<le> unat b" by simp
      then have "n < 2 ^ LENGTH('u)" by (rule le_less_trans) (rule unsigned_less)
      then have "unat (word_of_nat n :: 'u word) = n" by (simp add: unat_of_nat take_bit_nat_eq_self)
      with n show "n \<in> unat ` {a..b}"
        by (intro image_eqI [of _ _ "word_of_nat n"]) (auto simp: word_le_nat_alt)
    qed
  qed
  moreover have "inj_on unat {a..b}" by (rule inj_onI) (simp add: word_unat_eq_iff)
  ultimately have "card {a..b} = card {unat a..unat b}" by (metis card_image)
  with assms show ?thesis by (simp add: word_le_nat_alt)
qed

definition is_wide :: "'u unit_id_range \<Rightarrow> bool" where
  "is_wide r \<longleftrightarrow> range_begin r \<noteq> range_end r"

lemma range_weight_card:
  assumes "range_ordered r"
  shows "unat (range_weight r) + (if is_wide r then 1 else 0) = card (units_of r)"
proof -
  from assms have le: "range_begin r \<le> range_end r" by (simp add: range_ordered_def)
  then have "unat (range_end r - range_begin r) = unat (range_end r) - unat (range_begin r)"
    by (simp add: unat_sub)
  with le show ?thesis
    by (auto simp: range_weight_def is_wide_def units_of_def card_word_interval)
qed

lemma weights_card:
  assumes "ranges_apart rs" and "list_all range_ordered rs"
  shows "sum_list (map (\<lambda>r. unat (range_weight r)) rs) + length (filter is_wide rs) =
    card (\<Union>r \<in> set rs. units_of (r :: 'u::len word unit_id_range))"
  using assms
proof (induction rs)
  case Nil
  then show ?case by simp
next
  case (Cons r rs)
  then have "units_of r \<inter> (\<Union>x \<in> set rs. units_of x) = {}" by auto
  then have "card (units_of r \<union> (\<Union>x \<in> set rs. units_of x)) =
      card (units_of r) + card (\<Union>x \<in> set rs. units_of x)"
    by (intro card_Un_disjoint) (simp_all add: units_of_def)
  with Cons range_weight_card [of r] show ?case by (simp split: if_splits)
qed

lemma unat_sum_list:
  assumes "sum_list (map (\<lambda>x. unat (f x)) xs) < 2 ^ LENGTH('u::len)"
  shows "unat (sum_list (map f xs) :: 'u word) = sum_list (map (\<lambda>x. unat (f x)) xs)"
  using assms
proof (induction xs)
  case Nil
  then show ?case by simp
next
  case (Cons x xs)
  then have "unat (sum_list (map f xs)) = sum_list (map (\<lambda>x. unat (f x)) xs)" by simp
  with Cons.prems show ?case by (simp add: unat_word_ariths)
qed

lemma units_counter_card:
  fixes cs :: "('a, 'u::len word) transport_config list"
  defines "rs \<equiv> concat (map client_units cs)"
  assumes "ranges_apart rs" and "list_all range_ordered rs"
    and "(\<Union>r \<in> set rs. units_of r) = {lo..hi}" and "lo \<le> hi" and "hi \<noteq> - 1"
  shows "uint (units_counter cs) = uint hi - uint lo + 1 - int (length (filter is_wide rs))"
proof -
  let ?s = "sum_list (map (\<lambda>r. unat (range_weight r)) rs)"
  have sum: "?s + length (filter is_wide rs) = Suc (unat hi - unat lo)"
    using weights_card [OF assms(2,3)] card_word_interval [OF assms(5)] by (simp add: assms(4))
  have "unat hi < unat (- 1 :: 'u word)"
    using assms(6) word_not_max_less [of hi] by (simp add: word_less_nat_alt)
  with sum have "?s \<le> unat (- 1 :: 'u word)" by linarith
  then have "?s < 2 ^ LENGTH('u)" by (rule le_less_trans) (rule unsigned_less)
  then have "unat (units_counter cs) = ?s"
    unfolding units_counter_def rs_def by (rule unat_sum_list)
  with sum have "unat (units_counter cs) + length (filter is_wide rs) = Suc (unat hi - unat lo)" by simp
  moreover from assms(5) have "unat lo \<le> unat hi" by (simp add: word_le_nat_alt)
  ultimately have "int (unat (units_counter cs)) = int (unat hi) - int (unat lo) + 1 -
      int (length (filter is_wide rs))" by linarith
  then show ?thesis by simp
qed

subsection \<open>A concrete library, for the witnesses\<close>

definition sample_validator_lib :: "(nat, 8 word) validator_lib" where
  "sample_validator_lib = \<lparr>type_is_TCP = (\<lambda>c. TransportConfig_GetType c \<in> {TcpServer, TcpClient}),
     address_v4_any = 0, address_to_string = to_string, show_unit_id = (\<lambda>u. to_string (unat u)),
     modbus_unitIdMin = 1, modbus_unitIdMax = 247\<rparr>"

definition sample_client :: "nat \<Rightarrow> (8 word \<times> 8 word) list \<Rightarrow> (nat, 8 word) transport_config" where
  "sample_client a rs = TcpClientConfig \<lparr>mc_timeout = 100,
     unitIdSet = map (\<lambda>(b, e). \<lparr>range_begin = b, range_end = e\<rparr>) rs\<rparr> a 502"

subsection \<open>Properties\<close>

text \<open>
  the loop over the servers, which keeps for each port a list of addresses or the empty list
  for the any address, accepts exactly the lists of TCP servers in which no two endpoints on one
  port agree or meet the any address, and it leaves the path as it was.
\<close>

lemma ValidateServers_correct:
  "snd (ValidateServers V servers path) = path \<and>
   (fst (ValidateServers V servers path) = Inr () \<longleftrightarrow> list_all (is_tcp_server V) servers \<and>
     sorted_wrt (\<lambda>x y. \<not> endpoint_conflict (address_v4_any V) x y) (map (the \<circ> server_endpoint) servers))"
  using ValidateServers_spec by blast

text \<open>
  every conflict between servers is reported at index zero, whichever server it was found at:
  the index is never incremented.
\<close>

lemma ValidateServers_reports_index_zero:
  assumes "fst (ValidateServers V servers path) = Inl e" and "parser_base e = Some b"
  shows "GetFullPath b = TracePath_GetPath (path @ [''servers'', ''0'']) \<and> GetTargetKey b = ''0''"
  using assms ValidateServers_spec [of V servers path]
  by (auto simp: GetFullPath_def GetTargetKey_def ParserException_def)

theorem ValidateServers_reports_index_zero_witness:
  "\<exists>b. fst (ValidateServers sample_validator_lib
      [TcpServerConfig 5 502, TcpServerConfig 6 502, TcpServerConfig 5 502] []) =
      Inl (InvalidValueException b ''ip address 5 intersected with ip address 5 on other server'') \<and>
    GetFullPath b = ''servers.0''"
proof -
  let ?e = "InvalidValueException \<lparr>ex_path = ''servers.0'', ex_key = ''0''\<rparr>
    ''ip address 5 intersected with ip address 5 on other server''"
  have run: "fst (ValidateServers sample_validator_lib
      [TcpServerConfig 5 502, TcpServerConfig 6 502, TcpServerConfig 5 502] []) = Inl ?e"
    by code_simp
  have "parser_base ?e = Some \<lparr>ex_path = ''servers.0'', ex_key = ''0''\<rparr>" by (simp add: parser_base_def)
  from ValidateServers_reports_index_zero [OF run this] run show ?thesis
    by (simp add: TracePath_GetPath_def)
qed

text \<open>
  C29: a list of clients whose ranges are ordered is accepted exactly when each is a TCP client
  with an address of its own, no two share an endpoint or a unit id, at most one has no unit
  ids, and there is such a default client or the counter reaches the difference of the limits.
\<close>

theorem ValidateClients_correct:
  assumes "list_all (\<lambda>c. list_all range_ordered (client_units c)) clients"
  shows "fst (ValidateClients V clients path) = Inr () \<longleftrightarrow>
    list_all (is_tcp_client V) clients \<and> distinct (map (the \<circ> client_endpoint) clients) \<and>
    ranges_apart (concat (map client_units clients)) \<and> default_clients clients \<le> 1 \<and>
    (default_clients clients = 1 \<or>
     uint (modbus_unitIdMax V) - uint (modbus_unitIdMin V) \<le> uint (units_counter clients))"
  using ValidateClients_spec [OF assms, of V path] by (auto simp: clients_compatible_def)

theorem ValidateClients_correct_witness:
  "fst (ValidateClients sample_validator_lib [sample_client 1 [(1, 100)], sample_client 2 []] []) = Inr ()"
proof -
  have "list_all (\<lambda>c. list_all range_ordered (client_units c)) [sample_client 1 [(1, 100)], sample_client 2 []]"
    by code_simp
  from ValidateClients_correct [OF this, of sample_validator_lib "[]"] show ?thesis by code_simp
qed

text \<open>
  clients that together cover every unit id, without a default client, are accepted only
  when at most one of their ranges is wider than one unit id: the counter is short by one for
  each wider range.
\<close>

lemma ValidateClients_full_coverage:
  assumes "list_all (\<lambda>c. list_all range_ordered (client_units c)) clients"
    and "list_all (is_tcp_client V) clients" and "distinct (map (the \<circ> client_endpoint) clients)"
    and "ranges_apart (concat (map client_units clients))" and "default_clients clients = 0"
    and "(\<Union>r \<in> set (concat (map client_units clients)). units_of r) = {modbus_unitIdMin V..modbus_unitIdMax V}"
    and "modbus_unitIdMin V \<le> modbus_unitIdMax V" and "modbus_unitIdMax V \<noteq> - 1"
  shows "fst (ValidateClients V clients path) = Inr () \<longleftrightarrow>
    length (filter is_wide (concat (map client_units clients))) \<le> 1"
proof -
  from assms(1) have "list_all range_ordered (concat (map client_units clients))"
    by (auto simp: list_all_iff)
  from units_counter_card [OF assms(4) this assms(6-8)]
  show ?thesis
    using ValidateClients_spec [OF assms(1), of V path] assms(2-5) by (simp add: clients_compatible_def)
qed

theorem ValidateClients_full_coverage_witness:
  "fst (ValidateClients sample_validator_lib [sample_client 1 [(1, 100)], sample_client 2 [(101, 247)]] []) \<noteq> Inr ()"
proof -
  let ?cs = "[sample_client 1 [(1, 100)], sample_client 2 [(101, 247)]]"
  have h: "list_all (\<lambda>c. list_all range_ordered (client_units c)) ?cs"
    "list_all (is_tcp_client sample_validator_lib) ?cs" "distinct (map (the \<circ> client_endpoint) ?cs)"
    "default_clients ?cs = 0" "modbus_unitIdMin sample_validator_lib \<le> modbus_unitIdMax sample_validator_lib"
    "modbus_unitIdMax sample_validator_lib \<noteq> - 1"
    "length (filter is_wide (concat (map client_units ?cs))) = 2"
    by code_simp+
  have apart: "ranges_apart (concat (map client_units ?cs))"
    by (auto simp: sample_client_def client_units_def units_of_def word_le_nat_alt)
  have cover: "(\<Union>r \<in> set (concat (map client_units ?cs)). units_of r) =
      {modbus_unitIdMin sample_validator_lib..modbus_unitIdMax sample_validator_lib}"
    by (auto simp: sample_client_def client_units_def units_of_def sample_validator_lib_def word_le_nat_alt)
  from ValidateClients_full_coverage [OF h(1-3) apart h(4) cover h(5,6), of "[]"] h(7)
  show ?thesis by simp
qed

end
