(* ===== verification/Config_Write.thy ===== *)
theory Config_Write
  imports Gateway_Config
begin

text \<open>
  A round trip for the configuration reader: every configuration that satisfies what the reader
  guarantees can be written as a JSON document, and reading the document gives it back, every
  field of every transport included. The program has no writer; the one here is part of the
  statement, with the JSON library's constructors as a record \<open>json_builder\<close> and their documented
  laws as a predicate.
\<close>

subsection \<open>Steps that return a value whatever the path is\<close>

definition gives :: "'a parser \<Rightarrow> 'a \<Rightarrow> bool" where
  "gives m x \<longleftrightarrow> (\<forall>path. m path = (Inr x, path))"

named_theorems gives_intros "steps that give a value, as introduction rules"

lemma gives_ret [gives_intros]: "x = y \<Longrightarrow> gives (pret x) y"
  by (simp add: gives_def pret_def)

lemma gives_bind: "gives m x \<Longrightarrow> gives (f x) y \<Longrightarrow> gives (pbind m f) y"
  by (simp add: gives_def pbind_def)

text \<open>Binding to a step that gives a value is the rest at that value.\<close>

lemma pbind_gives: "gives m x \<Longrightarrow> pbind m f = f x"
  by (rule ext) (simp add: gives_def pbind_def)

lemma pbind_pret [simp]: "pbind (pret x) f = f x"
  by (rule ext) (simp add: pbind_def pret_def)

lemma gives_with_trace: "gives (body key) x \<Longrightarrow> gives (with_trace key body) x"
  by (simp add: gives_def with_trace_def)

lemma gives_indices:
  assumes "list_all2 (\<lambda>j x. gives (f j) x) js xs"
  shows "gives (with_indices f n js) xs"
  using assms
proof (induction js xs arbitrary: n rule: list_all2_induct)
  case Nil
  then show ?case by (simp add: gives_def pret_def)
next
  case (Cons j js x xs)
  have "gives (with_trace (to_string n) (\<lambda>td. f j)) x" by (rule gives_with_trace) (rule Cons.hyps(1))
  moreover have "gives (with_indices f (Suc n) js) xs" by (rule Cons.IH)
  ultimately show ?case unfolding with_indices.simps by (auto intro: gives_bind gives_ret)
qed

lemma gives_check: "ConvertJsonTypeToValueType (json_type L v) = t \<Longrightarrow> gives (CheckType L td v t) ()"
  by (simp add: CheckType_def gives_def pret_def)

lemma gives_find: "json_find L obj td = Some v \<Longrightarrow> gives (FindObject L td obj) v"
  by (simp add: FindObject_def FindObjectRaw_def gives_def pret_def)

lemma gives_or_invalid: "x = Some v \<Longrightarrow> gives (or_invalid x td s) v" "x = Some v \<Longrightarrow> gives (or_invalid_at x td s) v"
  by (simp_all add: or_invalid_def or_invalid_at_def gives_def pret_def)

subsection \<open>Building JSON values\<close>

record ('j, 'a) json_builder =
  jobj :: "(string \<times> 'j) list \<Rightarrow> 'j"
  jarr :: "'j list \<Rightarrow> 'j"
  jstr :: "string \<Rightarrow> 'j"
  jbool :: "bool \<Rightarrow> 'j"
  jnum :: "64 word \<Rightarrow> 'j"
  jfloat :: "rat \<Rightarrow> 'j"
  address_str :: "'a \<Rightarrow> string"

text \<open>
  What the library documents of the values it builds: their types, what is found in them, and
  that an unsigned number is read back, truncated to 32 bits by \<^verbatim>\<open>get<uint32_t>()\<close>;
  and that an address that was rendered is parsed again.
\<close>

definition json_builds :: "('j, 'a, 'u) config_lib \<Rightarrow> ('j, 'a) json_builder \<Rightarrow> bool" where
  "json_builds L B \<longleftrightarrow>
     (\<forall>kvs. json_type L (jobj B kvs) = value_object \<and> json_find L (jobj B kvs) = map_of kvs) \<and>
     (\<forall>js. json_type L (jarr B js) = value_array \<and> json_elements L (jarr B js) = js) \<and>
     (\<forall>s. json_type L (jstr B s) = value_string \<and> json_string L (jstr B s) = s) \<and>
     (\<forall>b. json_type L (jbool B b) = value_boolean \<and> json_bool L (jbool B b) = b) \<and>
     (\<forall>w. json_type L (jnum B w) = value_number_unsigned \<and> json_u64 L (jnum B w) = w \<and>
        json_u32 L (jnum B w) = ucast w) \<and>
     (\<forall>x. json_type L (jfloat B x) = value_number_float \<and> json_float L (jfloat B x) = x) \<and>
     (\<forall>a. make_address_v4 L (address_str B a) = Some a)"

lemma json_buildsD:
  assumes "json_builds L B"
  shows "json_type L (jobj B kvs) = value_object" "json_find L (jobj B kvs) = map_of kvs"
    "json_type L (jarr B js) = value_array" "json_elements L (jarr B js) = js"
    "json_type L (jstr B s) = value_string" "json_string L (jstr B s) = s"
    "json_type L (jbool B b) = value_boolean" "json_bool L (jbool B b) = b"
    "json_type L (jnum B w) = value_number_unsigned" "json_u64 L (jnum B w) = w"
    "json_u32 L (jnum B w) = ucast w"
    "json_type L (jfloat B x) = value_number_float" "json_float L (jfloat B x) = x"
    "make_address_v4 L (address_str B a) = Some a"
  using assms by (simp_all add: json_builds_def)

subsection \<open>Reading one value back\<close>

lemma unat_ucast_widen:
  assumes "LENGTH('w::len) \<le> LENGTH('v::len)"
  shows "unat (ucast (w :: 'w word) :: 'v word) = unat w"
proof (rule unat_ucast_small)
  have "unat w < 2 ^ LENGTH('w)" by (rule unsigned_less)
  also have "\<dots> \<le> 2 ^ LENGTH('v)" using assms by (rule power_increasing) simp
  finally show "unat w < 2 ^ LENGTH('v)" .
qed

lemma ucast_widen_back:
  assumes "LENGTH('w::len) \<le> LENGTH('v::len)"
  shows "ucast (ucast (w :: 'w word) :: 'v word) = w"
proof -
  have "unat (ucast w :: 'v word) < 2 ^ LENGTH('w)"
    unfolding unat_ucast_widen [OF assms] by (rule unsigned_less)
  then have "unat (ucast (ucast w :: 'v word) :: 'w word) = unat w"
    by (simp add: unat_ucast_small unat_ucast_widen [OF assms])
  then show ?thesis by (simp add: word_unat_eq_iff)
qed

lemma gives_unsigned_opt:
  fixes w :: "'w::len word"
  assumes "json_builds L B" and "LENGTH('w) \<le> 64" and "json_find L obj key = Some (jnum B (ucast w))"
  shows "gives (ExtractUnsignedNumberOpt L obj key) (Some w)"
proof -
  have len: "LENGTH('w) \<le> LENGTH(64)" using assms(2) by simp
  have "unat w \<le> unat (- 1 :: 'w word)" by (simp flip: word_le_nat_alt)
  then have "\<not> (ucast (- 1 :: 'w word) :: 64 word) < ucast w"
    by (simp add: linorder_not_less word_le_nat_alt unat_ucast_widen [OF len])
  moreover have "ucast (ucast w :: 64 word) = w" using len by (rule ucast_widen_back)
  ultimately show ?thesis
    unfolding ExtractUnsignedNumberOpt_def Let_def
    by (intro gives_with_trace)
      (simp add: FindObjectRaw_def assms(3) gives_def pbind_def CheckType_def pret_def
        json_buildsD [OF assms(1)] ConvertJsonTypeToValueType_def)
qed

lemma gives_unsigned:
  fixes w :: "'w::len word"
  assumes "json_builds L B" and "LENGTH('w) \<le> 64" and "json_find L obj key = Some (jnum B (ucast w))"
  shows "gives (ExtractUnsignedNumber L obj key) w"
  unfolding ExtractUnsignedNumber_def
  by (rule gives_bind [OF gives_unsigned_opt [OF assms]]) (simp add: gives_ret)

lemma gives_unsigned_absent:
  "json_find L obj key = None \<Longrightarrow> gives (ExtractUnsignedNumberOpt L obj key) None"
  unfolding ExtractUnsignedNumberOpt_def by (intro gives_with_trace) (simp add: FindObjectRaw_def gives_ret)

text \<open>A value of the right type in a scope of its own.\<close>

lemmas gives_value_defs = FindObjectRaw_def gives_def pbind_def CheckType_def pret_def
  ConvertJsonTypeToValueType_def or_invalid_def

lemma gives_string:
  assumes "json_builds L B" and "json_find L obj key = Some (jstr B s)"
  shows "gives (ExtractString L obj key) s" and "gives (ExtractStringOpt L obj key) (Some s)"
  unfolding ExtractString_def ExtractStringOpt_def
  by (rule gives_with_trace; simp add: FindObject_def gives_value_defs assms(2) json_buildsD [OF assms(1)])+

lemma gives_value_opt:
  assumes "map_option (\<lambda>v. (ConvertJsonTypeToValueType (json_type L v), get v)) (json_find L obj key) =
    map_option (\<lambda>x. (t, x)) r"
  shows "gives (ExtractValueOpt L get obj key t) r"
  unfolding ExtractValueOpt_def
  by (rule gives_with_trace)
    (use assms in \<open>cases "json_find L obj key"; cases r; simp add: gives_value_defs\<close>)

text \<open>How each enumeration is written.\<close>

definition write_log_level :: "log_level \<Rightarrow> string" where
  "write_log_level l = (case l of Trace \<Rightarrow> ''trace'' | Debug \<Rightarrow> ''debug'' | Info \<Rightarrow> ''info''
     | Warning \<Rightarrow> ''warning'' | Error \<Rightarrow> ''error'' | Critical \<Rightarrow> ''critical'')"

definition write_frame_type :: "frame_type \<Rightarrow> string" where
  "write_frame_type f = (case f of TCP \<Rightarrow> ''tcp'' | RTU \<Rightarrow> ''rtu'' | ASCII \<Rightarrow> ''ascii'')"

definition write_parity :: "parity \<Rightarrow> string" where
  "write_parity p = (case p of parity_none \<Rightarrow> ''none'' | parity_odd \<Rightarrow> ''odd'' | parity_even \<Rightarrow> ''even'')"

definition write_stop_bits :: "stop_bits \<Rightarrow> rat" where
  "write_stop_bits b = (case b of stop_bits_one \<Rightarrow> 1 | stop_bits_onepointfive \<Rightarrow> 3 / 2 | stop_bits_two \<Rightarrow> 2)"

definition write_flow_control :: "flow_control \<Rightarrow> string" where
  "write_flow_control f = (case f of flow_control_none \<Rightarrow> ''none'' | flow_control_software \<Rightarrow> ''software''
     | flow_control_hardware \<Rightarrow> ''hardware'')"

lemma enumerations_read_back [simp]:
  "ConvertLogLevel (write_log_level l) = Some l"
  "ConvertFrameType (write_frame_type f) = Some f"
  "ConvertParity (write_parity p) = Some p"
  "ConvertStopBits (write_stop_bits b) = Some b"
  "ConvertFlowControl (write_flow_control fc) = Some fc"
proof -
  show "ConvertLogLevel (write_log_level l) = Some l"
    by (cases l; simp add: ConvertLogLevel_def write_log_level_def)
  show "ConvertFrameType (write_frame_type f) = Some f"
    by (cases f; simp add: ConvertFrameType_def write_frame_type_def)
  show "ConvertParity (write_parity p) = Some p"
    by (cases p; simp add: ConvertParity_def write_parity_def)
  show "ConvertStopBits (write_stop_bits b) = Some b"
    by (cases b; simp add: ConvertStopBits_def write_stop_bits_def)
  show "ConvertFlowControl (write_flow_control fc) = Some fc"
    by (cases fc; simp add: ConvertFlowControl_def write_flow_control_def)
qed

lemma gives_log_level:
  assumes "json_builds L B" and "json_find L obj keys_logLevel = Some (jstr B (write_log_level l))"
  shows "gives (ExtractLogLevel L obj) (Some l)"
  unfolding ExtractLogLevel_def Let_def
  by (rule gives_with_trace) (simp add: gives_value_defs assms(2) json_buildsD [OF assms(1)])

lemma gives_frame_type:
  assumes "json_builds L B" and "json_find L obj keys_frame_type = Some (jstr B (write_frame_type f))"
  shows "gives (ExtractFrameType L obj) f"
  unfolding ExtractFrameType_def Let_def
  by (rule gives_with_trace) (simp add: FindObject_def gives_value_defs assms(2) json_buildsD [OF assms(1)])

lemma gives_address:
  assumes "json_builds L B" and "json_find L obj keys_ipAddress = Some (jstr B (address_str B a))"
  shows "gives (ExtractIpAddressOptional L obj) (Some a)" and "gives (ExtractIpAddress L obj) a"
proof -
  show opt: "gives (ExtractIpAddressOptional L obj) (Some a)"
    unfolding ExtractIpAddressOptional_def Let_def
    by (rule gives_with_trace) (simp add: gives_value_defs assms(2) json_buildsD [OF assms(1)])
  show "gives (ExtractIpAddress L obj) a"
    unfolding ExtractIpAddress_def by (rule gives_bind [OF opt]) (simp add: gives_ret)
qed

lemma gives_port:
  fixes port :: "16 word"
  assumes "json_builds L B" and "json_find L obj keys_ipPort = Some (jnum B (ucast port))" and "port \<noteq> 0"
  shows "gives (ExtractIpPort L obj) port"
proof -
  have len: "LENGTH(16) \<le> LENGTH(64)" by simp
  have "(ucast port :: 64 word) \<noteq> 0"
    using assms(3) unat_ucast_widen [OF len, of port] by (auto simp: unat_eq_0)
  moreover have "unat port \<le> unat (- 1 :: 16 word)" by (simp only: flip: word_le_nat_alt) simp
  then have "\<not> (ucast (- 1 :: 16 word) :: 64 word) < ucast port"
    by (simp only: linorder_not_less word_le_nat_alt unat_ucast_widen [OF len])
  moreover have "ucast (ucast port :: 64 word) = port" using len by (rule ucast_widen_back)
  ultimately show ?thesis
    unfolding ExtractIpPort_def Let_def
    by (intro gives_with_trace, intro gives_bind [OF gives_find [OF assms(2)]] gives_bind [OF gives_check])
      (simp_all add: json_buildsD [OF assms(1)] ConvertJsonTypeToValueType_def gives_ret)
qed

subsection \<open>Serial line options\<close>

text \<open>An optional member.\<close>

definition member :: "string \<Rightarrow> ('v \<Rightarrow> 'j) \<Rightarrow> 'v option \<Rightarrow> (string \<times> 'j) list" where
  "member key f x = (case x of None \<Rightarrow> [] | Some v \<Rightarrow> [(key, f v)])"

lemma map_of_member [simp]:
  "map_of (member key f x) k = (if k = key then map_option f x else None)"
  "(m ++ map_of (member key f x)) k = (if k = key \<and> x \<noteq> None then map_option f x else m k)"
  by (cases x; simp add: member_def)+

definition write_rs485 :: "('j, 'a) json_builder \<Rightarrow> rs485 \<Rightarrow> 'j" where
  "write_rs485 B opts = jobj B (member keys_rtsOnSend (jbool B) (rtsOnSend opts) @
     member keys_rtsAfterSend (jbool B) (rtsAfterSend opts) @ member keys_rxDuringTx (jbool B) (rxDuringTx opts) @
     member keys_terminateBus (jbool B) (terminateBus opts) @
     member keys_delayRtsBeforeSend (\<lambda>w. jnum B (ucast w)) (delayRtsBeforeSend opts) @
     member keys_delayRtsAfterSend (\<lambda>w. jnum B (ucast w)) (delayRtsAfterSend opts))"

definition write_rtu_options :: "('j, 'a) json_builder \<Rightarrow> rtu_options \<Rightarrow> (string \<times> 'j) list" where
  "write_rtu_options B opts = [(keys_baud_rate, jnum B (ucast (baudRate opts))),
     (keys_character_size, jnum B (ucast (characterSize opts))),
     (keys_parity, jstr B (write_parity (opt_parity opts))),
     (keys_stop_bits, jfloat B (write_stop_bits (stopBits opts))),
     (keys_flow_control, jstr B (write_flow_control (flowControl opts)))] @
     member keys_rs485 (write_rs485 B) (opt_rs485 opts)"

lemma ucast_32_64 [simp]: "ucast (ucast (w :: 32 word) :: 64 word) = w"
  by (rule ucast_widen_back) simp

lemma gives_rs485:
  assumes "json_builds L B" and "json_find L obj keys_rs485 = map_option (write_rs485 B) r"
  shows "gives (ExtractRs485Options L obj) r"
proof (cases r)
  case None
  then show ?thesis unfolding ExtractRs485Options_def
    by (intro gives_with_trace) (simp add: FindObjectRaw_def assms(2) gives_ret)
next
  case (Some opts)
  have find: "json_find L (write_rs485 B opts) k = map_of (member keys_rtsOnSend (jbool B) (rtsOnSend opts) @
     member keys_rtsAfterSend (jbool B) (rtsAfterSend opts) @ member keys_rxDuringTx (jbool B) (rxDuringTx opts) @
     member keys_terminateBus (jbool B) (terminateBus opts) @
     member keys_delayRtsBeforeSend (\<lambda>w. jnum B (ucast w)) (delayRtsBeforeSend opts) @
     member keys_delayRtsAfterSend (\<lambda>w. jnum B (ucast w)) (delayRtsAfterSend opts)) k" for k
    by (simp only: write_rs485_def json_buildsD(2) [OF assms(1)])
  have flag: "gives (ExtractValueOpt L (json_bool L) (write_rs485 B opts) key Boolean) x"
    if "json_find L (write_rs485 B opts) key = map_option (jbool B) x" for key x
    by (rule gives_value_opt) (simp add: that option.map_comp comp_def json_buildsD [OF assms(1)] ConvertJsonTypeToValueType_def)
  have delay: "gives (ExtractValueOpt L (json_u32 L) (write_rs485 B opts) key Number) x"
    if "json_find L (write_rs485 B opts) key = map_option (\<lambda>w. jnum B (ucast w)) x" for key x
    by (rule gives_value_opt) (simp add: that option.map_comp comp_def json_buildsD [OF assms(1)] ConvertJsonTypeToValueType_def)
  have flags: "gives (ExtractValueOpt L (json_bool L) (write_rs485 B opts) keys_rtsOnSend Boolean) (rtsOnSend opts)"
    "gives (ExtractValueOpt L (json_bool L) (write_rs485 B opts) keys_rtsAfterSend Boolean) (rtsAfterSend opts)"
    "gives (ExtractValueOpt L (json_bool L) (write_rs485 B opts) keys_rxDuringTx Boolean) (rxDuringTx opts)"
    "gives (ExtractValueOpt L (json_bool L) (write_rs485 B opts) keys_terminateBus Boolean) (terminateBus opts)"
    by (rule flag; simp add: find keys_defs)+
  have delays: "gives (ExtractValueOpt L (json_u32 L) (write_rs485 B opts) keys_delayRtsBeforeSend Number)
      (delayRtsBeforeSend opts)"
    "gives (ExtractValueOpt L (json_u32 L) (write_rs485 B opts) keys_delayRtsAfterSend Number) (delayRtsAfterSend opts)"
    by (rule delay; simp add: find keys_defs)+
  have object: "ConvertJsonTypeToValueType (json_type L (write_rs485 B opts)) = Object"
    by (simp add: write_rs485_def json_buildsD [OF assms(1)] ConvertJsonTypeToValueType_def)
  have body: "gives (case FindObjectRaw L keys_rs485 obj of None \<Rightarrow> pret None | Some val \<Rightarrow> f val) r"
    if "gives (f (write_rs485 B opts)) (Some opts)" for f
    using that by (simp add: FindObjectRaw_def assms(2) Some)
  show ?thesis unfolding ExtractRs485Options_def
    by (intro gives_with_trace body gives_bind [OF gives_check [OF object]] gives_bind [OF flags(1)]
        gives_bind [OF flags(2)] gives_bind [OF flags(3)] gives_bind [OF flags(4)] gives_bind [OF delays(1)]
        gives_bind [OF delays(2)] gives_ret) simp
qed

lemma gives_rtu_options:
  assumes "json_builds L B" and "character_size_ok L (characterSize opts)"
    and "\<And>k. k \<in> {keys_baud_rate, keys_character_size, keys_parity, keys_stop_bits, keys_flow_control, keys_rs485} \<Longrightarrow>
      json_find L obj k = map_of (write_rtu_options B opts) k"
  shows "gives (ExtractRtuOptions L obj) opts"
proof -
  note found = assms(3) write_rtu_options_def keys_defs json_buildsD [OF assms(1)] ConvertJsonTypeToValueType_def
  have num: "gives (ExtractUnsignedNumberOpt L obj keys_baud_rate) (Some (ucast (baudRate opts) :: 64 word))"
    "gives (ExtractUnsignedNumberOpt L obj keys_character_size) (Some (ucast (characterSize opts) :: 64 word))"
    by (rule gives_unsigned_opt [OF assms(1)]; simp add: found)+
  have str: "gives (ExtractStringOpt L obj keys_parity) (Some (write_parity (opt_parity opts)))"
    "gives (ExtractStringOpt L obj keys_flow_control) (Some (write_flow_control (flowControl opts)))"
    by (rule gives_string(2) [OF assms(1)]; simp add: found)+
  have stop: "gives (ExtractValueOpt L (json_float L) obj keys_stop_bits Number) (Some (write_stop_bits (stopBits opts)))"
    by (rule gives_value_opt) (simp add: found)
  have rs: "gives (ExtractRs485Options L obj) (opt_rs485 opts)"
    by (rule gives_rs485 [OF assms(1)]) (simp add: found)
  have "(default_rtu_options L)\<lparr>baudRate := baudRate opts, characterSize := characterSize opts,
      opt_parity := opt_parity opts, stopBits := stopBits opts, flowControl := flowControl opts,
      opt_rs485 := opt_rs485 opts\<rparr> = opts"
    by (cases "default_rtu_options L"; cases opts) simp
  then show ?thesis
    by (simp add: ExtractRtuOptions_def Let_def pbind_gives [OF num(1)] pbind_gives [OF num(2)]
        pbind_gives [OF str(1)] pbind_gives [OF stop] pbind_gives [OF str(2)] pbind_gives [OF rs]
        opt_update_def or_invalid_at_def assms(2) gives_ret)
qed

subsection \<open>Transports\<close>

definition write_range :: "('j, 'a) json_builder \<Rightarrow> 'u::len word unit_id_range \<Rightarrow> 'j" where
  "write_range B r = jobj B [(keys_numericRangeType, jstr B ''range''),
     (keys_numericRangeBegin, jnum B (ucast (range_begin r))), (keys_numericRangeEnd, jnum B (ucast (range_end r)))]"

definition write_master_config :: "('j, 'a) json_builder \<Rightarrow> 'u::len word master_config \<Rightarrow> (string \<times> 'j) list" where
  "write_master_config B m = (keys_timeout, jnum B (mc_timeout m)) #
     (if unitIdSet m = [] then [] else [(keys_unitIdSet, jarr B (map (write_range B) (unitIdSet m)))])"

fun write_transport :: "('j, 'a) json_builder \<Rightarrow> ('a, 'u::len word) transport_config \<Rightarrow> 'j" where
  "write_transport B (TcpServerConfig address port) = jobj B [(keys_frame_type, jstr B ''tcp''),
     (keys_ipAddress, jstr B (address_str B address)), (keys_ipPort, jnum B (ucast port))]"
| "write_transport B (RtuSlaveConfig device options frameType) = jobj B
     ([(keys_frame_type, jstr B (write_frame_type frameType)), (keys_device, jstr B device)] @
      write_rtu_options B options)"
| "write_transport B (TcpClientConfig m address port) = jobj B ([(keys_frame_type, jstr B ''tcp''),
     (keys_ipAddress, jstr B (address_str B address)), (keys_ipPort, jnum B (ucast port))] @ write_master_config B m)"
| "write_transport B (RtuMasterConfig m device options frameType) = jobj B
     ([(keys_frame_type, jstr B (write_frame_type frameType)), (keys_device, jstr B device)] @
      write_rtu_options B options @ write_master_config B m)"

text \<open>The serial port accepts the character size of the transport.\<close>

definition character_size_fits :: "('j, 'a, 'u) config_lib \<Rightarrow> ('a, 'v) transport_config \<Rightarrow> bool" where
  "character_size_fits L c = (case c of RtuSlaveConfig d opts f \<Rightarrow> character_size_ok L (characterSize opts)
     | RtuMasterConfig m d opts f \<Rightarrow> character_size_ok L (characterSize opts) | _ \<Rightarrow> True)"

lemma gives_unit_id:
  fixes u :: "'u::len word"
  assumes "json_builds L B" and "LENGTH('u) \<le> 64" and "json_find L obj key = Some (jnum B (ucast u))"
    and "unit_id_ok L u"
  shows "gives (ExtractModbusUnitId L obj key) u"
proof -
  from assms(4) have "\<not> (u < unitIdMin L \<or> unitIdMax L < u)" by (auto simp: unit_id_ok_def not_less)
  then show ?thesis
    by (simp add: ExtractModbusUnitId_def pbind_gives [OF gives_unsigned [OF assms(1-3)]] gives_ret)
qed

lemma gives_range:
  fixes r :: "'u::len word unit_id_range"
  assumes "json_builds L B" and "LENGTH('u) \<le> 64" and "range_ok L r"
  shows "gives (UnitIdRange L (write_range B r)) r"
proof -
  have find: "json_find L (write_range B r) = map_of [(keys_numericRangeType, jstr B ''range''),
     (keys_numericRangeBegin, jnum B (ucast (range_begin r))), (keys_numericRangeEnd, jnum B (ucast (range_end r)))]"
    by (simp only: write_range_def json_buildsD(2) [OF assms(1)])
  have "gives (ExtractString L (write_range B r) keys_numericRangeType) ''range''"
    by (rule gives_string(1) [OF assms(1)]) (simp add: find keys_defs)
  then have type: "gives (ExtractNumericRangeType L (write_range B r)) Range"
    unfolding ExtractNumericRangeType_def
    by (intro gives_with_trace gives_bind [OF _ gives_or_invalid(1)]) (simp_all add: ConvertNumericRangeType_def)
  have b: "gives (ExtractModbusUnitId L (write_range B r) keys_numericRangeBegin) (range_begin r)"
    and e: "gives (ExtractModbusUnitId L (write_range B r) keys_numericRangeEnd) (range_end r)"
    using assms(3) by (auto intro!: gives_unit_id [OF assms(1,2)] simp: find keys_defs range_ok_def)
  have "UnitIdRange_Normalize \<lparr>range_begin = range_begin r, range_end = range_end r\<rparr> = r"
    using assms(3) by (auto simp: UnitIdRange_Normalize_def range_ok_def not_less [symmetric])
  then show ?thesis
    by (simp add: UnitIdRange_def pbind_gives [OF type] pbind_gives [OF b] pbind_gives [OF e] gives_ret)
qed

lemma gives_unit_ids:
  fixes rs :: "'u::len word unit_id_range list"
  assumes "json_builds L B" and "LENGTH('u) \<le> 64" and "list_all (range_ok L) rs"
    and "json_find L obj keys_unitIdSet = (if rs = [] then None else Some (jarr B (map (write_range B) rs)))"
  shows "gives (ExtractUnitIdRangeSet L obj) (if rs = [] then None else Some rs)"
proof (cases "rs = []")
  case True
  then show ?thesis unfolding ExtractUnitIdRangeSet_def
    by (intro gives_with_trace) (simp add: FindObjectRaw_def assms(4) gives_ret)
next
  case False
  have "gives (with_indices (UnitIdRange L) 0 (map (write_range B) rs)) rs"
    by (rule gives_indices)
      (use assms(3) gives_range [OF assms(1,2)] in \<open>auto simp: list_all2_conv_all_nth list_all_length\<close>)
  moreover have "ConvertJsonTypeToValueType (json_type L (jarr B (map (write_range B) rs))) = Array"
    by (simp add: json_buildsD [OF assms(1)] ConvertJsonTypeToValueType_def)
  ultimately show ?thesis unfolding ExtractUnitIdRangeSet_def
    by (intro gives_with_trace)
      (simp add: FindObjectRaw_def assms(4) False json_buildsD [OF assms(1)] pbind_gives [OF gives_check]
        pbind_gives gives_ret)
qed

lemma gives_master_config:
  fixes m :: "'u::len word master_config"
  assumes "json_builds L B" and "LENGTH('u) \<le> 64" and "list_all (range_ok L) (unitIdSet m)"
    and "\<And>k. k \<in> {keys_timeout, keys_unitIdSet} \<Longrightarrow> json_find L obj k = map_of (write_master_config B m) k"
  shows "gives (MasterConfig L obj) m"
proof -
  have "gives (ExtractUnsignedNumber L obj keys_timeout) (mc_timeout m)"
    by (rule gives_unsigned [OF assms(1)]) (simp_all add: assms(4) write_master_config_def)
  moreover have "gives (ExtractUnitIdRangeSet L obj) (if unitIdSet m = [] then None else Some (unitIdSet m))"
    by (rule gives_unit_ids [OF assms(1-3)]) (simp add: assms(4) write_master_config_def keys_defs)
  ultimately show ?thesis
    by (cases m) (simp add: MasterConfig_def pbind_gives gives_ret split: if_splits)
qed

lemma gives_slave:
  fixes c :: "('a, 'u::len word) transport_config"
  assumes "json_builds L B" and "slave_ok c" and "character_size_fits L c"
  shows "gives (ExtractSlave L (write_transport B c)) c"
proof (cases c)
  case (TcpServerConfig address port)
  let ?j = "write_transport B c"
  have find: "json_find L ?j = map_of [(keys_frame_type, jstr B ''tcp''),
     (keys_ipAddress, jstr B (address_str B address)), (keys_ipPort, jnum B (ucast port))]"
    by (simp only: TcpServerConfig write_transport.simps json_buildsD(2) [OF assms(1)])
  have "gives (ExtractFrameType L ?j) TCP"
    by (rule gives_frame_type [OF assms(1)]) (simp add: find keys_defs write_frame_type_def)
  moreover have "gives (ExtractIpAddressOptional L ?j) (Some address)"
    by (rule gives_address(1) [OF assms(1)]) (simp add: find keys_defs)
  moreover have "gives (ExtractIpPort L ?j) port"
    by (rule gives_port [OF assms(1)], simp add: find keys_defs)
      (use assms(2) in \<open>simp add: TcpServerConfig slave_ok_def\<close>)
  ultimately show ?thesis
    by (simp add: ExtractSlave_def new_TcpServerConfig_def pbind_gives gives_ret TcpServerConfig del: write_transport.simps)
next
  case (RtuSlaveConfig device opts f)
  let ?j = "write_transport B c"
  have find: "json_find L ?j = map_of ([(keys_frame_type, jstr B (write_frame_type f)), (keys_device, jstr B device)] @
      write_rtu_options B opts)"
    by (simp only: RtuSlaveConfig write_transport.simps json_buildsD(2) [OF assms(1)])
  have "gives (ExtractFrameType L ?j) f"
    by (rule gives_frame_type [OF assms(1)]) (simp add: find keys_defs)
  moreover have "gives (ExtractString L ?j keys_device) device"
    by (rule gives_string(1) [OF assms(1)]) (simp add: find keys_defs)
  moreover have "gives (ExtractRtuOptions L ?j) opts"
    by (rule gives_rtu_options [OF assms(1)])
      (use assms(3) in \<open>simp add: character_size_fits_def RtuSlaveConfig\<close>, auto simp: find keys_defs)
  moreover have "f \<noteq> TCP" using assms(2) by (simp add: RtuSlaveConfig slave_ok_def)
  ultimately show ?thesis
    by (cases f) (simp_all add: ExtractSlave_def new_RtuSlaveConfig_def pbind_gives gives_ret RtuSlaveConfig
        del: write_transport.simps)
qed (use assms in \<open>simp_all add: slave_ok_def\<close>)

text \<open>The members of the serial options are not those of the master's own configuration.\<close>

lemma map_of_master_config:
  "map_of (write_master_config B m) k = (if k = keys_timeout then Some (jnum B (mc_timeout m))
    else if k = keys_unitIdSet \<and> unitIdSet m \<noteq> [] then Some (jarr B (map (write_range B) (unitIdSet m))) else None)"
  by (simp add: write_master_config_def keys_defs)

lemma map_of_rtu_options_other:
  "k \<in> {keys_timeout, keys_unitIdSet} \<Longrightarrow> map_of (write_rtu_options B opts) k = None"
  by (auto simp: write_rtu_options_def keys_defs)

lemma gives_master:
  fixes c :: "('a, 'u::len word) transport_config"
  assumes "json_builds L B" and "LENGTH('u) \<le> 64" and "master_ok L c" and "character_size_fits L c"
  shows "gives (ExtractMaster L (write_transport B c)) c"
proof (cases c)
  case (TcpClientConfig m address port)
  let ?j = "write_transport B c"
  have find: "json_find L ?j = map_of ([(keys_frame_type, jstr B ''tcp''),
     (keys_ipAddress, jstr B (address_str B address)), (keys_ipPort, jnum B (ucast port))] @ write_master_config B m)"
    by (simp only: TcpClientConfig write_transport.simps json_buildsD(2) [OF assms(1)])
  have "gives (ExtractFrameType L ?j) TCP"
    by (rule gives_frame_type [OF assms(1)]) (simp add: find keys_defs write_frame_type_def)
  moreover have "gives (ExtractIpAddress L ?j) address"
    by (rule gives_address(2) [OF assms(1)]) (simp add: find keys_defs)
  moreover have "gives (ExtractIpPort L ?j) port"
    by (rule gives_port [OF assms(1)], simp add: find keys_defs)
      (use assms(3) in \<open>simp add: TcpClientConfig master_ok_def\<close>)
  moreover have "gives (MasterConfig L ?j) m"
    by (rule gives_master_config [OF assms(1,2)])
      (use assms(3) in \<open>simp add: TcpClientConfig master_ok_def\<close>,
       auto simp: find map_of_master_config keys_defs)
  ultimately show ?thesis
    by (simp add: ExtractMaster_def new_TcpClientConfig_def pbind_gives gives_ret TcpClientConfig del: write_transport.simps)
next
  case (RtuMasterConfig m device opts f)
  let ?j = "write_transport B c"
  have find: "json_find L ?j = map_of ([(keys_frame_type, jstr B (write_frame_type f)), (keys_device, jstr B device)] @
      write_rtu_options B opts @ write_master_config B m)"
    by (simp only: RtuMasterConfig write_transport.simps json_buildsD(2) [OF assms(1)])
  have other: "map_of (write_master_config B m) k = None"
    if "k \<notin> {keys_timeout, keys_unitIdSet}" for k
    using that by (simp add: map_of_master_config)
  have "gives (ExtractFrameType L ?j) f"
    by (rule gives_frame_type [OF assms(1)]) (simp add: find keys_defs)
  moreover have "gives (ExtractString L ?j keys_device) device"
    by (rule gives_string(1) [OF assms(1)]) (simp add: find keys_defs)
  moreover have "gives (ExtractRtuOptions L ?j) opts"
    by (rule gives_rtu_options [OF assms(1)])
      (use assms(4) in \<open>simp add: character_size_fits_def RtuMasterConfig\<close>,
       auto simp: find keys_defs map_add_def map_of_master_config split: option.split)
  moreover have "gives (MasterConfig L ?j) m"
    by (rule gives_master_config [OF assms(1,2)])
      (use assms(3) in \<open>simp add: RtuMasterConfig master_ok_def\<close>,
       auto simp: find map_add_def map_of_rtu_options_other keys_frame_type_def keys_device_def
         keys_timeout_def keys_unitIdSet_def split: option.split)
  moreover have "f \<noteq> TCP" using assms(3) by (simp add: RtuMasterConfig master_ok_def)
  ultimately show ?thesis
    by (cases f) (simp_all add: ExtractMaster_def new_RtuMasterConfig_def pbind_gives gives_ret RtuMasterConfig
        del: write_transport.simps)
qed (use assms in \<open>simp_all add: master_ok_def\<close>)

subsection \<open>The whole configuration\<close>

definition write_service :: "('j, 'a) json_builder \<Rightarrow> config_service \<Rightarrow> 'j" where
  "write_service B s = jobj B [(keys_logLevel, jstr B (write_log_level (logLevel s))), (keys_threads, jnum B (threads s))]"

definition write_config :: "('j, 'a) json_builder \<Rightarrow> ('a, 'u::len word) config \<Rightarrow> 'j" where
  "write_config B c = jobj B [(keys_service, write_service B (configService c)),
     (keys_slaves, jarr B (map (write_transport B) (slaves c))),
     (keys_masters, jarr B (map (write_transport B) (masters c)))]"

lemma gives_service:
  assumes "json_builds L B" and "json_find L obj keys_service = Some (write_service B s)"
  shows "gives (ExtractConfigService L obj) s"
proof -
  let ?j = "write_service B s"
  have find: "json_find L ?j = map_of [(keys_logLevel, jstr B (write_log_level (logLevel s))), (keys_threads, jnum B (threads s))]"
    by (simp only: write_service_def json_buildsD(2) [OF assms(1)])
  have "gives (ExtractLogLevel L ?j) (Some (logLevel s))"
    by (rule gives_log_level [OF assms(1)]) (simp add: find)
  moreover have "gives (ExtractUnsignedNumberOpt L ?j keys_threads) (Some (threads s))"
    by (rule gives_unsigned_opt [OF assms(1)]) (simp_all add: find keys_defs)
  moreover have "ConfigService_default\<lparr>logLevel := logLevel s, threads := threads s\<rparr> = s"
    by (cases s) (simp add: ConfigService_default_def)
  ultimately have "gives (ConfigService L ?j) s"
    by (simp add: ConfigService_def pbind_gives gives_ret Let_def)
  moreover have "ConvertJsonTypeToValueType (json_type L ?j) = Object"
    by (simp add: write_service_def json_buildsD [OF assms(1)] ConvertJsonTypeToValueType_def)
  ultimately show ?thesis unfolding ExtractConfigService_def
    by (intro gives_with_trace gives_bind [OF gives_find [OF assms(2)]] gives_bind [OF gives_check])
qed

text \<open>A nonempty array of transports.\<close>

lemma gives_array:
  assumes "json_builds L B" and "json_find L obj key = Some (jarr B (map w cs))" and "cs \<noteq> []"
    and "\<And>c. c \<in> set cs \<Longrightarrow> gives (f (w c)) c"
  shows "gives (with_trace key (\<lambda>td. pbind (FindObject L td obj) (\<lambda>js. pbind (CheckType L td js Array) (\<lambda>_.
     if json_elements L js = [] then throw_InvalidValue td s else with_indices f 0 (json_elements L js))))) cs"
proof -
  have "gives (with_indices f 0 (map w cs)) cs"
    by (rule gives_indices) (use assms(4) in \<open>simp add: list_all2_conv_all_nth\<close>)
  moreover have "ConvertJsonTypeToValueType (json_type L (jarr B (map w cs))) = Array"
    by (simp add: json_buildsD [OF assms(1)] ConvertJsonTypeToValueType_def)
  ultimately show ?thesis
    by (intro gives_with_trace gives_bind [OF gives_find [OF assms(2)]] gives_bind [OF gives_check])
      (simp_all add: json_buildsD [OF assms(1)] assms(3))
qed

lemma gives_config:
  fixes c :: "('a, 'u::len word) config"
  assumes "json_builds L B" and "LENGTH('u) \<le> 64" and "config_ok L c"
    and "list_all (character_size_fits L) (slaves c @ masters c)"
  shows "gives (Config_extract L (write_config B c)) c"
proof -
  let ?j = "write_config B c"
  have find: "json_find L ?j = map_of [(keys_service, write_service B (configService c)),
     (keys_slaves, jarr B (map (write_transport B) (slaves c))),
     (keys_masters, jarr B (map (write_transport B) (masters c)))]"
    by (simp only: write_config_def json_buildsD(2) [OF assms(1)])
  have "gives (ExtractConfigService L ?j) (configService c)"
    by (rule gives_service [OF assms(1)]) (simp add: find keys_defs)
  moreover have "gives (ExtractSlaves L ?j) (slaves c)"
    unfolding ExtractSlaves_def
    by (rule gives_array [OF assms(1)], simp add: find keys_defs)
      (use assms(3,4) in \<open>auto simp: config_ok_def list_all_iff intro!: gives_slave [OF assms(1)]\<close>)
  moreover have "gives (ExtractMasters L ?j) (masters c)"
    unfolding ExtractMasters_def
    by (rule gives_array [OF assms(1)], simp add: find keys_defs)
      (use assms(3,4) in \<open>auto simp: config_ok_def list_all_iff intro!: gives_master [OF assms(1,2)]\<close>)
  ultimately show ?thesis
    by (cases c) (simp add: Config_extract_def pbind_gives gives_ret)
qed

subsection \<open>A concrete library, for the witness\<close>

datatype full_json = FObj "(string \<times> full_json) list" | FArr "full_json list" | FStr string
  | FBool bool | FNum "64 word" | FFloat rat

fun full_type :: "full_json \<Rightarrow> json_value_t" where
  "full_type (FObj kvs) = value_object"
| "full_type (FArr js) = value_array"
| "full_type (FStr s) = value_string"
| "full_type (FBool b) = value_boolean"
| "full_type (FNum w) = value_number_unsigned"
| "full_type (FFloat x) = value_number_float"

definition full_lib :: "(full_json, string, 8 word) config_lib" where
  "full_lib = \<lparr>json_type = full_type,
     json_find = (\<lambda>j. case j of FObj kvs \<Rightarrow> map_of kvs | _ \<Rightarrow> (\<lambda>k. None)),
     json_elements = (\<lambda>j. case j of FArr js \<Rightarrow> js | _ \<Rightarrow> []),
     json_string = (\<lambda>j. case j of FStr s \<Rightarrow> s | _ \<Rightarrow> []),
     json_bool = (\<lambda>j. j = FBool True),
     json_u64 = (\<lambda>j. case j of FNum w \<Rightarrow> w | _ \<Rightarrow> 0),
     json_u32 = (\<lambda>j. case j of FNum w \<Rightarrow> ucast w | _ \<Rightarrow> 0),
     json_float = (\<lambda>j. case j of FFloat x \<Rightarrow> x | _ \<Rightarrow> 0), float_to_string = (\<lambda>x. []),
     make_address_v4 = Some, address_any = ''0.0.0.0'', character_size_ok = (\<lambda>w. 5 \<le> w \<and> w \<le> 8),
     default_rtu_options = default_rtu_options sample_config_lib, unitIdMin = 1, unitIdMax = 247\<rparr>"

definition full_builder :: "(full_json, string) json_builder" where
  "full_builder = \<lparr>jobj = FObj, jarr = FArr, jstr = FStr, jbool = FBool, jnum = FNum, jfloat = FFloat,
     address_str = (\<lambda>a. a)\<rparr>"

lemma full_lib_builds: "json_builds full_lib full_builder"
  by (simp add: json_builds_def full_lib_def full_builder_def)

definition full_config :: "(string, 8 word) config" where
  "full_config = \<lparr>configService = \<lparr>logLevel = Debug, threads = 4\<rparr>,
     slaves = [TcpServerConfig ''0.0.0.0'' 502,
       RtuSlaveConfig ''/dev/ttyS0'' \<lparr>baudRate = 9600, characterSize = 8, opt_parity = parity_even,
         stopBits = stop_bits_onepointfive, flowControl = flow_control_none,
         opt_rs485 = Some \<lparr>rtsOnSend = Some True, rtsAfterSend = None, rxDuringTx = Some False,
           terminateBus = None, delayRtsBeforeSend = Some 3, delayRtsAfterSend = None\<rparr>\<rparr> ASCII],
     masters = [TcpClientConfig \<lparr>mc_timeout = 500, unitIdSet = []\<rparr> ''10.0.0.1'' 503,
       RtuMasterConfig \<lparr>mc_timeout = 200, unitIdSet = [\<lparr>range_begin = 1, range_end = 9\<rparr>, \<lparr>range_begin = 12, range_end = 12\<rparr>]\<rparr>
         ''/dev/ttyS1'' \<lparr>baudRate = 115200, characterSize = 7, opt_parity = parity_none,
           stopBits = stop_bits_two, flowControl = flow_control_hardware, opt_rs485 = None\<rparr> RTU]\<rparr>"

subsection \<open>Properties\<close>

text \<open>
  C19: reading is the inverse of writing: a configuration with at least one slave and one master,
  ports, frame types and unit id ranges as the reader requires them and character sizes the
  serial port takes, written as a JSON document, is read back exactly, with every option of
  every transport.
\<close>

theorem Config_roundtrip:
  fixes c :: "('a, 'u::len word) config"
  assumes "json_builds L B" and "LENGTH('u) \<le> 64" and "config_ok L c"
    and "list_all (character_size_fits L) (slaves c @ masters c)"
  shows "Config L (Some (write_config B c)) = Inr c"
  using gives_config [OF assms] by (simp add: Config_def gives_def)

theorem Config_roundtrip_witness:
  "Config full_lib (Some (write_config full_builder full_config)) = Inr full_config"
proof (rule Config_roundtrip [OF full_lib_builds])
  show "config_ok full_lib full_config"
    by (simp add: config_ok_def full_config_def slave_ok_def master_ok_def range_ok_def unit_id_ok_def
        full_lib_def word_le_nat_alt)
  show "list_all (character_size_fits full_lib) (slaves full_config @ masters full_config)"
    by (simp add: full_config_def character_size_fits_def full_lib_def word_le_nat_alt)
qed simp

end
