(* ===== verification/Synchronized.thy ===== *)
theory Synchronized
  imports MG_Prelude
begin

text \<open>
  The wrapper that guards a value with a mutex (\<^verbatim>\<open>common/synchronized.h\<close>), around
  the open request of the slave-side actors. An access object holds the lock from its
  construction to its destruction, and its user reads and writes the value through a reference
  meanwhile. Threads that use the value only through access objects may interleave at every
  single use; the theorem says that the accesses nevertheless take effect one after the other,
  which is what the theories of the slave-side actors rely on when they treat an access as one
  step.
\<close>

subsection \<open>The wrapper\<close>

text \<open>The value, and the thread that has the mutex.\<close>

record 'v synchronized =
  sync_value :: 'v
  sync_m :: "nat option"

definition Synchronized :: "'v \<Rightarrow> 'v synchronized" where
  "Synchronized initial = \<lparr>sync_value = initial, sync_m = None\<rparr>"

text \<open>The constructor of the access object; \<open>None\<close> when the thread has to wait.\<close>

definition GetAccess :: "nat \<Rightarrow> 'v synchronized \<Rightarrow> 'v synchronized option" where
  "GetAccess thread s = (case sync_m s of None \<Rightarrow> Some (s\<lparr>sync_m := Some thread\<rparr>) | Some holder \<Rightarrow> None)"

text \<open>A use of the reference, together with the local variables of the user.\<close>

type_synonym ('v, 'l) ref_use = "'v \<times> 'l \<Rightarrow> 'v \<times> 'l"

definition Access_use :: "('v, 'l) ref_use \<Rightarrow> 'v synchronized \<Rightarrow> 'l \<Rightarrow> 'v synchronized \<times> 'l" where
  "Access_use f s l = (case f (sync_value s, l) of (v', l') \<Rightarrow> (s\<lparr>sync_value := v'\<rparr>, l'))"

text \<open>The destructor of the lock.\<close>

definition Access_Dtor :: "'v synchronized \<Rightarrow> 'v synchronized" where
  "Access_Dtor s = s\<lparr>sync_m := None\<rparr>"

lemmas access_defs [step_simps] = GetAccess_def Access_use_def Access_Dtor_def

subsection \<open>Threads\<close>

text \<open>
  Threads with local variables share the value; \<open>w_todo\<close> are the uses the holder of the lock
  still has to make, and \<open>w_log\<close> (not part of the program) the accesses made, in the order they
  got the lock.
\<close>

record ('v, 'l) world =
  w_sync :: "'v synchronized"
  w_locals :: "nat \<Rightarrow> 'l"
  w_todo :: "('v, 'l) ref_use list"
  w_log :: "(nat \<times> ('v, 'l) ref_use list) list"

definition world :: "'v \<Rightarrow> (nat \<Rightarrow> 'l) \<Rightarrow> ('v, 'l) world" where
  "world v ls = \<lparr>w_sync = Synchronized v, w_locals = ls, w_todo = [], w_log = []\<rparr>"

inductive world_step :: "('v, 'l) world \<Rightarrow> ('v, 'l) world \<Rightarrow> bool" where
  enter: "GetAccess t (w_sync W) = Some s \<Longrightarrow>
    world_step W (W\<lparr>w_sync := s, w_todo := uses, w_log := w_log W @ [(t, uses)]\<rparr>)"
| use: "sync_m (w_sync W) = Some t \<Longrightarrow> w_todo W = f # fs \<Longrightarrow>
    Access_use f (w_sync W) (w_locals W t) = (s, l) \<Longrightarrow>
    world_step W (W\<lparr>w_sync := s, w_locals := (w_locals W)(t := l), w_todo := fs\<rparr>)"
| leave: "sync_m (w_sync W) = Some t \<Longrightarrow> w_todo W = [] \<Longrightarrow>
    world_step W (W\<lparr>w_sync := Access_Dtor (w_sync W)\<rparr>)"

text \<open>One access as a single step, and a sequence of them.\<close>

fun atomic_access :: "nat \<times> ('v, 'l) ref_use list \<Rightarrow> 'v \<times> (nat \<Rightarrow> 'l) \<Rightarrow> 'v \<times> (nat \<Rightarrow> 'l)" where
  "atomic_access (t, uses) (v, ls) = (case fold (\<lambda>f. f) uses (v, ls t) of (v', l') \<Rightarrow> (v', ls(t := l')))"

definition atomic_run :: "(nat \<times> ('v, 'l) ref_use list) list \<Rightarrow> 'v \<times> (nat \<Rightarrow> 'l) \<Rightarrow> 'v \<times> (nat \<Rightarrow> 'l)" where
  "atomic_run log = fold atomic_access log"

lemma atomic_access_Cons:
  "atomic_access (t, f # fs) (v, ls) = (case f (v, ls t) of (v', l') \<Rightarrow> atomic_access (t, fs) (v', ls(t := l')))"
  by (simp split: prod.split)

text \<open>
  What is left of the access in progress, done at once, gives what the accesses of the log give
  one after the other.
\<close>

definition world_rest :: "('v, 'l) world \<Rightarrow> 'v \<times> (nat \<Rightarrow> 'l)" where
  "world_rest W = (case sync_m (w_sync W) of None \<Rightarrow> (sync_value (w_sync W), w_locals W)
     | Some t \<Rightarrow> atomic_access (t, w_todo W) (sync_value (w_sync W), w_locals W))"

lemma world_step_rest:
  assumes "world_step W W'" and "world_rest W = atomic_run (w_log W) x"
  shows "world_rest W' = atomic_run (w_log W') x"
  using assms(1)
proof cases
  case (enter t s uses)
  then have free: "sync_m (w_sync W) = None" and s: "s = (w_sync W)\<lparr>sync_m := Some t\<rparr>"
    by (auto simp: step_simps split: option.splits)
  then have "atomic_run (w_log W) x = (sync_value (w_sync W), w_locals W)"
    using assms(2) by (simp add: world_rest_def)
  then show ?thesis unfolding enter(1) s
    by (simp add: world_rest_def atomic_run_def del: atomic_access.simps)
next
  case (use t f fs s l)
  obtain v' l' where f: "f (sync_value (w_sync W), w_locals W t) = (v', l')" by fastforce
  with use(4) have s: "s = (w_sync W)\<lparr>sync_value := v'\<rparr>" "l = l'" by (simp_all add: step_simps)
  have "world_rest W = atomic_access (t, f # fs) (sync_value (w_sync W), w_locals W)"
    using use(2,3) by (simp add: world_rest_def)
  also have "\<dots> = atomic_access (t, fs) (v', (w_locals W)(t := l'))"
    unfolding atomic_access_Cons f by simp
  also have "\<dots> = world_rest W'"
    using use(2) by (simp add: world_rest_def use(1) s)
  finally show ?thesis using assms(2) use(1) by simp
next
  case (leave t)
  then have "world_rest W' = world_rest W" by (simp add: world_rest_def step_simps)
  with assms(2) leave(1) show ?thesis by simp
qed

lemma world_reach_rest:
  assumes "rtranclp world_step (world v ls) W"
  shows "world_rest W = atomic_run (w_log W) (v, ls)"
  using assms
proof (induction rule: rtranclp_induct)
  case base
  show ?case by (simp add: world_rest_def world_def Synchronized_def atomic_run_def)
next
  case (step W W')
  show ?case by (rule world_step_rest [OF step.hyps(2) step.IH])
qed

subsection \<open>Properties\<close>

text \<open>
  C37: however the threads interleave their uses of the value, whenever nobody holds the lock the
  value and every thread's local variables are those of running the accesses one after the
  other, each as one step, in the order they got the lock.
\<close>

theorem Synchronized_atomic:
  assumes "rtranclp world_step (world v ls) W" and "sync_m (w_sync W) = None"
  shows "(sync_value (w_sync W), w_locals W) = atomic_run (w_log W) (v, ls)"
  using world_reach_rest [OF assms(1)] assms(2) by (simp add: world_rest_def)

text \<open>Two threads that each read the value and write it back incremented: no increment is lost.\<close>

theorem Synchronized_atomic_witness:
  "\<exists>W :: (nat, nat) world. rtranclp world_step (world 0 (\<lambda>t. 0)) W \<and> sync_value (w_sync W) = 2 \<and>
     map fst (w_log W) = [1, 2]"
proof -
  let ?uses = "[\<lambda>(v, l). (v, v), \<lambda>(v, l). (Suc l, l)] :: (nat, nat) ref_use list"
  let ?W = "\<lambda>v m ls todo log. \<lparr>w_sync = \<lparr>sync_value = v, sync_m = m\<rparr>, w_locals = ls, w_todo = todo, w_log = log\<rparr>"
  have access: "rtranclp world_step (?W v None ls [] log) (?W (Suc v) None (ls(t := v)) [] (log @ [(t, ?uses)]))"
    for v t and ls :: "nat \<Rightarrow> nat" and log
  proof -
    have 1: "world_step (?W v None ls [] log) (?W v (Some t) ls ?uses (log @ [(t, ?uses)]))"
      using enter [of t "?W v None ls [] log" _ ?uses] by (simp add: step_simps)
    have 2: "world_step (?W v (Some t) ls ?uses lg) (?W v (Some t) (ls(t := v)) (tl ?uses) lg)" for lg
      using world_step.use [of "?W v (Some t) ls ?uses lg" t "hd ?uses" "tl ?uses"] by (simp add: step_simps)
    have 3: "world_step (?W v (Some t) (ls(t := v)) (tl ?uses) lg) (?W (Suc v) (Some t) (ls(t := v)) [] lg)" for lg
      using world_step.use [of "?W v (Some t) (ls(t := v)) (tl ?uses) lg" t "hd (tl ?uses)" "[]"]
      by (simp add: step_simps)
    have 4: "world_step (?W (Suc v) (Some t) (ls(t := v)) [] lg) (?W (Suc v) None (ls(t := v)) [] lg)" for lg
      using leave [of "?W (Suc v) (Some t) (ls(t := v)) [] lg" t] by (simp add: step_simps)
    show ?thesis
      by (rule converse_rtranclp_into_rtranclp [where r = world_step, OF 1], rule converse_rtranclp_into_rtranclp [where r = world_step, OF 2],
          rule converse_rtranclp_into_rtranclp [where r = world_step, OF 3], rule converse_rtranclp_into_rtranclp [where r = world_step, OF 4],
          rule rtranclp.rtrancl_refl)
  qed
  have "rtranclp world_step (world 0 (\<lambda>t. 0)) (?W 2 None ((\<lambda>t. 0)(1 := 0, 2 := 1)) [] [(1, ?uses), (2, ?uses)])"
    using rtranclp_trans [OF access [of 0 "\<lambda>t. 0" "[]" 1] access [of "Suc 0" "(\<lambda>t. 0)(1 := 0)" "[] @ [(1, ?uses)]" 2]]
    by (simp add: world_def Synchronized_def numeral_2_eq_2)
  from this Synchronized_atomic [OF this] show ?thesis
    by (intro exI [of _ "?W 2 None ((\<lambda>t. 0)(1 := 0, 2 := 1)) [] [(1, ?uses), (2, ?uses)]"]) simp
qed

end
