(* ===== verification/Logging.thy ===== *)
theory Logging
  imports Config_Extract
begin

text \<open>
  The level of the log (\<^verbatim>\<open>common/fmt_logger.h\<close>, \<^verbatim>\<open>fmt_logger.cpp\<close>):
  the levels of the program are those of the logging library, a message is written when its level
  is not below the one that was set. What is written is not modelled.
\<close>

subsection \<open>Levels\<close>

text \<open>The numbers of the library's levels, to which \<^verbatim>\<open>SetLogLevel\<close> casts.\<close>

definition spdlog_level :: "log_level \<Rightarrow> nat" where
  "spdlog_level l = (case l of Trace \<Rightarrow> 0 | Debug \<Rightarrow> 1 | Info \<Rightarrow> 2 | Warning \<Rightarrow> 3 | Error \<Rightarrow> 4 | Critical \<Rightarrow> 5)"

lemma spdlog_level_inj: "spdlog_level l = spdlog_level m \<Longrightarrow> l = m"
  by (cases l; cases m) (simp_all add: spdlog_level_def)

instantiation log_level :: linorder
begin

definition less_eq_log_level :: "log_level \<Rightarrow> log_level \<Rightarrow> bool" where
  "less_eq_log_level l m \<longleftrightarrow> spdlog_level l \<le> spdlog_level m"

definition less_log_level :: "log_level \<Rightarrow> log_level \<Rightarrow> bool" where
  "less_log_level l m \<longleftrightarrow> spdlog_level l < spdlog_level m"

instance
  by standard (auto simp: less_eq_log_level_def less_log_level_def dest: spdlog_level_inj)

end

subsection \<open>The logger\<close>

text \<open>The default logger of the library keeps the level.\<close>

record logger =
  logger_level :: nat

definition SetLogLevel :: "log_level \<Rightarrow> logger \<Rightarrow> logger" where
  "SetLogLevel logLevel l = l\<lparr>logger_level := spdlog_level logLevel\<rparr>"

definition logger_writes :: "logger \<Rightarrow> log_level \<Rightarrow> bool" where
  "logger_writes l messageLevel \<longleftrightarrow> logger_level l \<le> spdlog_level messageLevel"

lemma SetLogLevel_writes: "logger_writes (SetLogLevel l lg) m \<longleftrightarrow> l \<le> m"
  by (simp add: logger_writes_def SetLogLevel_def less_eq_log_level_def)

text \<open>A higher level writes less, and critical messages are always written.\<close>

lemma SetLogLevel_mono: "l \<le> l' \<Longrightarrow> logger_writes (SetLogLevel l' lg) m \<Longrightarrow> logger_writes (SetLogLevel l lg) m"
  unfolding SetLogLevel_writes by (rule order_trans)

lemma Critical_always: "logger_writes (SetLogLevel l lg) Critical"
  unfolding SetLogLevel_writes by (cases l) (simp_all add: less_eq_log_level_def spdlog_level_def)

text \<open>
  The names of the levels in a configuration file, from the most to the least talkative one, name
  the levels in ascending order.
\<close>

lemma level_names_sorted:
  "sorted (map (the \<circ> ConvertLogLevel) [''trace'', ''debug'', ''info'', ''warning'', ''error'', ''critical''])"
  by code_simp

end
