(* ===== verification/Spec2Isabelle.thy ===== *)
theory Spec2Isabelle
  imports Draining Undisturbed Validators Config_Write Synchronized Logging
begin

text \<open>
  A verification library for the Modbus gateway (\<^verbatim>\<open>modbus_gateway\<close>).

  The program connects Modbus masters on the network or on serial lines (its \<^emph>\<open>slaves\<close>: it plays
  the slave towards them) to Modbus devices (its \<^emph>\<open>masters\<close>). Every transport is an actor; actors
  exchange messages through an exchange and get completions of asynchronous operations from an
  event loop. A request goes from a slave-side actor over the routing table to a master-side
  actor, and its answer back to the actor it came from.

  \<^bold>\<open>Theories and what they model.\<close>

  \<^item> \<open>MG_Prelude\<close>: outcomes of a handler (\<open>Done\<close>, \<open>Throws\<close>, \<open>Undefined\<close>), runs of a component over a
    list of events, \<^verbatim>\<open>std::to_string\<close>, facts on lists and words.
  \<^item> \<open>Limit_Queue\<close>: \<^verbatim>\<open>common/limit_queue.h\<close>; the interface \<open>bounded_fifo\<close>.
  \<^item> \<open>Messages\<close>: \<^verbatim>\<open>message/\<close> with the timeout latch, the clean-up loop of the
    masters (\<open>drop_expired\<close>), the parameters for the frame library and the effects of a handler.
  \<^item> \<open>Unit_Router\<close>: \<^verbatim>\<open>transport/router.cpp\<close>; the interface \<open>unit_routing\<close>.
  \<^item> \<open>Request_Slot\<close>: the interface \<open>request_slot\<close> of the two actors that remember one open request.
  \<^item> \<open>Tcp_Connection\<close>, \<open>Tcp_Server\<close>, \<open>Rtu_Slave\<close>: the slave-side actors of
    \<^verbatim>\<open>transport/\<close>.
  \<^item> \<open>Master_Pipeline\<close>: what the master-side actors share: the message in process, the interface
    \<open>message_pipeline\<close>, and actors together with their outstanding operations (\<open>io_step\<close>,
    \<open>io_reach\<close>, \<open>io_run\<close>).
  \<^item> \<open>Rtu_Master\<close>, \<open>Tcp_Client\<close>: the master-side actors of \<^verbatim>\<open>transport/\<close>.
  \<^item> \<open>Rtu_Options\<close>: \<^verbatim>\<open>transport/rtu_options.cpp\<close> and the kernel's RS-485 flags.
  \<^item> \<open>Trace_Path\<close>: the path and the exceptions of the configuration parser, and the contract
    \<open>traced\<close> of its steps.
  \<^item> \<open>Config_Extract\<close>, \<open>Gateway_Config\<close>: \<^verbatim>\<open>config/\<close>, from the single values to
    \<^verbatim>\<open>Config\<close> and \<^verbatim>\<open>Validate\<close>.
  \<^item> \<open>Config_Write\<close>: a writer of configurations, over a builder of JSON values with the documented
    behaviour of the library, and the lemmas that each extractor reads back what its writer wrote.
  \<^item> \<open>Validators\<close>: \<^verbatim>\<open>config/validators.cpp\<close>, which the build leaves out.
  \<^item> \<open>Synchronized\<close>: \<^verbatim>\<open>common/synchronized.h\<close> with threads that use it.
  \<^item> \<open>Gateway\<close>: \<^verbatim>\<open>modbus_gateway.cpp\<close> and \<^verbatim>\<open>main.cpp\<close>.
  \<^item> \<open>System\<close>: one request through connection, table and master, and back.
  \<^item> \<open>Draining\<close>: the completions of a well-behaved device and what they do to a waiting queue.
  \<^item> \<open>Network\<close>: any number of slave-side and master-side actors with the messages in flight between
    them, as a step relation; connections come and go, and their ids are used again.
  \<^item> \<open>Event_Loop\<close>: the whole running gateway as one state with one step per completion, from the
    signal handler to the return of \<^verbatim>\<open>context->run()\<close>; \<open>Loop_Steps\<close>: what its steps
    preserve, and the interface \<open>loop_simulation\<close>; \<open>Gateway_Run\<close>: from the start to the exit code.
  \<^item> \<open>Isolation\<close>: the part of the running gateway that belongs to a group of actors, and what
    happens to it in a run; \<open>Gateway_Answers\<close>: one request through the running gateway.
  \<^item> \<open>Actor_Runs\<close>: the steps of the running gateway by cases, and its decomposition into runs of
    the single actors; \<open>Traffic\<close>: how many frames it writes, of which types and with which numbers;
    \<open>Undisturbed\<close>: one request through the running gateway while anything else goes on.
  \<^item> \<open>Logging\<close>: the levels of \<^verbatim>\<open>common/fmt_logger.h\<close> and their order.
  \<^item> \<open>Sample_Frames\<close>: a concrete frame library for the witnesses.

  \<^bold>\<open>How code and model correspond.\<close> A class is a record of its members (the pointers to the
  exchange, the context and the socket are not state of the model), a method is a definition
  named after class and method, and the completion handler of an asynchronous operation is a
  definition of its own (\<open>on_read\<close>, \<open>on_write\<close>, ...). A handler gives the new state and the list of
  effects in program order: operations started or cancelled and messages sent. Every class has
  a datatype of events and a \<open>step\<close> that dispatches them. The handlers run under the mutex of
  their actor or on one thread, so they are atomic steps, and any interleaving of actors and
  completions is a list of events. What comes from outside a handler (clock, error code, size,
  whether the exchange is still there, whether the remote endpoint is known) is an argument of
  the event and unconstrained in the theorems. Machine integers keep their width: ids of frames
  are words of an arbitrary width, chrono counts and \<^verbatim>\<open>size_t\<close> are 64-bit words.
  Undefined behaviour and escaping exceptions are outcomes, so that absence is a theorem.

  \<^bold>\<open>Parameters.\<close> The frame library and the actor library are git submodules that are not in the
  repository, asio and the JSON library are not part of it: \<open>modbus_lib\<close>, \<open>config_lib\<close>,
  \<open>rs485_flags\<close>, the option parser and the ids the exchange hands out are arguments of the
  definitions, and so are the completions the event loop dispatches and their order. Documented
  behaviour some theorems need is named: \<open>tid_readback\<close>, \<open>convert_types\<close>, \<open>unit_id_kept\<close>, \<open>flags_disjoint\<close>, \<open>ids_fresh\<close> (the exchange gives
  distinct ids to actors that stay), \<open>json_builds\<close>.

  \<^bold>\<open>What the lemmas show.\<close>

  \<^item> Slave side: an answer is written only for the open request, at most once, with the right
    transaction id, unit id and frame type (\<open>request_slot\<close>, interpreted for both actors); a
    connection keeps reading or reports its end; the server owns exactly the registered
    connections.
  \<^item> Master side: replies leave in the order of the requests, at most one per request and to its
    sender (\<open>message_pipeline\<close>, interpreted for both actors); at most one frame operation is in
    flight; no run is undefined; progress after a reply, and what happens after errors. The TCP
    client passes on only frames with the transaction id it sent last. With an acceptable answer
    to every frame it writes, a master empties its queue and answers every request
    (\<open>pipeline_server\<close>, interpreted for both actors).
  \<^item> Composition: in every reachable network the replies delivered are among the replies sent, and
    those among the requests sent, counted with their multiplicity, and each goes to the actor its
    request came from; a started gateway is such a network and no master of it is ever undefined.
  \<^item> The running gateway: each step of the event loop is a step of the network or none
    (\<open>loop_simulation\<close>, interpreted for it), so all this holds of it; a step is undefined exactly
    for a frame with the largest unit id; a connection the exchange knows is owned by its server
    and reads or is about to be removed; \<open>main\<close> returns 0 only after a signal, and 1 when a client
    is gone before its accept is handled.
  \<^item> The wire: in every state the running gateway reaches, a request for an idle master that does
    not expire and is acceptably answered, read by a connection or from the line of a serial slave, leads to
    one frame on the master's line and one to the client; for a connection this is shown for every run in which
    exactly these steps happen to connection and master, whatever other actors do in between. The gateway
    never writes more frames to devices than it read requests, nor more to clients than to devices;
    every frame is of the type of its line, and a client numbers its frames 1, 2, 3, ...
  \<^item> Decomposition: every actor of the running gateway is the one made from the configuration (or
    by its server's accept) after exactly what it was handed, wrote exactly what this run of its
    class writes, and keeps the contract its theory shows of such runs. A group of actors does and writes the
    same whatever the other actors do, as long as the same happens to it.
  \<^item> Flaws, as theorems: a refused reply size stops a master for ever, a failed read leaves the
    queue unprocessed, a stale timer cancels the next request, the client connects twice, the
    table has no entry for the largest unit id, the queue bound is off by one, negative numbers
    in the configuration are accepted, a new connection with a used id is sent the answer to its
    predecessor's request, the validators reject a full coverage made of two ranges.
  \<^item> Configuration: every error reports a path from the root to the key it names, values that
    were read are in range, a configuration that was written is read back as it was, validation
    is characterised.
  \<^item> Validators: they accept exactly the sections without a conflict of endpoints or of unit ids;
    the set under its comparator is interval arithmetic.
  \<^item> Guarded value: accesses of threads that interleave at every use take effect one after the
    other.
  \<^item> Assembly: which validated configurations start, fail or write behind the table, and how the
    table of a started gateway routes; \<open>main\<close> gives exactly the specified exit codes and reports and
    lets no exception escape.

  \<^bold>\<open>Termination and bounds.\<close> No definition uses fuel. The clean-up loop is a \<open>function\<close> with a
  measure. The loop over the unit ids of a range counts at the width of a unit id and is a
  partial function, for which \<open>set_range_ends\<close> proves that it always ends, if only in undefined
  behaviour for a range up to the largest value. The 64-bit overflow of the timeout arithmetic
  is excluded by explicit bounds where a theorem needs it.

  \<^bold>\<open>Not modelled.\<close> Log output, the mutexes inside the two masters (their handlers are atomic steps),
  the text of the help, the frame and actor libraries, the order in which the libraries destroy
  the actors after the loop returned. No function of the sources with a result or an effect on
  the gateway's state is left out: the rest of them are declarations, accessors of the stored
  type of an object and the macros of the logger. The four TCP and serial configuration classes are one
  datatype instead of a class hierarchy. The event loop is the asynchronous input and output
  library's: its steps are the program's handlers, and any order of completions is allowed, also
  ones the library would not give; of the outstanding operations it keeps the reads of the
  slave-side actors (the masters' are in \<open>io_step\<close>).
\<close>

end
